(* ===== verification/Prelude.thy ===== *)
theory Prelude
  imports Main "HOL-Library.Word" "HOL-Library.Sublist"
begin

text \<open>
  What every component of the model shares: the machine integer types of
  \<^verbatim>\<open>utils/headers.hpp\<close>, C++ exceptions and undefined behaviour as values, the
  sequencing of computations that may fail, checked indexing of a vector, the
  reading of a \<^verbatim>\<open>bytes\<close> value as a \<^verbatim>\<open>std::string\<close> and back, and the
  generic facts about lists, sums and words the component proofs rest on.
\<close>

unbundle bit_operations_syntax

section \<open>Types\<close>

type_synonym u8 = "8 word"
type_synonym u16 = "16 word"
type_synonym u32 = "32 word"
type_synonym u64 = "64 word"
type_synonym bytes = "u8 list"

text \<open>
  The code reports failure by throwing. \<^verbatim>\<open>Runtime_Error\<close> carries the message of a
  \<^verbatim>\<open>std::runtime_error\<close>; \<^verbatim>\<open>System_Error\<close> the error code of a
  \<^verbatim>\<open>boost::system::system_error\<close>, where the code distinguishes only
  \<^verbatim>\<open>operation_aborted\<close> from every other code; the others are the exceptions of the
  standard and JSON functions the source calls. An operation whose C++ behaviour is
  undefined is no exception: it is the separate constructor \<^verbatim>\<open>UB\<close>, which no
  \<^verbatim>\<open>catch\<close> of the model handles.
\<close>

datatype error_code = Operation_Aborted | Eof | Other_Code string

datatype exn =
    Runtime_Error string
  | System_Error error_code
  | Invalid_Argument
  | Std_Out_Of_Range
  | Bad_Optional_Access
  | Json_Error
  | Regex_Error

datatype ub_kind = Out_Of_Bounds | Null_Deref | Signed_Overflow

datatype fault = Raised exn | UB ub_kind

type_synonym 'a result = "fault + 'a"

abbreviation throw_error :: "string \<Rightarrow> 'a result" where
  "throw_error msg \<equiv> Inl (Raised (Runtime_Error msg))"

abbreviation undefined_behaviour :: "ub_kind \<Rightarrow> 'a result" where
  "undefined_behaviour k \<equiv> Inl (UB k)"

text \<open>The collections the component theories extend and their proofs use.\<close>

named_theorems wire_simps "equations of the byte level readers and writers"
named_theorems res_elims "elimination of results that are known to be successful"

section \<open>Sequencing\<close>

definition bind_res :: "'a result \<Rightarrow> ('a \<Rightarrow> 'b result) \<Rightarrow> 'b result" where
  "bind_res m f = (case m of Inl e \<Rightarrow> Inl e | Inr x \<Rightarrow> f x)"

lemma bind_res_simps [simp]:
  "bind_res (Inl e) f = Inl e"
  "bind_res (Inr x) f = f x"
  by (simp_all add: bind_res_def)

lemma bind_res_cong [fundef_cong]:
  assumes "m = m'" and "\<And>x. m' = Inr x \<Longrightarrow> f x = g x"
  shows "bind_res m f = bind_res m' g"
  using assms by (cases m) auto

lemma bind_res_eq_Inr:
  "bind_res m f = Inr y \<longleftrightarrow> (\<exists>x. m = Inr x \<and> f x = Inr y)"
  by (cases m) auto

lemma bind_res_eq_Inl:
  "bind_res m f = Inl e \<longleftrightarrow> m = Inl e \<or> (\<exists>x. m = Inr x \<and> f x = Inl e)"
  by (cases m) auto

lemma bind_res_InrE [res_elims, elim!]:
  assumes "bind_res m f = Inr y"
  obtains x where "m = Inr x" and "f x = Inr y"
  using assms by (auto simp: bind_res_eq_Inr)

lemma bind_res_Inr_right [simp]: "bind_res m Inr = m"
  by (cases m) auto

lemma bind_res_assoc: "bind_res (bind_res m f) g = bind_res m (\<lambda>x. bind_res (f x) g)"
  by (cases m) auto

text \<open>
  \<^verbatim>\<open>map_res\<close> is a range-based \<^verbatim>\<open>for\<close> loop whose body appends one computed
  element to a vector: elements are processed left to right and the first exception
  leaves the loop.
\<close>

fun map_res :: "('a \<Rightarrow> 'b result) \<Rightarrow> 'a list \<Rightarrow> 'b list result" where
  "map_res f [] = Inr []"
| "map_res f (x # xs) = bind_res (f x) (\<lambda>y. bind_res (map_res f xs) (\<lambda>ys. Inr (y # ys)))"

lemma map_res_cong [fundef_cong]:
  assumes "xs = ys" and "\<And>x. x \<in> set ys \<Longrightarrow> f x = g x"
  shows "map_res f xs = map_res g ys"
  using assms(2) unfolding assms(1) by (induction ys) auto

lemma map_res_total: "(\<And>x. x \<in> set xs \<Longrightarrow> f x = Inr (g x)) \<Longrightarrow> map_res f xs = Inr (map g xs)"
  by (induction xs) auto

lemma map_res_Inr_iff:
  "map_res f xs = Inr ys \<longleftrightarrow> list_all2 (\<lambda>x y. f x = Inr y) xs ys"
proof (induction xs arbitrary: ys)
  case Nil
  then show ?case by auto
next
  case (Cons x xs)
  then show ?case by (auto simp: bind_res_eq_Inr list_all2_Cons1)
qed

lemma map_res_length: "map_res f xs = Inr ys \<Longrightarrow> length ys = length xs"
  by (simp add: map_res_Inr_iff list_all2_lengthD)

lemma map_res_append:
  "map_res f (xs @ ys) = bind_res (map_res f xs) (\<lambda>us. bind_res (map_res f ys) (\<lambda>vs. Inr (us @ vs)))"
  by (induction xs) (auto simp: bind_res_assoc)

lemma map_res_Inl_iff:
  "map_res f xs = Inl e \<longleftrightarrow>
     (\<exists>us x vs. xs = us @ x # vs \<and> f x = Inl e \<and> (\<forall>u \<in> set us. \<exists>y. f u = Inr y))"
proof (induction xs)
  case Nil
  then show ?case by simp
next
  case (Cons a xs)
  show ?case
  proof (cases "f a")
    case (Inl e')
    have "(\<exists>us x vs. a # xs = us @ x # vs \<and> f x = Inl e \<and> (\<forall>u \<in> set us. \<exists>y. f u = Inr y)) \<longleftrightarrow> e' = e"
      using Inl by (fastforce simp: Cons_eq_append_conv)
    with Inl show ?thesis by auto
  next
    case (Inr y)
    have "(\<exists>us x vs. a # xs = us @ x # vs \<and> f x = Inl e \<and> (\<forall>u \<in> set us. \<exists>y. f u = Inr y)) \<longleftrightarrow>
          (\<exists>us x vs. xs = us @ x # vs \<and> f x = Inl e \<and> (\<forall>u \<in> set us. \<exists>y. f u = Inr y))"
      (is "?L \<longleftrightarrow> ?R")
    proof
      assume ?L
      then obtain us x vs where *: "a # xs = us @ x # vs" "f x = Inl e" "\<forall>u \<in> set us. \<exists>y. f u = Inr y"
        by blast
      then show ?R using Inr by (cases us) auto
    next
      assume ?R
      then obtain us x vs where "xs = us @ x # vs" "f x = Inl e" "\<forall>u \<in> set us. \<exists>y. f u = Inr y"
        by blast
      with Inr have "a # xs = (a # us) @ x # vs \<and> f x = Inl e \<and> (\<forall>u \<in> set (a # us). \<exists>y. f u = Inr y)"
        by auto
      then show ?L by blast
    qed
    with Inr Cons show ?thesis by (auto simp: bind_res_eq_Inl)
  qed
qed

section \<open>Absence of undefined behaviour\<close>

fun no_ub :: "'a result \<Rightarrow> bool" where
  "no_ub (Inl (UB k)) = False"
| "no_ub (Inl (Raised e)) = True"
| "no_ub (Inr x) = True"

lemma no_ub_iff: "no_ub r \<longleftrightarrow> (\<forall>k. r \<noteq> Inl (UB k))"
  by (cases r rule: no_ub.cases) auto

lemma no_ub_bind:
  "no_ub m \<Longrightarrow> (\<And>x. m = Inr x \<Longrightarrow> no_ub (f x)) \<Longrightarrow> no_ub (bind_res m f)"
  by (cases m rule: no_ub.cases) auto

lemma no_ub_map_res: "(\<And>x. x \<in> set xs \<Longrightarrow> no_ub (f x)) \<Longrightarrow> no_ub (map_res f xs)"
  by (induction xs) (auto intro!: no_ub_bind)

section \<open>Vectors\<close>

text \<open>
  \<^verbatim>\<open>v[i]\<close> on a \<^verbatim>\<open>std::vector\<close> or \<^verbatim>\<open>std::array\<close>: an index past the end is
  undefined behaviour. Sizes and offsets (\<^verbatim>\<open>std::size_t\<close>) are natural numbers:
  every offset the code forms is at most a vector's size plus a 24-bit length, far from
  \<open>2 ^ 64\<close>.
\<close>

definition vec_at :: "'a list \<Rightarrow> nat \<Rightarrow> 'a result" where
  "vec_at v i = (if i < length v then Inr (v ! i) else undefined_behaviour Out_Of_Bounds)"

lemma vec_at_in [simp]: "i < length v \<Longrightarrow> vec_at v i = Inr (v ! i)"
  by (simp add: vec_at_def)

lemma vec_at_out [simp]: "length v \<le> i \<Longrightarrow> vec_at v i = undefined_behaviour Out_Of_Bounds"
  by (simp add: vec_at_def)

lemma vec_at_0 [simp]: "v \<noteq> [] \<Longrightarrow> vec_at v 0 = Inr (v ! 0)"
  by (simp add: vec_at_def)

lemma vec_at_Inr_iff: "vec_at v i = Inr x \<longleftrightarrow> i < length v \<and> v ! i = x"
  by (auto simp: vec_at_def)

lemma vec_at_append [simp]: "vec_at (xs @ ys) (length xs + i) = vec_at ys i"
  by (simp add: vec_at_def nth_append)

lemma vec_at_append0 [simp]: "vec_at (xs @ ys) (length xs) = vec_at ys 0"
  by (simp add: vec_at_def nth_append)

text \<open>The part of a vector from \<open>i\<close> on of length \<open>n\<close>: an iterator range.\<close>

definition slice :: "nat \<Rightarrow> nat \<Rightarrow> 'a list \<Rightarrow> 'a list" where
  "slice i n xs = take n (drop i xs)"

lemma length_slice [simp]: "i + n \<le> length xs \<Longrightarrow> length (slice i n xs) = n"
  by (simp add: slice_def)

lemma slice_0 [simp]: "slice i 0 xs = []"
  by (simp add: slice_def)

lemma slice_append [simp]: "slice (length xs + i) n (xs @ ys) = slice i n ys"
  by (simp add: slice_def)

lemma slice_append0 [simp]: "slice (length xs) n (xs @ ys) = take n ys"
  by (simp add: slice_def)

lemma slice_Suc: "i < length xs \<Longrightarrow> slice i (Suc n) xs = xs ! i # slice (Suc i) n xs"
  by (simp add: slice_def Cons_nth_drop_Suc [symmetric])

lemma slice_two: "i + 2 \<le> length xs \<Longrightarrow> slice i 2 xs = [xs ! i, xs ! (i + 1)]"
  by (simp add: slice_Suc numeral_2_eq_2)

lemma slice_add: "slice i (m + n) xs = slice i m xs @ slice (i + m) n xs"
  by (simp add: slice_def take_add add.commute)

lemma drop_eq_slice: "i + n \<le> length xs \<Longrightarrow> drop i xs = slice i n xs @ drop (i + n) xs"
  by (metis add.commute append_take_drop_id drop_drop slice_def)

section \<open>Bytes, words and characters\<close>

lemma u8_less [simp]: "unat (w :: u8) < 256"
  using unsigned_less [of w] by simp

lemma u16_less [simp]: "unat (w :: u16) < 65536"
  using unsigned_less [of w] by simp

lemma unat_of_nat_u8: "n < 256 \<Longrightarrow> unat (of_nat n :: u8) = n"
  by (simp add: unsigned_of_nat take_bit_nat_eq_self)

lemma unat_of_nat_u16: "n < 65536 \<Longrightarrow> unat (of_nat n :: u16) = n"
  by (simp add: unsigned_of_nat take_bit_nat_eq_self)

lemma nat_push_or: "(b :: nat) < 2 ^ n \<Longrightarrow> push_bit n a OR b = 2 ^ n * a + b"
proof -
  assume b: "b < 2 ^ n"
  have "push_bit n a OR b = push_bit n a + b"
    by (rule disjunctive_add [symmetric])
      (metis b bit_push_bit_iff bit_take_bit_iff linorder_not_le take_bit_nat_eq_self)
  then show ?thesis by (simp add: push_bit_eq_mult)
qed

lemmas nat_push_or8 = nat_push_or [of _ 8, simplified]

text \<open>
  \<^verbatim>\<open>(static_cast<u16>(a) << 8) | b\<close>, and the same expression computed in
  \<^verbatim>\<open>std::size_t\<close>; \<^verbatim>\<open>hi8\<close> and \<^verbatim>\<open>lo8\<close> take a 16-bit value apart again.
\<close>

definition join_u16 :: "u8 \<Rightarrow> u8 \<Rightarrow> u16" where
  "join_u16 a b = push_bit 8 (ucast a) OR ucast b"

definition join_size :: "u8 \<Rightarrow> u8 \<Rightarrow> nat" where
  "join_size a b = unat ((push_bit 8 (ucast a) OR ucast b) :: u64)"

definition hi8 :: "u16 \<Rightarrow> u8" where
  "hi8 w = ucast (drop_bit 8 w AND 0xff)"

definition lo8 :: "u16 \<Rightarrow> u8" where
  "lo8 w = ucast (w AND 0xff)"

lemma take_bit_unat_u8: "8 \<le> n \<Longrightarrow> take_bit n (unat (b :: u8)) = unat b"
proof -
  assume "8 \<le> n"
  then have "(2 :: nat) ^ 8 \<le> 2 ^ n" by (rule power_increasing) simp
  then have "256 \<le> (2 :: nat) ^ n" by simp
  then have "unat b < 2 ^ n" by (rule order_less_le_trans [OF u8_less])
  then show ?thesis by (rule take_bit_nat_eq_self)
qed

lemma unat_join_u16: "unat (join_u16 a b) = 256 * unat a + unat b"
  using u8_less [of a] u8_less [of b]
  by (simp add: join_u16_def unsigned_or_eq unsigned_push_bit_eq unsigned_ucast_eq
      take_bit_unat_u8 nat_push_or8 take_bit_push_bit del: push_bit_numeral)

lemma join_size_eq: "join_size a b = 256 * unat a + unat b"
  using u8_less [of a] u8_less [of b]
  by (simp add: join_size_def unsigned_or_eq unsigned_push_bit_eq unsigned_ucast_eq
      take_bit_unat_u8 nat_push_or8 take_bit_push_bit del: push_bit_numeral)

lemma mask8_u16: "(0xff :: u16) = mask 8"
  by (simp add: mask_eq_exp_minus_1)

lemma hi8_join [simp]: "hi8 (join_u16 a b) = a"
  unfolding hi8_def join_u16_def mask8_u16
  by (rule bit_word_eqI) (auto simp: bit_simps dest: bit_imp_le_length)

lemma lo8_join [simp]: "lo8 (join_u16 a b) = b"
  unfolding lo8_def join_u16_def mask8_u16
  by (rule bit_word_eqI) (auto simp: bit_simps dest: bit_imp_le_length)

lemma join_hi8_lo8 [simp]: "join_u16 (hi8 w) (lo8 w) = w"
  unfolding hi8_def lo8_def join_u16_def mask8_u16
  by (rule bit_word_eqI) (auto simp: bit_simps not_less dest: bit_imp_le_length)

lemma join_size_hi8_lo8 [simp]: "join_size (hi8 w) (lo8 w) = unat w"
  using unat_join_u16 [of "hi8 w" "lo8 w"] by (simp add: join_size_eq)

text \<open>
  \<^verbatim>\<open>static_cast<u8>(c)\<close> of a character, and the character a byte is when a byte
  range is read through \<^verbatim>\<open>const char *\<close>: a bijection.
\<close>

definition byte_of_char :: "char \<Rightarrow> u8" where
  "byte_of_char c = word_of_nat (of_char c)"

definition char_of_byte :: "u8 \<Rightarrow> char" where
  "char_of_byte b = char_of (unat b)"

abbreviation bytes_of_string :: "string \<Rightarrow> bytes" where
  "bytes_of_string s \<equiv> map byte_of_char s"

abbreviation string_of_bytes :: "bytes \<Rightarrow> string" where
  "string_of_bytes b \<equiv> map char_of_byte b"

lemma char_of_byte_of_char [simp]: "char_of_byte (byte_of_char c) = c"
proof -
  have "(of_char c :: nat) mod 256 = of_char c" by simp
  then show ?thesis
    by (simp add: char_of_byte_def byte_of_char_def unsigned_of_nat take_bit_eq_mod)
qed

lemma byte_of_char_of_byte [simp]: "byte_of_char (char_of_byte b) = b"
  by (simp add: char_of_byte_def byte_of_char_def)

lemma char_of_byte_comp [simp]: "char_of_byte \<circ> byte_of_char = id"
  by (simp add: fun_eq_iff)

lemma byte_of_char_comp [simp]: "byte_of_char \<circ> char_of_byte = id"
  by (simp add: fun_eq_iff)

lemma string_of_bytes_of_string [simp]: "string_of_bytes (bytes_of_string s) = s"
  by simp

lemma bytes_of_string_of_bytes [simp]: "bytes_of_string (string_of_bytes b) = b"
  by simp

end
