(* ===== verification/Json.thy ===== *)
theory Json
  imports Prelude
begin

text \<open>
  \<^verbatim>\<open>utils/json.*\<close>: typed access to the members of a JSON object with defaults. The
  JSON library is a parameter: the type \<open>'o\<close> of its objects, \<open>'v\<close> of its values, and
  its lookups and conversions (\<open>json_lib\<close>); a conversion of a value of another kind
  throws. \<open>json_values\<close> states what the library documents about values built from their
  parts, and is interpreted on the plain datatype of JSON values.
\<close>

record ('o, 'v) json_lib =
  json_find :: "'o \<Rightarrow> string \<Rightarrow> 'v option"
  json_empty :: 'o
  as_bool :: "'v \<Rightarrow> bool result"
  as_string :: "'v \<Rightarrow> string result"
  as_int64 :: "'v \<Rightarrow> u64 result"
  as_array :: "'v \<Rightarrow> 'v list result"
  as_object :: "'v \<Rightarrow> 'o result"
  is_string :: "'v \<Rightarrow> bool"
  is_array :: "'v \<Rightarrow> bool"

section \<open>The accessors\<close>

definition getBool :: "('o, 'v) json_lib \<Rightarrow> 'o \<Rightarrow> string \<Rightarrow> bool \<Rightarrow> bool result" where
  "getBool j obj key def = (case json_find j obj key of None \<Rightarrow> Inr def | Some v \<Rightarrow> as_bool j v)"

definition getString :: "('o, 'v) json_lib \<Rightarrow> 'o \<Rightarrow> string \<Rightarrow> string \<Rightarrow> string result" where
  "getString j obj key def = (case json_find j obj key of None \<Rightarrow> Inr def | Some v \<Rightarrow> as_string j v)"

text \<open>The comparison is one of signed 64-bit integers; the cast keeps the low 16 bits.\<close>

definition getu16 :: "('o, 'v) json_lib \<Rightarrow> 'o \<Rightarrow> string \<Rightarrow> u16 \<Rightarrow> u16 result" where
  "getu16 j obj key def =
     (case json_find j obj key of
        None \<Rightarrow> Inr def
      | Some v \<Rightarrow>
          bind_res (as_int64 j v) (\<lambda>n.
            if sint n > 0xffff then throw_error ''parse json u16 fail'' else Inr (ucast n)))"

definition getStringList :: "('o, 'v) json_lib \<Rightarrow> 'o \<Rightarrow> string \<Rightarrow> string list result" where
  "getStringList j obj key =
     (case json_find j obj key of
        None \<Rightarrow> Inr []
      | Some v \<Rightarrow>
          if is_string j v then bind_res (as_string j v) (\<lambda>s. Inr [s])
          else if is_array j v then bind_res (as_array j v) (\<lambda>vs. map_res (as_string j) vs)
          else Inr [])"

definition getObj :: "('o, 'v) json_lib \<Rightarrow> 'o \<Rightarrow> string \<Rightarrow> 'o result" where
  "getObj j obj key = (case json_find j obj key of None \<Rightarrow> Inr (json_empty j) | Some v \<Rightarrow> as_object j v)"

definition getArray :: "('o, 'v) json_lib \<Rightarrow> 'o \<Rightarrow> string \<Rightarrow> 'v list result" where
  "getArray j obj key = (case json_find j obj key of None \<Rightarrow> Inr [] | Some v \<Rightarrow> as_array j v)"

text \<open>The loop over an array of objects that many parsers share.\<close>

definition parse_objects :: "('o, 'v) json_lib \<Rightarrow> ('o \<Rightarrow> 'a result) \<Rightarrow> 'v list \<Rightarrow> 'a list result" where
  "parse_objects j parse items = map_res (\<lambda>item. bind_res (as_object j item) parse) items"

section \<open>Ports in 64-bit integers\<close>

lemma u16_back: "ucast (ucast (p :: u16) :: u64) = p"
  by (rule bit_word_eqI) (simp add: bit_simps)

lemma u16_bounds: "0 \<le> uint (p :: u16)" "uint p < 65536"
  using unsigned_less [of p] by simp_all

lemma small_signed: "0 \<le> i \<Longrightarrow> i < 65536 \<Longrightarrow> signed_take_bit 63 i = (i :: int)"
  by (intro signed_take_bit_int_eq_self) simp_all

lemma u16_sint: "sint (ucast (p :: u16) :: u64) = uint p"
  using u16_bounds [of p] by (simp add: signed_ucast_eq small_signed del: unsigned_less)

lemma u16_fits: "\<not> sint (ucast (p :: u16) :: u64) > 65535"
  using u16_bounds(2) [of p] by (simp only: u16_sint)

section \<open>Values built from their parts\<close>

record ('o, 'v) json_make =
  mk_members :: "(string \<times> 'v) list \<Rightarrow> 'o"
  mk_bool :: "bool \<Rightarrow> 'v"
  mk_string :: "string \<Rightarrow> 'v"
  mk_int :: "u64 \<Rightarrow> 'v"
  mk_array :: "'v list \<Rightarrow> 'v"
  mk_object :: "'o \<Rightarrow> 'v"

locale json_values =
  fixes j :: "('o, 'v) json_lib" and mk :: "('o, 'v) json_make"
  assumes find_members: "distinct (map fst kvs) \<Longrightarrow> json_find j (mk_members mk kvs) k = map_of kvs k"
    and bool_value: "as_bool j (mk_bool mk b) = Inr b"
    and string_value: "as_string j (mk_string mk s) = Inr s" "is_string j (mk_string mk s)"
    and int_value: "as_int64 j (mk_int mk n) = Inr n"
    and array_value: "as_array j (mk_array mk vs) = Inr vs" "is_array j (mk_array mk vs)"
      "\<not> is_string j (mk_array mk vs)"
    and object_value: "as_object j (mk_object mk ob) = Inr ob"
begin

lemma parse_objects_made:
  "(\<And>x. x \<in> set xs \<Longrightarrow> parse (f x) = Inr x) \<Longrightarrow> parse_objects j parse (map (\<lambda>x. mk_object mk (f x)) xs) = Inr xs"
  by (induction xs) (simp_all add: parse_objects_def object_value)

lemma strings_made: "map_res (as_string j) (map (mk_string mk) ss) = Inr ss"
  by (induction ss) (simp_all add: string_value)

lemma strings_list_made: "json_find j ob key = Some (mk_array mk (map (mk_string mk) ss)) \<Longrightarrow> getStringList j ob key = Inr ss"
  by (simp add: getStringList_def array_value strings_made)

lemma port_made: "json_find j ob key = Some (mk_int mk (ucast (p :: u16))) \<Longrightarrow> getu16 j ob key d = Inr p"
  using u16_fits [of p] by (simp add: getu16_def int_value u16_back)

lemma string_made: "json_find j ob key = Some (mk_string mk s) \<Longrightarrow> getString j ob key d = Inr s"
  by (simp add: getString_def string_value)

lemma bool_made: "json_find j ob key = Some (mk_bool mk b) \<Longrightarrow> getBool j ob key d = Inr b"
  by (simp add: getBool_def bool_value)

lemma array_made: "json_find j ob key = Some (mk_array mk vs) \<Longrightarrow> getArray j ob key = Inr vs"
  by (simp add: getArray_def array_value)

lemma obj_made: "json_find j ob key = Some (mk_object mk ob') \<Longrightarrow> getObj j ob key = Inr ob'"
  by (simp add: getObj_def object_value)

lemmas made = find_members strings_list_made port_made string_made bool_made array_made obj_made

end

section \<open>The JSON values as a datatype\<close>

datatype json_value =
    JNull
  | JBool bool
  | JInt u64
  | JString string
  | JArray "json_value list"
  | JObject "(string \<times> json_value) list"

text \<open>An access to a value of another kind throws, with the library's own text.\<close>

definition json_plain :: "((string \<times> json_value) list, json_value) json_lib" where
  "json_plain =
     \<lparr>json_find = map_of,
      json_empty = [],
      as_bool = (\<lambda>v. case v of JBool b \<Rightarrow> Inr b | _ \<Rightarrow> throw_error ''not a bool''),
      as_string = (\<lambda>v. case v of JString s \<Rightarrow> Inr s | _ \<Rightarrow> throw_error ''not a string''),
      as_int64 = (\<lambda>v. case v of JInt n \<Rightarrow> Inr n | _ \<Rightarrow> throw_error ''not an int64''),
      as_array = (\<lambda>v. case v of JArray vs \<Rightarrow> Inr vs | _ \<Rightarrow> throw_error ''not an array''),
      as_object = (\<lambda>v. case v of JObject kvs \<Rightarrow> Inr kvs | _ \<Rightarrow> throw_error ''not an object''),
      is_string = (\<lambda>v. case v of JString s \<Rightarrow> True | _ \<Rightarrow> False),
      is_array = (\<lambda>v. case v of JArray vs \<Rightarrow> True | _ \<Rightarrow> False)\<rparr>"

definition json_plain_make :: "((string \<times> json_value) list, json_value) json_make" where
  "json_plain_make =
     \<lparr>mk_members = id, mk_bool = JBool, mk_string = JString, mk_int = JInt, mk_array = JArray, mk_object = JObject\<rparr>"

interpretation plain: json_values json_plain json_plain_make
  by unfold_locales (simp_all add: json_plain_def json_plain_make_def)

section \<open>Which integers are taken as ports\<close>

lemma u16_of_int: "0 \<le> i \<Longrightarrow> i \<le> 65535 \<Longrightarrow> uint (word_of_int i :: u16) = i"
  by (simp add: unsigned_of_int take_bit_int_eq_self)

lemma getu16_value:
  assumes "json_find j ob key = Some v" and "as_int64 j v = Inr n"
  shows "getu16 j ob key def =
    (if sint n > 65535 then throw_error ''parse json u16 fail'' else Inr (word_of_int (sint n)))"
proof -
  have "ucast n = (word_of_int (sint n) :: u16)"
    by (rule bit_word_eqI) (simp add: bit_simps)
  then show ?thesis using assms by (simp add: getu16_def)
qed

text \<open>A port member is refused only when it is above 65535: every other signed 64-bit
  value passes, a negative one as well, and what is kept is its low 16 bits. So -1 is read as
  the port 65535; the numbers 0 to 65535 are read as themselves.\<close>

theorem getu16_exact:
  assumes "json_find j ob key = Some v" and "as_int64 j v = Inr n"
  shows "getu16 j ob key def =
           (if sint n > 65535 then throw_error ''parse json u16 fail'' else Inr (word_of_int (sint n))) \<and>
     (0 \<le> sint n \<and> sint n \<le> 65535 \<longrightarrow> (\<exists>p. getu16 j ob key def = Inr p \<and> uint p = sint n)) \<and>
     (sint n = - 1 \<longrightarrow> getu16 j ob key def = Inr 65535)"
  using getu16_value [OF assms] u16_of_int [of "sint n"] by auto

lemma getu16_exact_witness: "getu16 json_plain [(''p'', JInt (- 1))] ''p'' 0 = Inr 65535"
  using getu16_exact [of json_plain "[(''p'', JInt (- 1))]" "''p''" "JInt (- 1)" "- 1"] by (simp add: json_plain_def)

end
