(* ===== verification/Config.thy ===== *)
theory Config
  imports Json
begin

text \<open>
  \<^verbatim>\<open>config/config.*\<close>: the configuration as the program keeps it, one record per struct with
  the fields prefixed by the struct's short name, and one parser per struct over the accessors
  of \<^verbatim>\<open>Json\<close>, its members read in the order of the code (which decides the error reported).
  The \<open>print_\<close> functions build the object a configuration is written as; the lemmas show
  that each parser inverts them.
\<close>

section \<open>The structs\<close>

record tls_client_config =
  tc_enabled :: bool
  tc_insecure :: bool
  tc_serverName :: string

record tls_server_config =
  ts_enabled :: bool
  ts_certificatePath :: string
  ts_keyPath :: string

record domain_rule_config =
  dc_domain :: "string list"
  dc_domainSuffix :: "string list"
  dc_domainKeyword :: "string list"
  dc_domainRegex :: "string list"

record rule_config =
  ru_domainRule :: domain_rule_config
  ru_cidr :: "string list"

record dns_server_config =
  ds_tag :: string
  ds_type :: string
  ds_server :: string
  ds_server_port :: u16
  ds_host :: string
  ds_path :: string
  ds_tls :: tls_client_config

record dns_rule_config =
  du_rule :: domain_rule_config
  du_rule_set :: "string list"
  du_server :: string

record dns_config =
  dn_listen :: string
  dn_listen_port :: u16
  dn_servers :: "dns_server_config list"
  dn_rules :: "dns_rule_config list"
  dn_final :: string

record transport_config =
  tr_type :: string
  tr_path :: string
  tr_host :: string

record user_pass_config =
  up_username :: string
  up_password :: string

text \<open>The TLS part of an inbound is never read from the file: its \<^verbatim>\<open>bool\<close> stays
  indeterminate, which is the value \<^verbatim>\<open>None\<close>.\<close>

record inbound_config =
  in_tag :: string
  in_type :: string
  in_listen :: string
  in_listen_port :: u16
  in_users :: "user_pass_config list"
  in_uuids :: "string list"
  in_tls :: "tls_server_config option"
  in_tunIpv4 :: string
  in_tunIpv6 :: string
  in_tunNextIpv4 :: string
  in_tunNextIpv6 :: string

record outbound_config =
  ob_tag :: string
  ob_type :: string
  ob_server :: string
  ob_server_port :: u16
  ob_user :: user_pass_config
  ob_uuid :: string
  ob_tls :: tls_client_config
  ob_transport :: transport_config

record route_rule_config =
  rr_rule :: rule_config
  rr_rule_set :: "string list"
  rr_outbound :: string

record rule_set_config =
  rs_tag :: string
  rs_type :: string
  rs_path :: string
  rs_format :: string

record router_config =
  rc_rules :: "route_rule_config list"
  rc_ruleSets :: "rule_set_config list"
  rc_final :: string

record app_config =
  ap_inbounds :: "inbound_config list"
  ap_outbounds :: "outbound_config list"
  ap_router :: router_config
  ap_dns :: dns_config

section \<open>The parsers\<close>

definition parseTlsClientConfig :: "('o, 'v) json_lib \<Rightarrow> 'o \<Rightarrow> tls_client_config result" where
  "parseTlsClientConfig j obj =
     bind_res (getBool j obj ''enabled'' False) (\<lambda>enabled'.
     bind_res (getBool j obj ''insecure'' False) (\<lambda>insecure'.
     bind_res (getString j obj ''server_name'' '''') (\<lambda>serverName'.
     Inr \<lparr>tc_enabled = enabled', tc_insecure = insecure', tc_serverName = serverName'\<rparr>)))"

text \<open>\<^verbatim>\<open>keyPath\<close> is assigned from \<^verbatim>\<open>getBool\<close>: a \<^verbatim>\<open>bool\<close> converts to a \<^verbatim>\<open>char\<close>, so the string is
  the one character 0 or 1. No other function calls this parser.\<close>

definition parseTlsServerConfig :: "('o, 'v) json_lib \<Rightarrow> 'o \<Rightarrow> tls_server_config result" where
  "parseTlsServerConfig j obj =
     bind_res (getBool j obj ''enabled'' False) (\<lambda>enabled'.
     bind_res (getBool j obj ''key_path'' False) (\<lambda>keyPath'.
     bind_res (getString j obj ''certificate_path'' '''') (\<lambda>certificatePath'.
     Inr \<lparr>ts_enabled = enabled', ts_certificatePath = certificatePath', ts_keyPath = [if keyPath' then CHR 0x01 else CHR 0x00]\<rparr>)))"

definition parseTransportConfig :: "('o, 'v) json_lib \<Rightarrow> 'o \<Rightarrow> transport_config result" where
  "parseTransportConfig j obj =
     bind_res (getString j obj ''type'' '''') (\<lambda>type'.
     bind_res (getString j obj ''path'' '''') (\<lambda>path'.
     bind_res (getString j obj ''host'' '''') (\<lambda>host'.
     Inr \<lparr>tr_type = type', tr_path = path', tr_host = host'\<rparr>)))"

definition parseUserPassConfig :: "('o, 'v) json_lib \<Rightarrow> 'o \<Rightarrow> user_pass_config result" where
  "parseUserPassConfig j obj =
     bind_res (getString j obj ''username'' '''') (\<lambda>username'.
     bind_res (getString j obj ''password'' '''') (\<lambda>password'.
     Inr \<lparr>up_username = username', up_password = password'\<rparr>))"

definition parseInboundConfig :: "('o, 'v) json_lib \<Rightarrow> 'o \<Rightarrow> inbound_config result" where
  "parseInboundConfig j obj =
     bind_res (getString j obj ''tag'' '''') (\<lambda>tag'.
     bind_res (getString j obj ''type'' '''') (\<lambda>type'.
     bind_res (getString j obj ''listen'' '''') (\<lambda>listen'.
     bind_res (getu16 j obj ''listen_port'' 0) (\<lambda>listen_port'.
     bind_res (bind_res (getArray j obj ''users'') (parse_objects j (parseUserPassConfig j))) (\<lambda>users'.
     bind_res (getStringList j obj ''uuids'') (\<lambda>uuids'.
     bind_res (getString j obj ''tunIpv4'' '''') (\<lambda>tunIpv4'.
     bind_res (getString j obj ''tunIpv6'' '''') (\<lambda>tunIpv6'.
     bind_res (getString j obj ''tunNextIpv4'' '''') (\<lambda>tunNextIpv4'.
     bind_res (getString j obj ''tunNextIpv6'' '''') (\<lambda>tunNextIpv6'.
     Inr \<lparr>in_tag = tag', in_type = type', in_listen = listen', in_listen_port = listen_port',
       in_users = users', in_uuids = uuids', in_tls = None, in_tunIpv4 = tunIpv4',
       in_tunIpv6 = tunIpv6', in_tunNextIpv4 = tunNextIpv4', in_tunNextIpv6 = tunNextIpv6'\<rparr>))))))))))"

definition parseOutboundConfig :: "('o, 'v) json_lib \<Rightarrow> 'o \<Rightarrow> outbound_config result" where
  "parseOutboundConfig j obj =
     bind_res (getString j obj ''tag'' '''') (\<lambda>tag'.
     bind_res (getString j obj ''type'' '''') (\<lambda>type'.
     bind_res (getString j obj ''server'' '''') (\<lambda>server'.
     bind_res (getu16 j obj ''server_port'' 0) (\<lambda>server_port'.
     bind_res (bind_res (getObj j obj ''tls'') (parseTlsClientConfig j)) (\<lambda>tls'.
     bind_res (bind_res (getObj j obj ''user'') (parseUserPassConfig j)) (\<lambda>user'.
     bind_res (bind_res (getObj j obj ''transport'') (parseTransportConfig j)) (\<lambda>transport'.
     bind_res (getString j obj ''uuid'' '''') (\<lambda>uuid'.
     Inr \<lparr>ob_tag = tag', ob_type = type', ob_server = server', ob_server_port = server_port',
       ob_user = user', ob_uuid = uuid', ob_tls = tls', ob_transport = transport'\<rparr>))))))))"

definition parseRuleSetConfig :: "('o, 'v) json_lib \<Rightarrow> 'o \<Rightarrow> rule_set_config result" where
  "parseRuleSetConfig j obj =
     bind_res (getString j obj ''tag'' '''') (\<lambda>tag'.
     bind_res (getString j obj ''format'' '''') (\<lambda>format'.
     bind_res (getString j obj ''path'' '''') (\<lambda>path'.
     bind_res (getString j obj ''type'' '''') (\<lambda>type'.
     Inr \<lparr>rs_tag = tag', rs_type = type', rs_path = path', rs_format = format'\<rparr>))))"

definition parseDomainRuleConfig :: "('o, 'v) json_lib \<Rightarrow> 'o \<Rightarrow> domain_rule_config result" where
  "parseDomainRuleConfig j obj =
     bind_res (getStringList j obj ''domain'') (\<lambda>domain'.
     bind_res (getStringList j obj ''domain_suffix'') (\<lambda>domainSuffix'.
     bind_res (getStringList j obj ''domain_keyword'') (\<lambda>domainKeyword'.
     bind_res (getStringList j obj ''domain_regex'') (\<lambda>domainRegex'.
     Inr \<lparr>dc_domain = domain', dc_domainSuffix = domainSuffix', dc_domainKeyword = domainKeyword', dc_domainRegex = domainRegex'\<rparr>))))"

definition parseRuleConfig :: "('o, 'v) json_lib \<Rightarrow> 'o \<Rightarrow> rule_config result" where
  "parseRuleConfig j obj =
     bind_res (parseDomainRuleConfig j obj) (\<lambda>domainRule'.
     bind_res (getStringList j obj ''cidr'') (\<lambda>cidr'.
     Inr \<lparr>ru_domainRule = domainRule', ru_cidr = cidr'\<rparr>))"

definition parseRouteRuleConfig :: "('o, 'v) json_lib \<Rightarrow> 'o \<Rightarrow> route_rule_config result" where
  "parseRouteRuleConfig j obj =
     bind_res (parseRuleConfig j obj) (\<lambda>rule'.
     bind_res (getStringList j obj ''rule_set'') (\<lambda>rule_set'.
     bind_res (getString j obj ''outbound'' '''') (\<lambda>outbound'.
     Inr \<lparr>rr_rule = rule', rr_rule_set = rule_set', rr_outbound = outbound'\<rparr>)))"

definition parseRouterConfig :: "('o, 'v) json_lib \<Rightarrow> 'o \<Rightarrow> router_config result" where
  "parseRouterConfig j obj =
     bind_res (getString j obj ''final'' '''') (\<lambda>final'.
     bind_res (bind_res (getArray j obj ''rules'') (parse_objects j (parseRouteRuleConfig j))) (\<lambda>rules'.
     bind_res (bind_res (getArray j obj ''rule_set'') (parse_objects j (parseRuleSetConfig j))) (\<lambda>ruleSets'.
     Inr \<lparr>rc_rules = rules', rc_ruleSets = ruleSets', rc_final = final'\<rparr>)))"

definition parseDnsServerConfig :: "('o, 'v) json_lib \<Rightarrow> 'o \<Rightarrow> dns_server_config result" where
  "parseDnsServerConfig j obj =
     bind_res (getString j obj ''server'' '''') (\<lambda>server'.
     bind_res (getu16 j obj ''server_port'' 0) (\<lambda>server_port'.
     bind_res (getString j obj ''tag'' '''') (\<lambda>tag'.
     bind_res (getString j obj ''type'' '''') (\<lambda>type'.
     bind_res (getString j obj ''host'' '''') (\<lambda>host'.
     bind_res (bind_res (getObj j obj ''tls'') (parseTlsClientConfig j)) (\<lambda>tls'.
     bind_res (getString j obj ''path'' '''') (\<lambda>path'.
     Inr \<lparr>ds_tag = tag', ds_type = type', ds_server = server', ds_server_port = server_port',
       ds_host = host', ds_path = path', ds_tls = tls'\<rparr>)))))))"

definition parseDnsRuleConfig :: "('o, 'v) json_lib \<Rightarrow> 'o \<Rightarrow> dns_rule_config result" where
  "parseDnsRuleConfig j obj =
     bind_res (parseDomainRuleConfig j obj) (\<lambda>rule'.
     bind_res (getStringList j obj ''rule_set'') (\<lambda>rule_set'.
     bind_res (getString j obj ''server'' '''') (\<lambda>server'.
     Inr \<lparr>du_rule = rule', du_rule_set = rule_set', du_server = server'\<rparr>)))"

definition parseDnsConfig :: "('o, 'v) json_lib \<Rightarrow> 'o \<Rightarrow> dns_config result" where
  "parseDnsConfig j obj =
     bind_res (bind_res (getArray j obj ''servers'') (parse_objects j (parseDnsServerConfig j))) (\<lambda>servers'.
     bind_res (bind_res (getArray j obj ''rules'') (parse_objects j (parseDnsRuleConfig j))) (\<lambda>rules'.
     bind_res (getString j obj ''listen'' '''') (\<lambda>listen'.
     bind_res (getu16 j obj ''listen_port'' 0) (\<lambda>listen_port'.
     bind_res (getString j obj ''final'' '''') (\<lambda>final'.
     Inr \<lparr>dn_listen = listen', dn_listen_port = listen_port', dn_servers = servers', dn_rules = rules',
       dn_final = final'\<rparr>)))))"

definition paresAppConfig :: "('o, 'v) json_lib \<Rightarrow> 'o \<Rightarrow> app_config result" where
  "paresAppConfig j obj =
     bind_res (bind_res (getArray j obj ''inbounds'') (parse_objects j (parseInboundConfig j))) (\<lambda>inbounds'.
     bind_res (bind_res (getArray j obj ''outbounds'') (parse_objects j (parseOutboundConfig j))) (\<lambda>outbounds'.
     bind_res (bind_res (getObj j obj ''router'') (parseRouterConfig j)) (\<lambda>router'.
     bind_res (bind_res (getObj j obj ''dns'') (parseDnsConfig j)) (\<lambda>dns'.
     Inr \<lparr>ap_inbounds = inbounds', ap_outbounds = outbounds', ap_router = router', ap_dns = dns'\<rparr>))))"

section \<open>Writing a configuration\<close>

definition print_tls_client :: "('o, 'v) json_make \<Rightarrow> tls_client_config \<Rightarrow> 'o" where
  "print_tls_client mk c = mk_members mk
     ([(''enabled'', mk_bool mk (tc_enabled c)),
      (''insecure'', mk_bool mk (tc_insecure c)),
      (''server_name'', mk_string mk (tc_serverName c))])"

definition print_transport :: "('o, 'v) json_make \<Rightarrow> transport_config \<Rightarrow> 'o" where
  "print_transport mk c = mk_members mk
     ([(''type'', mk_string mk (tr_type c)),
      (''path'', mk_string mk (tr_path c)),
      (''host'', mk_string mk (tr_host c))])"

definition print_user_pass :: "('o, 'v) json_make \<Rightarrow> user_pass_config \<Rightarrow> 'o" where
  "print_user_pass mk c = mk_members mk
     ([(''username'', mk_string mk (up_username c)),
      (''password'', mk_string mk (up_password c))])"

definition print_inbound :: "('o, 'v) json_make \<Rightarrow> inbound_config \<Rightarrow> 'o" where
  "print_inbound mk c = mk_members mk
     ([(''tag'', mk_string mk (in_tag c)),
      (''type'', mk_string mk (in_type c)),
      (''listen'', mk_string mk (in_listen c)),
      (''listen_port'', mk_int mk (ucast (in_listen_port c))),
      (''users'', mk_array mk (map (\<lambda>x. mk_object mk (print_user_pass mk x)) (in_users c))),
      (''uuids'', mk_array mk (map (mk_string mk) (in_uuids c))),
      (''tunIpv4'', mk_string mk (in_tunIpv4 c)),
      (''tunIpv6'', mk_string mk (in_tunIpv6 c)),
      (''tunNextIpv4'', mk_string mk (in_tunNextIpv4 c)),
      (''tunNextIpv6'', mk_string mk (in_tunNextIpv6 c))])"

definition print_outbound :: "('o, 'v) json_make \<Rightarrow> outbound_config \<Rightarrow> 'o" where
  "print_outbound mk c = mk_members mk
     ([(''tag'', mk_string mk (ob_tag c)),
      (''type'', mk_string mk (ob_type c)),
      (''server'', mk_string mk (ob_server c)),
      (''server_port'', mk_int mk (ucast (ob_server_port c))),
      (''tls'', mk_object mk (print_tls_client mk (ob_tls c))),
      (''user'', mk_object mk (print_user_pass mk (ob_user c))),
      (''transport'', mk_object mk (print_transport mk (ob_transport c))),
      (''uuid'', mk_string mk (ob_uuid c))])"

definition print_rule_set :: "('o, 'v) json_make \<Rightarrow> rule_set_config \<Rightarrow> 'o" where
  "print_rule_set mk c = mk_members mk
     ([(''tag'', mk_string mk (rs_tag c)),
      (''format'', mk_string mk (rs_format c)),
      (''path'', mk_string mk (rs_path c)),
      (''type'', mk_string mk (rs_type c))])"

definition domain_rule_members :: "('o, 'v) json_make \<Rightarrow> domain_rule_config \<Rightarrow> (string \<times> 'v) list" where
  "domain_rule_members mk c =
     [(''domain'', mk_array mk (map (mk_string mk) (dc_domain c))),
      (''domain_suffix'', mk_array mk (map (mk_string mk) (dc_domainSuffix c))),
      (''domain_keyword'', mk_array mk (map (mk_string mk) (dc_domainKeyword c))),
      (''domain_regex'', mk_array mk (map (mk_string mk) (dc_domainRegex c)))]"

definition rule_members :: "('o, 'v) json_make \<Rightarrow> rule_config \<Rightarrow> (string \<times> 'v) list" where
  "rule_members mk c =
     domain_rule_members mk (ru_domainRule c) @ [(''cidr'', mk_array mk (map (mk_string mk) (ru_cidr c)))]"

definition print_route_rule :: "('o, 'v) json_make \<Rightarrow> route_rule_config \<Rightarrow> 'o" where
  "print_route_rule mk c = mk_members mk
     (rule_members mk (rr_rule c) @ [(''rule_set'', mk_array mk (map (mk_string mk) (rr_rule_set c))),
      (''outbound'', mk_string mk (rr_outbound c))])"

definition print_router :: "('o, 'v) json_make \<Rightarrow> router_config \<Rightarrow> 'o" where
  "print_router mk c = mk_members mk
     ([(''final'', mk_string mk (rc_final c)),
      (''rules'', mk_array mk (map (\<lambda>x. mk_object mk (print_route_rule mk x)) (rc_rules c))),
      (''rule_set'', mk_array mk (map (\<lambda>x. mk_object mk (print_rule_set mk x)) (rc_ruleSets c)))])"

definition print_dns_server :: "('o, 'v) json_make \<Rightarrow> dns_server_config \<Rightarrow> 'o" where
  "print_dns_server mk c = mk_members mk
     ([(''server'', mk_string mk (ds_server c)),
      (''server_port'', mk_int mk (ucast (ds_server_port c))),
      (''tag'', mk_string mk (ds_tag c)),
      (''type'', mk_string mk (ds_type c)),
      (''host'', mk_string mk (ds_host c)),
      (''tls'', mk_object mk (print_tls_client mk (ds_tls c))),
      (''path'', mk_string mk (ds_path c))])"

definition print_dns_rule :: "('o, 'v) json_make \<Rightarrow> dns_rule_config \<Rightarrow> 'o" where
  "print_dns_rule mk c = mk_members mk
     (domain_rule_members mk (du_rule c) @ [(''rule_set'', mk_array mk (map (mk_string mk) (du_rule_set c))),
      (''server'', mk_string mk (du_server c))])"

definition print_dns :: "('o, 'v) json_make \<Rightarrow> dns_config \<Rightarrow> 'o" where
  "print_dns mk c = mk_members mk
     ([(''servers'', mk_array mk (map (\<lambda>x. mk_object mk (print_dns_server mk x)) (dn_servers c))),
      (''rules'', mk_array mk (map (\<lambda>x. mk_object mk (print_dns_rule mk x)) (dn_rules c))),
      (''listen'', mk_string mk (dn_listen c)),
      (''listen_port'', mk_int mk (ucast (dn_listen_port c))),
      (''final'', mk_string mk (dn_final c))])"

definition print_app :: "('o, 'v) json_make \<Rightarrow> app_config \<Rightarrow> 'o" where
  "print_app mk c = mk_members mk
     ([(''inbounds'', mk_array mk (map (\<lambda>x. mk_object mk (print_inbound mk x)) (ap_inbounds c))),
      (''outbounds'', mk_array mk (map (\<lambda>x. mk_object mk (print_outbound mk x)) (ap_outbounds c))),
      (''router'', mk_object mk (print_router mk (ap_router c))),
      (''dns'', mk_object mk (print_dns mk (ap_dns c)))])"

section \<open>Every parser inverts its printer\<close>

context json_values
begin

lemma print_tls_client_back: "parseTlsClientConfig j (print_tls_client mk c) = Inr c"
  by (cases c) (simp add: parseTlsClientConfig_def print_tls_client_def made parse_objects_made)

lemma print_transport_back: "parseTransportConfig j (print_transport mk c) = Inr c"
  by (cases c) (simp add: parseTransportConfig_def print_transport_def made parse_objects_made)

lemma print_user_pass_back: "parseUserPassConfig j (print_user_pass mk c) = Inr c"
  by (cases c) (simp add: parseUserPassConfig_def print_user_pass_def made parse_objects_made)

lemma print_inbound_back: "in_tls c = None \<Longrightarrow> parseInboundConfig j (print_inbound mk c) = Inr c"
  by (cases c) (simp add: parseInboundConfig_def print_inbound_def made parse_objects_made print_user_pass_back)

lemma print_outbound_back: "parseOutboundConfig j (print_outbound mk c) = Inr c"
  by (cases c) (simp add: parseOutboundConfig_def print_outbound_def made parse_objects_made print_tls_client_back print_user_pass_back print_transport_back)

lemma print_rule_set_back: "parseRuleSetConfig j (print_rule_set mk c) = Inr c"
  by (cases c) (simp add: parseRuleSetConfig_def print_rule_set_def made parse_objects_made)

lemma print_route_rule_back: "parseRouteRuleConfig j (print_route_rule mk c) = Inr c"
  by (cases c) (simp add: parseRouteRuleConfig_def print_route_rule_def parseDomainRuleConfig_def domain_rule_members_def parseRuleConfig_def rule_members_def made parse_objects_made)

lemma print_router_back: "parseRouterConfig j (print_router mk c) = Inr c"
  by (cases c) (simp add: parseRouterConfig_def print_router_def made parse_objects_made print_route_rule_back print_rule_set_back)

lemma print_dns_server_back: "parseDnsServerConfig j (print_dns_server mk c) = Inr c"
  by (cases c) (simp add: parseDnsServerConfig_def print_dns_server_def made parse_objects_made print_tls_client_back)

lemma print_dns_rule_back: "parseDnsRuleConfig j (print_dns_rule mk c) = Inr c"
  by (cases c) (simp add: parseDnsRuleConfig_def print_dns_rule_def parseDomainRuleConfig_def domain_rule_members_def parseRuleConfig_def rule_members_def made parse_objects_made)

lemma print_dns_back: "parseDnsConfig j (print_dns mk c) = Inr c"
  by (cases c) (simp add: parseDnsConfig_def print_dns_def made parse_objects_made print_dns_server_back print_dns_rule_back)

lemma print_app_back: "\<forall>x \<in> set (ap_inbounds c). in_tls x = None \<Longrightarrow> paresAppConfig j (print_app mk c) = Inr c"
  by (cases c) (simp add: paresAppConfig_def print_app_def made parse_objects_made print_inbound_back print_outbound_back print_router_back print_dns_back)

end

section \<open>The configuration as a whole\<close>

definition empty_config :: app_config where
  "empty_config =
     \<lparr>ap_inbounds = [], ap_outbounds = [],
      ap_router = \<lparr>rc_rules = [], rc_ruleSets = [], rc_final = ''''\<rparr>,
      ap_dns = \<lparr>dn_listen = '''', dn_listen_port = 0, dn_servers = [], dn_rules = [], dn_final = ''''\<rparr>\<rparr>"

lemma parse_empty_document: "paresAppConfig json_plain [] = Inr empty_config"
  by (simp add: paresAppConfig_def parseRouterConfig_def parseDnsConfig_def getArray_def getObj_def
      getString_def getu16_def parse_objects_def json_plain_def empty_config_def)

lemma parse_inbound_tls: "parseInboundConfig j obj = Inr c \<Longrightarrow> in_tls c = None"
  by (auto simp: parseInboundConfig_def)

lemma map_res_all: "map_res f xs = Inr ys \<Longrightarrow> (\<And>x y. f x = Inr y \<Longrightarrow> P y) \<Longrightarrow> y \<in> set ys \<Longrightarrow> P y"
  by (induction xs arbitrary: ys) auto

lemma parse_objects_all:
  "parse_objects j parse items = Inr ys \<Longrightarrow> (\<And>ob y. parse ob = Inr y \<Longrightarrow> P y) \<Longrightarrow> y \<in> set ys \<Longrightarrow> P y"
  unfolding parse_objects_def by (erule map_res_all) auto

definition sample_config :: app_config where
  "sample_config =
     \<lparr>ap_inbounds =
        [\<lparr>in_tag = ''in'', in_type = ''mixed'', in_listen = ''127.0.0.1'', in_listen_port = 1080,
          in_users = [\<lparr>up_username = ''u'', up_password = ''p''\<rparr>], in_uuids = [], in_tls = None,
          in_tunIpv4 = '''', in_tunIpv6 = '''', in_tunNextIpv4 = '''', in_tunNextIpv6 = ''''\<rparr>],
      ap_outbounds =
        [\<lparr>ob_tag = ''out'', ob_type = ''direct'', ob_server = '''', ob_server_port = 0,
          ob_user = \<lparr>up_username = '''', up_password = ''''\<rparr>, ob_uuid = '''',
          ob_tls = \<lparr>tc_enabled = False, tc_insecure = False, tc_serverName = ''''\<rparr>,
          ob_transport = \<lparr>tr_type = '''', tr_path = '''', tr_host = ''''\<rparr>\<rparr>],
      ap_router =
        \<lparr>rc_rules = [\<lparr>rr_rule = \<lparr>ru_domainRule = \<lparr>dc_domain = [''a.b''], dc_domainSuffix = [],
            dc_domainKeyword = [], dc_domainRegex = []\<rparr>, ru_cidr = [''10.0.0.0/8'']\<rparr>,
            rr_rule_set = [], rr_outbound = ''out''\<rparr>],
         rc_ruleSets = [], rc_final = ''out''\<rparr>,
      ap_dns = \<lparr>dn_listen = '''', dn_listen_port = 53, dn_servers = [], dn_rules = [], dn_final = ''''\<rparr>\<rparr>"

text \<open>C22: what the program reads from a configuration file is what was written in it: for
  every configuration, the object that lists its members under the names of the file format
  parses back to that configuration, all its inbounds, outbounds, route rules, rule sets, DNS
  servers and DNS rules in their order. The one thing a file cannot express is the TLS part of
  an inbound, which the parser leaves indeterminate whatever the file holds.\<close>

theorem config_roundtrip:
  assumes "json_values j mk" and "\<forall>x \<in> set (ap_inbounds c). in_tls x = None"
  shows "paresAppConfig j (print_app mk c) = Inr c"
  by (rule json_values.print_app_back [OF assms])

lemma config_roundtrip_witness: "paresAppConfig json_plain (print_app json_plain_make sample_config) = Inr sample_config"
  by (rule config_roundtrip [OF plain.json_values_axioms]) (simp add: sample_config_def)

text \<open>No configuration file sets the TLS part of an inbound: in every configuration that
  the parser returns, whatever the document, it is indeterminate for every inbound.\<close>

theorem inbound_tls_never_read:
  assumes "paresAppConfig j obj = Inr c" and "x \<in> set (ap_inbounds c)"
  shows "in_tls x = None"
proof -
  obtain items where "parse_objects j (parseInboundConfig j) items = Inr (ap_inbounds c)"
    using assms(1) by (auto simp: paresAppConfig_def)
  then show ?thesis
    by (rule parse_objects_all [where y = x]) (rule parse_inbound_tls, assumption, rule assms(2))
qed

lemma inbound_tls_never_read_witness: "in_tls (hd (ap_inbounds sample_config)) = None"
  by (rule inbound_tls_never_read [of json_plain "print_app json_plain_make sample_config" sample_config])
    (code_simp, simp add: sample_config_def)

end
