(* ===== verification/Umap.thy ===== *)
theory Umap
  imports Prelude "HOL-Library.AList"
begin

text \<open>
  \<^verbatim>\<open>std::unordered_map\<close>: an association list in which every key occurs once. The
  order of the list stands for the container's iteration order, which no result below
  depends on. \<open>umap_assign\<close> is \<^verbatim>\<open>m[k] = v\<close>, \<open>umap_emplace\<close> keeps an entry
  that is already there, \<open>umap_index\<close> is \<^verbatim>\<open>m[k]\<close> as a value, which inserts the
  default for a missing key, \<open>umap_erase_if\<close> the erasing iterator loop.
\<close>

type_synonym ('k, 'v) umap = "('k \<times> 'v) list"

definition umap_find :: "('k, 'v) umap \<Rightarrow> 'k \<Rightarrow> 'v option" where
  "umap_find m k = map_of m k"

definition umap_assign :: "('k, 'v) umap \<Rightarrow> 'k \<Rightarrow> 'v \<Rightarrow> ('k, 'v) umap" where
  "umap_assign m k v = AList.update k v m"

definition umap_emplace :: "('k, 'v) umap \<Rightarrow> 'k \<Rightarrow> 'v \<Rightarrow> ('k, 'v) umap" where
  "umap_emplace m k v = (if umap_find m k = None then m @ [(k, v)] else m)"

definition umap_index :: "'v \<Rightarrow> ('k, 'v) umap \<Rightarrow> 'k \<Rightarrow> 'v \<times> ('k, 'v) umap" where
  "umap_index d m k =
     (case umap_find m k of Some v \<Rightarrow> (v, m) | None \<Rightarrow> (d, umap_emplace m k d))"

fun umap_erase_if :: "('k \<Rightarrow> 'v \<Rightarrow> bool) \<Rightarrow> ('k, 'v) umap \<Rightarrow> ('k, 'v) umap" where
  "umap_erase_if P [] = []"
| "umap_erase_if P ((k, v) # m) = (if P k v then umap_erase_if P m else (k, v) # umap_erase_if P m)"

definition wf_umap :: "('k, 'v) umap \<Rightarrow> bool" where
  "wf_umap m \<longleftrightarrow> distinct (map fst m)"

section \<open>The contract of a keyed container\<close>

text \<open>
  What the clients of a map rely on: the cache, the rule sets and servers of the builder
  and the outbounds of the application. \<open>fill_last\<close> and \<open>fill_first\<close> are the
  results of filling a map in a loop, by assignment or by \<^verbatim>\<open>emplace\<close>: the last, or
  the first, entry of a key stays.
\<close>

locale keyed_map =
  fixes emp :: 'm
    and look :: "'m \<Rightarrow> 'k \<Rightarrow> 'v option"
    and assign :: "'m \<Rightarrow> 'k \<Rightarrow> 'v \<Rightarrow> 'm"
    and emplace :: "'m \<Rightarrow> 'k \<Rightarrow> 'v \<Rightarrow> 'm"
    and ok :: "'m \<Rightarrow> bool"
  assumes ok_emp: "ok emp"
    and ok_assign: "ok m \<Longrightarrow> ok (assign m k v)"
    and ok_emplace: "ok m \<Longrightarrow> ok (emplace m k v)"
    and look_emp: "look emp k = None"
    and look_assign: "look (assign m k v) k' = (if k' = k then Some v else look m k')"
    and look_emplace: "look (emplace m k v) k' = (if k' = k \<and> look m k = None then Some v else look m k')"
begin

definition assign_all :: "('k \<times> 'v) list \<Rightarrow> 'm \<Rightarrow> 'm" where
  "assign_all xs m = foldl (\<lambda>m (k, v). assign m k v) m xs"

definition emplace_all :: "('k \<times> 'v) list \<Rightarrow> 'm \<Rightarrow> 'm" where
  "emplace_all xs m = foldl (\<lambda>m (k, v). emplace m k v) m xs"

lemma assign_all_simps [simp]:
  "assign_all [] m = m"
  "assign_all ((k, v) # xs) m = assign_all xs (assign m k v)"
  by (simp_all add: assign_all_def)

lemma emplace_all_simps [simp]:
  "emplace_all [] m = m"
  "emplace_all ((k, v) # xs) m = emplace_all xs (emplace m k v)"
  by (simp_all add: emplace_all_def)

lemma ok_assign_all: "ok m \<Longrightarrow> ok (assign_all xs m)"
  by (induction xs arbitrary: m) (auto simp: ok_assign)

lemma look_assign_all:
  "look (assign_all xs m) k = (case map_of (rev xs) k of Some v \<Rightarrow> Some v | None \<Rightarrow> look m k)"
proof (induction xs arbitrary: m)
  case Nil
  then show ?case by simp
next
  case (Cons x xs)
  then show ?case
    by (cases x) (auto simp: look_assign map_add_def split: option.splits)
qed

lemma look_emplace_all:
  "look (emplace_all xs m) k = (case look m k of Some v \<Rightarrow> Some v | None \<Rightarrow> map_of xs k)"
proof (induction xs arbitrary: m)
  case Nil
  then show ?case by (simp split: option.splits)
next
  case (Cons x xs)
  then show ?case
    by (cases x) (auto simp: look_emplace split: option.splits)
qed

lemma fill_last: "look (assign_all xs emp) k = map_of (rev xs) k"
  by (simp add: look_assign_all look_emp split: option.splits)

lemma fill_first: "look (emplace_all xs emp) k = map_of xs k"
  by (simp add: look_emplace_all look_emp)

end

section \<open>The association list keeps the contract\<close>

lemma umap_find_assign [simp]:
  "umap_find (umap_assign m k v) k' = (if k' = k then Some v else umap_find m k')"
  by (simp add: umap_find_def umap_assign_def update_conv')

lemma umap_find_emplace [simp]:
  "umap_find (umap_emplace m k v) k' = (if k' = k \<and> umap_find m k = None then Some v else umap_find m k')"
  by (auto simp: umap_find_def umap_emplace_def map_add_def split: option.splits)

lemma umap_find_Nil [simp]: "umap_find [] k = None"
  by (simp add: umap_find_def)

lemma wf_umap_Nil [simp]: "wf_umap []"
  by (simp add: wf_umap_def)

lemma wf_umap_assign: "wf_umap m \<Longrightarrow> wf_umap (umap_assign m k v)"
  by (simp add: wf_umap_def umap_assign_def distinct_update)

lemma wf_umap_emplace: "wf_umap m \<Longrightarrow> wf_umap (umap_emplace m k v)"
  by (auto simp: wf_umap_def umap_emplace_def umap_find_def map_of_eq_None_iff)

interpretation umap: keyed_map "[]" umap_find umap_assign umap_emplace wf_umap
  by unfold_locales (simp_all add: wf_umap_assign wf_umap_emplace)

lemma umap_index_find: "fst (umap_index d m k) = (case umap_find m k of Some v \<Rightarrow> v | None \<Rightarrow> d)"
  by (simp add: umap_index_def split: option.splits)

lemma set_umap_erase_if: "set (umap_erase_if P m) = {(k, v) \<in> set m. \<not> P k v}"
  by (induction P m rule: umap_erase_if.induct) auto

lemma keys_umap_erase_if: "set (map fst (umap_erase_if P m)) \<subseteq> set (map fst m)"
  by (auto simp: set_umap_erase_if)

lemma wf_umap_erase_if: "wf_umap m \<Longrightarrow> wf_umap (umap_erase_if P m)"
proof (induction P m rule: umap_erase_if.induct)
  case (2 P k v m)
  then show ?case using keys_umap_erase_if [of P m] by (auto simp: wf_umap_def)
qed simp

lemma umap_find_erase_if:
  "wf_umap m \<Longrightarrow>
   umap_find (umap_erase_if P m) k =
     (case umap_find m k of Some v \<Rightarrow> if P k v then None else Some v | None \<Rightarrow> None)"
proof (induction P m rule: umap_erase_if.induct)
  case (2 P k' v m)
  then have "k' \<notin> set (map fst m)" "wf_umap m" by (simp_all add: wf_umap_def)
  moreover from this have "map_of m k' = None" by (simp add: map_of_eq_None_iff)
  ultimately show ?case
    using 2 by (auto simp: umap_find_def split: option.splits)
qed simp

end
