(* ===== verification/Std_String.thy ===== *)
theory Std_String
  imports Prelude
begin

text \<open>
  The operations of the C++ standard library on strings that the source uses:
  \<^verbatim>\<open>find\<close>, \<^verbatim>\<open>substr\<close>, \<^verbatim>\<open>erase\<close> of a character, \<^verbatim>\<open>std::stoul\<close> in
  bases 10 and 16, extraction of a word from an \<^verbatim>\<open>istringstream\<close>, and the decimal
  formatting of an unsigned integer. A \<^verbatim>\<open>std::string\<close> is a list of 8-bit
  characters; \<^verbatim>\<open>npos\<close> is \<open>None\<close>.
\<close>

section \<open>Searching\<close>

fun find_in :: "string \<Rightarrow> string \<Rightarrow> nat option" where
  "find_in needle [] = (if needle = [] then Some 0 else None)"
| "find_in needle (c # cs) =
     (if prefix needle (c # cs) then Some 0 else map_option Suc (find_in needle cs))"

definition str_find :: "string \<Rightarrow> string \<Rightarrow> nat \<Rightarrow> nat option" where
  "str_find hay needle start =
     (if start \<le> length hay then map_option (\<lambda>i. start + i) (find_in needle (drop start hay))
      else None)"

lemma find_in_SomeD:
  "find_in needle hay = Some i \<Longrightarrow>
     \<exists>pre post. hay = pre @ needle @ post \<and> length pre = i"
proof (induction hay arbitrary: i)
  case Nil
  then show ?case by (auto split: if_splits)
next
  case (Cons c cs)
  show ?case
  proof (cases "prefix needle (c # cs)")
    case True
    then obtain post where "c # cs = needle @ post" by (auto simp: prefix_def)
    moreover from Cons.prems True have "i = 0" by simp
    ultimately show ?thesis by (intro exI [of _ "[]"] exI [of _ post]) simp
  next
    case False
    with Cons.prems obtain j where "find_in needle cs = Some j" and i: "i = Suc j"
      by (auto split: if_splits)
    with Cons.IH obtain pre post where "cs = pre @ needle @ post" "length pre = j" by blast
    with i show ?thesis by (intro exI [of _ "c # pre"] exI [of _ post]) auto
  qed
qed

lemma find_in_None_iff: "find_in needle hay = None \<longleftrightarrow> \<not> sublist needle hay"
proof (induction hay)
  case Nil
  then show ?case by auto
next
  case (Cons c cs)
  then show ?case by (auto simp: sublist_Cons_right)
qed

lemma find_in_least:
  "find_in needle hay = Some i \<Longrightarrow> j < i \<Longrightarrow> \<not> prefix needle (drop j hay)"
proof (induction hay arbitrary: i j)
  case Nil
  then show ?case by (auto split: if_splits)
next
  case (Cons c cs)
  then obtain k where k: "find_in needle cs = Some k" "i = Suc k" "\<not> prefix needle (c # cs)"
    by (auto split: if_splits)
  with Cons show ?case by (cases j) auto
qed

lemma find_in_first:
  "\<not> sublist needle (butlast (pre @ needle)) \<Longrightarrow> needle \<noteq> [] \<Longrightarrow>
     find_in needle (pre @ needle @ post) = Some (length pre)"
proof (induction pre)
  case Nil
  then show ?case by (cases needle) (auto simp: prefix_def)
next
  case (Cons c pre)
  have bl: "butlast ((c # pre) @ needle) = c # butlast (pre @ needle)"
    using Cons.prems(2) by simp
  have "\<not> prefix needle (c # pre @ needle @ post)"
  proof
    assume p: "prefix needle (c # pre @ needle @ post)"
    have "prefix (c # butlast (pre @ needle)) (c # pre @ needle @ post)"
      by (simp add: prefix_def) (metis Cons.prems(2) append.assoc append_butlast_last_id append_is_Nil_conv)
    moreover have "length needle \<le> length (c # butlast (pre @ needle))"
      by simp
    ultimately have "prefix needle (c # butlast (pre @ needle))"
      using p prefix_length_prefix by blast
    then show False using Cons.prems(1) bl by (metis prefix_imp_sublist)
  qed
  moreover have "\<not> sublist needle (butlast (pre @ needle))"
    using Cons.prems(1) bl by (auto simp: sublist_Cons_right)
  ultimately show ?case using Cons.IH Cons.prems(2) by simp
qed

text \<open>Searching for a single character.\<close>

lemma find_in_char:
  "find_in [c] hay =
     (if c \<in> set hay then Some (length (takeWhile (\<lambda>x. x \<noteq> c) hay)) else None)"
  by (induction hay) auto

lemma takeWhile_stops_before:
  "c \<in> set xs \<Longrightarrow> length (takeWhile (\<lambda>x. x \<noteq> c) xs) < length xs"
  by (induction xs) auto

lemma str_find_char_SomeD:
  assumes "str_find hay [c] start = Some i"
  shows "start \<le> i" "i < length hay" "hay ! i = c" "c \<notin> set (slice start (i - start) hay)"
proof -
  from assms have st: "start \<le> length hay" and f: "find_in [c] (drop start hay) = Some (i - start)"
    and le: "start \<le> i"
    by (auto simp: str_find_def split: if_splits)
  show "start \<le> i" by fact
  from f have inn: "c \<in> set (drop start hay)" and
    len: "i - start = length (takeWhile (\<lambda>x. x \<noteq> c) (drop start hay))"
    by (auto simp: find_in_char split: if_splits)
  then have lt: "i - start < length (drop start hay)"
    by (metis takeWhile_stops_before)
  then show "i < length hay" using le by simp
  have "drop start hay ! (i - start) = c"
    using nth_length_takeWhile [of "\<lambda>x. x \<noteq> c" "drop start hay"] len lt by auto
  then show "hay ! i = c" using le st by simp
  have "take (i - start) (drop start hay) = takeWhile (\<lambda>x. x \<noteq> c) (drop start hay)"
    unfolding len by (metis takeWhile_eq_take)
  then show "c \<notin> set (slice start (i - start) hay)"
    unfolding slice_def by (metis (mono_tags, lifting) set_takeWhileD)
qed

lemma str_find_char_None:
  "str_find hay [c] start = None \<Longrightarrow> c \<notin> set (drop start hay)"
  by (auto simp: str_find_def find_in_char split: if_splits)

lemma str_find_npos_iff: "str_find hay needle 0 = None \<longleftrightarrow> \<not> sublist needle hay"
  by (simp add: str_find_def find_in_None_iff)

lemma str_find_append:
  "str_find (xs @ hay) needle (length xs) = map_option (\<lambda>i. length xs + i) (find_in needle hay)"
  by (simp add: str_find_def)

section \<open>Numbers\<close>

definition is_space :: "char \<Rightarrow> bool" where
  "is_space c = (let n = (of_char c :: nat) in n = 32 \<or> (9 \<le> n \<and> n \<le> 13))"

definition digit_value :: "char \<Rightarrow> nat option" where
  "digit_value c =
     (let n = (of_char c :: nat)
      in if 48 \<le> n \<and> n \<le> 57 then Some (n - 48)
         else if 97 \<le> n \<and> n \<le> 122 then Some (n - 87)
         else if 65 \<le> n \<and> n \<le> 90 then Some (n - 55)
         else None)"

definition is_digit_of :: "nat \<Rightarrow> char \<Rightarrow> bool" where
  "is_digit_of base c = (case digit_value c of None \<Rightarrow> False | Some v \<Rightarrow> v < base)"

definition digits_value :: "nat \<Rightarrow> string \<Rightarrow> nat" where
  "digits_value base = foldl (\<lambda>acc c. base * acc + the (digit_value c)) 0"

text \<open>
  \<^verbatim>\<open>std::stoul\<close> on a 64-bit \<^verbatim>\<open>unsigned long\<close>: leading white space and a sign
  are accepted, a minus sign negates modulo \<open>2 ^ 64\<close>, in base 16 a \<^verbatim>\<open>0x\<close> in
  front of a digit is skipped, and whatever follows the digits is ignored.
\<close>

definition strip_sign :: "string \<Rightarrow> bool \<times> string" where
  "strip_sign s =
     (case s of [] \<Rightarrow> (False, s)
      | c # cs \<Rightarrow> if c = CHR ''-'' then (True, cs) else if c = CHR ''+'' then (False, cs) else (False, s))"

definition strip_0x :: "string \<Rightarrow> string" where
  "strip_0x s =
     (case s of
        c # x # d # rest \<Rightarrow>
          if c = CHR ''0'' \<and> (x = CHR ''x'' \<or> x = CHR ''X'') \<and> is_digit_of 16 d then d # rest else s
      | _ \<Rightarrow> s)"

definition stoul :: "nat \<Rightarrow> string \<Rightarrow> nat result" where
  "stoul base s =
     (let (neg, t) = strip_sign (dropWhile is_space s);
          u = (if base = 16 then strip_0x t else t);
          ds = takeWhile (is_digit_of base) u;
          v = digits_value base ds
      in if ds = [] then Inl (Raised Invalid_Argument)
         else if 2 ^ 64 \<le> v then Inl (Raised Std_Out_Of_Range)
         else Inr (if neg then (2 ^ 64 - v) mod 2 ^ 64 else v))"

lemma stoul_less: "stoul base s = Inr v \<Longrightarrow> v < 2 ^ 64"
  by (auto simp: stoul_def Let_def split: prod.splits if_splits)

lemma no_ub_stoul: "no_ub (stoul base s)"
  by (auto simp: stoul_def Let_def split: prod.splits)

text \<open>Decimal formatting, as \<^verbatim>\<open>std::format\<close> does for an unsigned integer.\<close>

definition digit_char :: "nat \<Rightarrow> char" where
  "digit_char d = char_of (if d < 10 then d + 48 else d + 87)"

fun decimal :: "nat \<Rightarrow> string" where
  "decimal n = (if n < 10 then [digit_char n] else decimal (n div 10) @ [digit_char (n mod 10)])"

declare decimal.simps [simp del]

lemma digit_value_digit_char: "d < 36 \<Longrightarrow> digit_value (digit_char d) = Some d"
  by (auto simp: digit_value_def digit_char_def)

lemma is_digit_of_digit_char: "d < base \<Longrightarrow> base \<le> 36 \<Longrightarrow> is_digit_of base (digit_char d)"
  by (simp add: is_digit_of_def digit_value_digit_char)

lemma digits_value_snoc:
  "d < 36 \<Longrightarrow> digits_value base (ds @ [digit_char d]) = base * digits_value base ds + d"
  by (simp add: digits_value_def digit_value_digit_char)

lemma decimal_value: "digits_value 10 (decimal n) = n"
proof (induction n rule: decimal.induct)
  case (1 n)
  show ?case
  proof (cases "n < 10")
    case True
    then show ?thesis
      by (simp add: decimal.simps [of n] digits_value_def digit_value_digit_char)
  next
    case False
    with 1 show ?thesis by (simp add: decimal.simps [of n] digits_value_snoc)
  qed
qed

lemma decimal_digits: "decimal n \<noteq> [] \<and> list_all (is_digit_of 10) (decimal n)"
proof (induction n rule: decimal.induct)
  case (1 n)
  then show ?case
    by (cases "n < 10") (simp_all add: decimal.simps [of n] is_digit_of_digit_char)
qed

lemma digit_not_special:
  "is_digit_of base c \<Longrightarrow> \<not> is_space c \<and> c \<noteq> CHR ''-'' \<and> c \<noteq> CHR ''+'' \<and> c \<noteq> CHR ''/''"
  by (auto simp: is_digit_of_def digit_value_def is_space_def Let_def split: if_splits)

lemma takeWhile_all: "list_all P xs \<Longrightarrow> takeWhile P xs = xs"
  by (induction xs) auto

lemma stoul_plain_digits:
  assumes "ds \<noteq> []" "list_all (is_digit_of 10) ds" "digits_value 10 ds < 2 ^ 64"
  shows "stoul 10 ds = Inr (digits_value 10 ds)"
proof -
  obtain c cs where ds: "ds = c # cs" using assms(1) by (cases ds) auto
  with assms(2) have "is_digit_of 10 c" by simp
  note sp = digit_not_special [OF this]
  have "dropWhile is_space ds = ds" "strip_sign ds = (False, ds)"
    using ds sp by (simp_all add: strip_sign_def)
  with assms show ?thesis by (simp add: stoul_def takeWhile_all)
qed

lemma stoul_decimal: "n < 2 ^ 64 \<Longrightarrow> stoul 10 (decimal n) = Inr n"
  using stoul_plain_digits [of "decimal n"] decimal_digits [of n] decimal_value [of n] by simp

text \<open>Two hexadecimal digits, as \<^verbatim>\<open>buildUuid\<close> cuts them out of its argument.\<close>

lemma stoul_hex_pair:
  assumes "h < 16" "l < 16"
  shows "stoul 16 [digit_char h, digit_char l] = Inr (16 * h + l)"
proof -
  have dh: "is_digit_of 16 (digit_char h)" "is_digit_of 16 (digit_char l)"
    using assms by (simp_all add: is_digit_of_digit_char)
  note sp = digit_not_special [OF dh(1)]
  have "dropWhile is_space [digit_char h, digit_char l] = [digit_char h, digit_char l]"
    "strip_sign [digit_char h, digit_char l] = (False, [digit_char h, digit_char l])"
    using sp by (simp_all add: strip_sign_def)
  moreover have "digits_value 16 [digit_char h, digit_char l] = 16 * h + l"
    using assms by (simp add: digits_value_def digit_value_digit_char)
  ultimately show ?thesis using assms dh by (simp add: stoul_def strip_0x_def)
qed

section \<open>Words of a line\<close>

text \<open>
  \<^verbatim>\<open>iss >> word\<close>: skip white space, take characters up to the next white space. On
  an exhausted stream the target string stays empty.
\<close>

definition extract_word :: "string \<Rightarrow> string \<times> string" where
  "extract_word s =
     (let t = dropWhile is_space s
      in (takeWhile (\<lambda>c. \<not> is_space c) t, dropWhile (\<lambda>c. \<not> is_space c) t))"

lemma extract_word_spaced:
  assumes "w \<noteq> []" "list_all (\<lambda>c. \<not> is_space c) w" "is_space sp"
  shows "extract_word (w @ sp # rest) = (w, sp # rest)"
proof -
  obtain c cs where w: "w = c # cs" using assms(1) by (cases w) auto
  have all: "\<forall>x \<in> set w. \<not> is_space x" using assms(2) by (simp add: list_all_iff)
  have "dropWhile is_space (w @ sp # rest) = w @ sp # rest"
    using w all by simp
  then show ?thesis
    using all assms(3) by (simp add: extract_word_def takeWhile_append2 dropWhile_append2)
qed

lemma extract_word_last:
  assumes "w \<noteq> []" "list_all (\<lambda>c. \<not> is_space c) w"
  shows "extract_word w = (w, [])"
proof -
  obtain c cs where w: "w = c # cs" using assms(1) by (cases w) auto
  have all: "\<forall>x \<in> set w. \<not> is_space x" using assms(2) by (simp add: list_all_iff)
  have "dropWhile is_space w = w" using w all by simp
  then show ?thesis using all by (simp add: extract_word_def takeWhile_eq_all_conv)
qed

lemma extract_word_skip: "is_space sp \<Longrightarrow> extract_word (sp # s) = extract_word s"
  by (simp add: extract_word_def)

end
