(* ===== verification/Address.thy ===== *)
theory Address
  imports Std_String
begin

text \<open>
  \<^verbatim>\<open>common/address.hpp\<close>, \<^verbatim>\<open>common/address.cpp\<close> and
  \<^verbatim>\<open>common/userpass.hpp\<close>. An \<^verbatim>\<open>ip::address\<close> is either version: four bytes, or
  sixteen. Parsing and printing an address is the library's; the two functions are
  parameters (\<open>mk\<close> for \<^verbatim>\<open>ip::make_address\<close>, \<open>None\<close> where it reports an error,
  and \<open>show_ip\<close> for \<^verbatim>\<open>to_string\<close>).
\<close>

datatype ip_address = IpV4 u8 u8 u8 u8 | IpV6 bytes

fun is_v4 :: "ip_address \<Rightarrow> bool" where
  "is_v4 (IpV4 a b c d) = True"
| "is_v4 (IpV6 bs) = False"

fun wf_ip :: "ip_address \<Rightarrow> bool" where
  "wf_ip (IpV4 a b c d) = True"
| "wf_ip (IpV6 bs) = (length bs = 16)"

fun ip_to_bytes :: "ip_address \<Rightarrow> bytes" where
  "ip_to_bytes (IpV4 a b c d) = [a, b, c, d]"
| "ip_to_bytes (IpV6 bs) = bs"

definition v4_to_uint :: "u8 \<Rightarrow> u8 \<Rightarrow> u8 \<Rightarrow> u8 \<Rightarrow> u32" where
  "v4_to_uint a b c d =
     push_bit 24 (ucast a) OR push_bit 16 (ucast b) OR push_bit 8 (ucast c) OR ucast d"

datatype host = Domain string | Ip ip_address

record address =
  addr_host :: host
  addr_port :: u16

text \<open>\<^verbatim>\<open>tcp::endpoint\<close> and \<^verbatim>\<open>udp::endpoint\<close>.\<close>

record endpoint =
  ep_address :: ip_address
  ep_port :: u16

record user_pass =
  username :: string
  password :: string

type_synonym make_address = "string \<Rightarrow> ip_address option"

text \<open>The overload of \<^verbatim>\<open>ip::make_address\<close> without an error code throws.\<close>

definition make_address_throw :: "make_address \<Rightarrow> string \<Rightarrow> ip_address result" where
  "make_address_throw mk s =
     (case mk s of None \<Rightarrow> Inl (Raised (System_Error (Other_Code ''Invalid argument'')))
      | Some a \<Rightarrow> Inr a)"

definition Address_toString :: "(ip_address \<Rightarrow> string) \<Rightarrow> address \<Rightarrow> string" where
  "Address_toString show_ip a =
     (case addr_host a of
        Domain v \<Rightarrow> v @ '':'' @ decimal (unat (addr_port a))
      | Ip v \<Rightarrow>
          if is_v4 v then show_ip v @ '':'' @ decimal (unat (addr_port a))
          else ''['' @ show_ip v @ '']:'' @ decimal (unat (addr_port a)))"

text \<open>The port of a printed address is the text behind its last colon.\<close>

lemma decimal_no_colon: "CHR '':'' \<notin> set (decimal n)"
proof
  assume "CHR '':'' \<in> set (decimal n)"
  then have "is_digit_of 10 (CHR '':'')"
    using decimal_digits [of n] by (auto simp: list_all_iff)
  then show False by (simp add: is_digit_of_def digit_value_def)
qed

lemma decimal_inject: "decimal m = decimal n \<Longrightarrow> m = n"
  by (metis decimal_value)

lemma first_sep_eq:
  "xs @ c # ys = xs' @ c # ys' \<Longrightarrow> c \<notin> set xs \<Longrightarrow> c \<notin> set xs' \<Longrightarrow> xs = xs' \<and> ys = ys'"
proof (induction xs arbitrary: xs')
  case Nil
  then show ?case by (cases xs') auto
next
  case (Cons x xs)
  then show ?case by (cases xs') auto
qed

lemma append_sep_eq:
  assumes "xs @ c # ys = xs' @ c # ys'" "c \<notin> set ys" "c \<notin> set ys'"
  shows "xs = xs' \<and> ys = ys'"
proof -
  have "rev ys @ c # rev xs = rev ys' @ c # rev xs'"
    using arg_cong [OF assms(1), of rev] by simp
  then have "rev ys = rev ys' \<and> rev xs = rev xs'"
    using first_sep_eq [of "rev ys" c "rev xs"] assms(2,3) by simp
  then show ?thesis by simp
qed

text \<open>Two domain addresses print alike exactly when they are equal: the text identifies the
  endpoint, also when the domain itself holds a colon.\<close>

theorem Address_toString_domain_inject:
  "Address_toString show_ip \<lparr>addr_host = Domain d, addr_port = p\<rparr> =
   Address_toString show_ip \<lparr>addr_host = Domain e, addr_port = q\<rparr> \<longleftrightarrow> d = e \<and> p = q"
proof (rule iffI)
  assume eq: "Address_toString show_ip \<lparr>addr_host = Domain d, addr_port = p\<rparr> =
    Address_toString show_ip \<lparr>addr_host = Domain e, addr_port = q\<rparr>"
  have "d @ CHR '':'' # decimal (unat p) = e @ CHR '':'' # decimal (unat q)"
    using eq by (simp add: Address_toString_def)
  from append_sep_eq [OF this decimal_no_colon decimal_no_colon]
  have "d = e" "decimal (unat p) = decimal (unat q)" by auto
  then show "d = e \<and> p = q" using decimal_inject by (blast intro: unsigned_word_eqI)
qed simp



end
