(* ===== verification/Log.thy ===== *)
theory Log
  imports Prelude
begin

text \<open>
  \<^verbatim>\<open>utils/log.cpp\<close>: what is printed for an exception that a coroutine catches. The
  messages of error codes and of exceptions other than \<^verbatim>\<open>runtime_error\<close> are the
  library's, a parameter.
\<close>

record messages =
  code_message :: "error_code \<Rightarrow> string"
  exn_what :: "exn \<Rightarrow> string"

definition log_line :: "string \<Rightarrow> string \<Rightarrow> string" where
  "log_line title content = ''['' @ title @ ''] '' @ content @ [CHR 0x0A]"

definition log_error :: "messages \<Rightarrow> string \<Rightarrow> exn \<Rightarrow> string list" where
  "log_error ms message e =
     (case e of
        System_Error ec \<Rightarrow>
          if ec = Operation_Aborted then []
          else [log_line ''error'' (message @ '' '' @ code_message ms ec)]
      | _ \<Rightarrow> [log_line ''error'' (message @ '' '' @ exn_what ms e)])"

text \<open>Nothing is printed for a cancelled operation, one line for everything else.\<close>

lemma log_error_silent_iff: "log_error ms m e = [] \<longleftrightarrow> e = System_Error Operation_Aborted"
  by (cases e) (auto simp: log_error_def)

lemma log_error_length: "length (log_error ms m e) \<le> 1"
  by (cases e) (auto simp: log_error_def)

end
