(* ===== verification/Dns_Cache.thy ===== *)
theory Dns_Cache
  imports Umap Address Log
begin

text \<open>
  \<^verbatim>\<open>dns/cache.hpp\<close> and \<^verbatim>\<open>dns/cache.cpp\<close>: the resolver's cache. Time points of
  \<^verbatim>\<open>std::chrono::steady_clock\<close> are nanoseconds; the \<^verbatim>\<open>now\<close> an operation reads is
  its argument. \<open>DnsCache_sweep\<close> is one pass of \<^verbatim>\<open>mainWork_\<close>, which runs once an
  hour. The specification \<open>cached\<close> reads the entry of one domain off the history of
  operations, looking at no other domain.
\<close>

section \<open>The operations\<close>

type_synonym time_point = int

record cache_item =
  lastAccess :: time_point
  item_ips :: "ip_address list"

type_synonym dns_cache = "(string, cache_item) umap"

definition expTime :: int where
  "expTime = 1 * 60 * 60 * 1000000000"

definition DnsCache_lookup :: "dns_cache \<Rightarrow> time_point \<Rightarrow> string \<Rightarrow> ip_address list \<times> dns_cache" where
  "DnsCache_lookup data now domain =
     (case umap_find data domain of
        None \<Rightarrow> ([], data)
      | Some it \<Rightarrow> (item_ips it, umap_assign data domain (it\<lparr>lastAccess := now\<rparr>)))"

definition DnsCache_store :: "dns_cache \<Rightarrow> time_point \<Rightarrow> string \<Rightarrow> ip_address list \<Rightarrow> dns_cache" where
  "DnsCache_store data now domain ips =
     umap_assign data domain \<lparr>lastAccess = now, item_ips = ips\<rparr>"

definition DnsCache_sweep :: "dns_cache \<Rightarrow> time_point \<Rightarrow> dns_cache" where
  "DnsCache_sweep data now = umap_erase_if (\<lambda>k it. now - lastAccess it > expTime) data"

text \<open>The lines the operations log.\<close>

definition lookup_log :: "dns_cache \<Rightarrow> string \<Rightarrow> string list" where
  "lookup_log data domain =
     (case umap_find data domain of None \<Rightarrow> [] | Some it \<Rightarrow> [log_line ''dns cache'' (''lookup '' @ domain)])"

definition store_log :: "string \<Rightarrow> string list" where
  "store_log domain = [log_line ''dns cache'' (''store '' @ domain)]"

definition sweep_log :: "dns_cache \<Rightarrow> time_point \<Rightarrow> string list" where
  "sweep_log data now =
     map (\<lambda>(k, it). log_line ''dns cache'' (''erase '' @ k)) (filter (\<lambda>(k, it). now - lastAccess it > expTime) data)"

section \<open>Histories\<close>

datatype cache_op =
    Lookup time_point string
  | Store time_point string "ip_address list"
  | Sweep time_point

fun cache_step :: "dns_cache \<Rightarrow> cache_op \<Rightarrow> dns_cache" where
  "cache_step data (Lookup now d) = snd (DnsCache_lookup data now d)"
| "cache_step data (Store now d ips) = DnsCache_store data now d ips"
| "cache_step data (Sweep now) = DnsCache_sweep data now"

definition run_cache :: "cache_op list \<Rightarrow> dns_cache" where
  "run_cache ops = foldl cache_step [] ops"

lemma run_cache_simps [simp]:
  "run_cache [] = []"
  "run_cache (ops @ [x]) = cache_step (run_cache ops) x"
  by (simp_all add: run_cache_def)

text \<open>
  What the cache should hold for a domain: the addresses last stored, with the time of
  the last access, unless a sweep since found that access more than an hour old.
\<close>

fun touch :: "string \<Rightarrow> cache_item option \<Rightarrow> cache_op \<Rightarrow> cache_item option" where
  "touch d e (Lookup now d') = (if d' = d then map_option (\<lambda>it. it\<lparr>lastAccess := now\<rparr>) e else e)"
| "touch d e (Store now d' ips) = (if d' = d then Some \<lparr>lastAccess = now, item_ips = ips\<rparr> else e)"
| "touch d e (Sweep now) =
     (case e of None \<Rightarrow> None | Some it \<Rightarrow> if now - lastAccess it > expTime then None else Some it)"

definition cached :: "cache_op list \<Rightarrow> string \<Rightarrow> cache_item option" where
  "cached ops d = foldl (touch d) None ops"

lemma cached_simps [simp]:
  "cached [] d = None"
  "cached (ops @ [x]) d = touch d (cached ops d) x"
  by (simp_all add: cached_def)

lemma wf_cache_step: "wf_umap c \<Longrightarrow> wf_umap (cache_step c x)"
  by (cases x) (auto simp: DnsCache_lookup_def DnsCache_store_def DnsCache_sweep_def
      wf_umap_assign wf_umap_erase_if split: option.splits)

lemma wf_run_cache: "wf_umap (run_cache ops)"
  by (induction ops rule: rev_induct) (auto simp: wf_cache_step)

lemma find_cache_step: "wf_umap c \<Longrightarrow> umap_find (cache_step c x) d = touch d (umap_find c d) x"
  by (cases x) (auto simp: DnsCache_lookup_def DnsCache_store_def DnsCache_sweep_def
      umap_find_erase_if split: option.splits)

lemma run_cache_cached: "umap_find (run_cache ops) d = cached ops d"
  by (induction ops rule: rev_induct) (simp_all add: find_cache_step wf_run_cache)

lemma lookup_run_cache:
  "fst (DnsCache_lookup (run_cache ops) now d) = (case cached ops d of None \<Rightarrow> [] | Some it \<Rightarrow> item_ips it)"
  by (simp add: DnsCache_lookup_def run_cache_cached split: option.splits)

section \<open>How long an entry stays\<close>

text \<open>
  An entry that is looked up at least once an hour never expires, however long ago it was
  stored: nothing but a new store changes its addresses. \<open>accessed\<close> says that at every
  sweep the last access of the domain is at most an hour old.
\<close>

fun accessed :: "string \<Rightarrow> time_point \<Rightarrow> cache_op list \<Rightarrow> bool" where
  "accessed d t [] = True"
| "accessed d t (Lookup now d' # ops) = accessed d (if d' = d then now else t) ops"
| "accessed d t (Store now d' ips # ops) = (d' \<noteq> d \<and> accessed d t ops)"
| "accessed d t (Sweep now # ops) = (now - t \<le> expTime \<and> accessed d t ops)"

lemma touch_accessed:
  "accessed d (lastAccess it) later \<Longrightarrow>
   \<exists>t. foldl (touch d) (Some it) later = Some (it\<lparr>lastAccess := t\<rparr>)"
proof (induction later arbitrary: it)
  case Nil
  show ?case by (rule exI [of _ "lastAccess it"]) simp
next
  case (Cons x later)
  show ?case
  proof (cases x)
    case (Lookup now d')
    show ?thesis
    proof (cases "d' = d")
      case True
      then show ?thesis
        using Cons.IH [of "it\<lparr>lastAccess := now\<rparr>"] Cons.prems Lookup by simp
    next
      case False
      then show ?thesis using Cons Lookup by simp
    qed
  qed (use Cons in auto)
qed

text \<open>A sweep leaves no entry whose last access is more than an hour back.\<close>

lemma sweep_fresh: "(k, it) \<in> set (DnsCache_sweep c now) \<Longrightarrow> now - lastAccess it \<le> expTime"
  by (auto simp: DnsCache_sweep_def set_umap_erase_if)

lemma sweep_keeps: "(k, it) \<in> set c \<Longrightarrow> now - lastAccess it \<le> expTime \<Longrightarrow> (k, it) \<in> set (DnsCache_sweep c now)"
  by (auto simp: DnsCache_sweep_def set_umap_erase_if)

section \<open>Properties\<close>

text \<open>C18: after any history of stores, lookups and sweeps, a lookup returns the addresses the history
  prescribes for that domain alone: the concrete map refines the per-domain specification.\<close>

theorem cache_refines_history:
  "fst (DnsCache_lookup (run_cache ops) now d) =
     (case cached ops d of None \<Rightarrow> [] | Some it \<Rightarrow> item_ips it) \<and>
   (\<forall>d'. umap_find (run_cache ops) d' = cached ops d')"
  by (simp add: lookup_run_cache run_cache_cached)

text \<open>An entry that every sweep finds looked up within the last hour keeps its addresses
  for ever, whatever their age.\<close>

theorem cache_entry_never_expires:
  "accessed d now later \<Longrightarrow>
   fst (DnsCache_lookup (run_cache (ops @ Store now d ips # later)) now' d) = ips"
proof -
  assume "accessed d now later"
  then have "accessed d (lastAccess \<lparr>lastAccess = now, item_ips = ips\<rparr>) later" by simp
  from touch_accessed [OF this]
  obtain t where "foldl (touch d) (Some \<lparr>lastAccess = now, item_ips = ips\<rparr>) later
      = Some \<lparr>lastAccess = t, item_ips = ips\<rparr>"
    by auto
  then have "cached (ops @ Store now d ips # later) d = Some \<lparr>lastAccess = t, item_ips = ips\<rparr>"
    by (simp add: cached_def)
  then show ?thesis by (simp add: lookup_run_cache)
qed

theorem cache_entry_never_expires_witness:
  "fst (DnsCache_lookup (run_cache ([] @ Store 0 ''a.io'' [IpV4 1 2 3 4] #
      [Lookup expTime ''a.io'', Sweep (2 * expTime), Lookup (2 * expTime) ''a.io'', Sweep (3 * expTime)]))
      (3 * expTime) ''a.io'') = [IpV4 1 2 3 4]"
  by (rule cache_entry_never_expires) (simp add: expTime_def)

text \<open>A sweep removes exactly the entries whose last access is more than an hour back.\<close>

theorem sweep_exact:
  "set (DnsCache_sweep c now) = {(k, it) \<in> set c. now - lastAccess it \<le> expTime}"
  by (auto dest: sweep_fresh sweep_keeps) (auto simp: DnsCache_sweep_def set_umap_erase_if)

end
