(* ===== verification/Bytes.thy ===== *)
theory Bytes
  imports Prelude
begin

text \<open>
  \<^verbatim>\<open>utils/bytes.cpp\<close>: big-endian reads from and writes to a byte vector. A
  write takes a position, \<open>-1\<close> by default: a negative position appends, any other
  overwrites, growing the vector with zeros when it is too short. The lemmas give each
  operation in closed form (\<open>overwrite\<close>, \<open>be16\<close>, \<open>be32\<close>, \<open>be64\<close>), from which
  the round trips, the bounds and the frame of a write follow.
\<close>

section \<open>Reading\<close>

definition read_u8 :: "bytes \<Rightarrow> nat \<Rightarrow> u8 result" where
  "read_u8 buffer pos =
     (if length buffer < pos + 1 then throw_error ''read out of range''
      else vec_at buffer pos)"

definition read_u16 :: "bytes \<Rightarrow> nat \<Rightarrow> u16 result" where
  "read_u16 buffer pos =
     bind_res (read_u8 buffer pos) (\<lambda>data1.
     bind_res (read_u8 buffer (pos + 1)) (\<lambda>data2.
       Inr (push_bit 8 (ucast data1) OR ucast data2)))"

definition read_u32 :: "bytes \<Rightarrow> nat \<Rightarrow> u32 result" where
  "read_u32 buffer pos =
     bind_res (read_u16 buffer pos) (\<lambda>data1.
     bind_res (read_u16 buffer (pos + 2)) (\<lambda>data2.
       Inr (push_bit 16 (ucast data1) OR ucast data2)))"

definition read_u64 :: "bytes \<Rightarrow> nat \<Rightarrow> u64 result" where
  "read_u64 buffer pos =
     bind_res (read_u32 buffer pos) (\<lambda>data1.
     bind_res (read_u32 buffer (pos + 4)) (\<lambda>data2.
       Inr (push_bit 32 (ucast data1) OR ucast data2)))"

section \<open>Writing\<close>

text \<open>
  The position is a C \<^verbatim>\<open>int\<close>: \<^verbatim>\<open>pos + 1\<close> overflows at the largest one.
\<close>

definition int_max :: int where
  "int_max = 2147483647"

definition write_u8 :: "bytes \<Rightarrow> u8 \<Rightarrow> int \<Rightarrow> bytes result" where
  "write_u8 buffer val pos =
     (if pos < 0 then Inr (buffer @ [val])
      else if int_max \<le> pos then undefined_behaviour Signed_Overflow
      else let grown = (if length buffer < nat (pos + 1)
                        then buffer @ replicate (nat (pos + 1) - length buffer) 0
                        else buffer)
           in Inr (grown[nat pos := val]))"

definition write_u16 :: "bytes \<Rightarrow> u16 \<Rightarrow> int \<Rightarrow> bytes result" where
  "write_u16 buffer val pos =
     (let data1 = ucast (drop_bit 8 val AND 0xff) :: u8;
          data2 = ucast (val AND 0xff) :: u8
      in if pos < 0 then
           bind_res (write_u8 buffer data1 (-1)) (\<lambda>b. write_u8 b data2 (-1))
         else
           bind_res (write_u8 buffer data1 pos) (\<lambda>b. write_u8 b data2 (pos + 1)))"

definition write_u32 :: "bytes \<Rightarrow> u32 \<Rightarrow> int \<Rightarrow> bytes result" where
  "write_u32 buffer val pos =
     (let data1 = ucast (drop_bit 16 val AND 0xffff) :: u16;
          data2 = ucast (val AND 0xffff) :: u16
      in if pos < 0 then
           bind_res (write_u16 buffer data1 (-1)) (\<lambda>b. write_u16 b data2 (-1))
         else
           bind_res (write_u16 buffer data1 pos) (\<lambda>b. write_u16 b data2 (pos + 2)))"

definition write_u64 :: "bytes \<Rightarrow> u64 \<Rightarrow> int \<Rightarrow> bytes result" where
  "write_u64 buffer val pos =
     (let data1 = ucast (drop_bit 32 val AND 0xffffffff) :: u32;
          data2 = ucast (val AND 0xffffffff) :: u32
      in if pos < 0 then
           bind_res (write_u32 buffer data1 (-1)) (\<lambda>b. write_u32 b data2 (-1))
         else
           bind_res (write_u32 buffer data1 pos) (\<lambda>b. write_u32 b data2 (pos + 4)))"

section \<open>Closed forms\<close>

definition be16 :: "u16 \<Rightarrow> bytes" where
  "be16 v = [hi8 v, lo8 v]"

definition be32 :: "u32 \<Rightarrow> bytes" where
  "be32 v = be16 (ucast (drop_bit 16 v AND 0xffff)) @ be16 (ucast (v AND 0xffff))"

definition be64 :: "u64 \<Rightarrow> bytes" where
  "be64 v = be32 (ucast (drop_bit 32 v AND 0xffffffff)) @ be32 (ucast (v AND 0xffffffff))"

lemma length_be [simp]:
  "length (be16 v) = 2" "length (be32 w) = 4" "length (be64 x) = 8"
  by (simp_all add: be16_def be32_def be64_def)

text \<open>The vector after a write of \<open>xs\<close> at \<open>p\<close>: zeros fill a gap before \<open>p\<close>.\<close>

definition overwrite :: "bytes \<Rightarrow> nat \<Rightarrow> bytes \<Rightarrow> bytes" where
  "overwrite b p xs = take p (b @ replicate (p - length b) 0) @ xs @ drop (p + length xs) b"

lemma length_overwrite [simp]: "length (overwrite b p xs) = max (length b) (p + length xs)"
  by (auto simp: overwrite_def)

lemma overwrite_overwrite:
  "overwrite (overwrite b p xs) (p + length xs) ys = overwrite b p (xs @ ys)"
proof -
  let ?q = "take p (b @ replicate (p - length b) 0)"
  have q: "length ?q = p" by simp
  have o: "overwrite b p xs = ?q @ xs @ drop (p + length xs) b"
    by (simp only: overwrite_def)
  have "p + length xs - length (overwrite b p xs) = 0" by simp
  then have "overwrite (overwrite b p xs) (p + length xs) ys
      = take (p + length xs) (overwrite b p xs) @ ys @ drop (p + length xs + length ys) (overwrite b p xs)"
    by (simp add: overwrite_def [of "overwrite b p xs"])
  also have "take (p + length xs) (overwrite b p xs) = ?q @ xs"
    unfolding o by (metis append.assoc append_eq_conv_conj length_append q)
  also have "drop (p + length xs + length ys) (overwrite b p xs) = drop (p + length (xs @ ys)) b"
    unfolding o using q by (simp add: add.commute add.left_commute)
  finally show ?thesis by (simp add: overwrite_def [of b p "xs @ ys"])
qed

lemma nth_overwrite:
  "i < length (overwrite b p xs) \<Longrightarrow>
   overwrite b p xs ! i =
     (if i < p then (if i < length b then b ! i else 0)
      else if i < p + length xs then xs ! (i - p) else b ! i)"
  by (auto simp: overwrite_def nth_append min_def)

lemma write_u8_append [simp, wire_simps]: "write_u8 b v (-1) = Inr (b @ [v])"
  by (simp add: write_u8_def)

lemma write_u16_append [simp, wire_simps]: "write_u16 b v (-1) = Inr (b @ be16 v)"
  by (simp add: write_u16_def be16_def hi8_def lo8_def)

lemma write_u32_append [simp, wire_simps]: "write_u32 b v (-1) = Inr (b @ be32 v)"
  by (simp add: write_u32_def be32_def)

lemma write_u64_append [simp, wire_simps]: "write_u64 b v (-1) = Inr (b @ be64 v)"
  by (simp add: write_u64_def be64_def)

lemma write_u8_at: "int p < int_max \<Longrightarrow> write_u8 b v (int p) = Inr (overwrite b p [v])"
proof -
  assume "int p < int_max"
  moreover have "nat (int p + 1) = Suc p" by simp
  moreover have "(if length b < Suc p then b @ replicate (Suc p - length b) 0 else b)[p := v]
      = overwrite b p [v]"
    by (rule nth_equalityI) (auto simp: overwrite_def nth_append nth_list_update min_def)
  ultimately show ?thesis by (simp add: write_u8_def Let_def split: if_splits)
qed

lemma write_u16_at:
  assumes "int p + 1 < int_max"
  shows "write_u16 b v (int p) = Inr (overwrite b p (be16 v))"
proof -
  have p1: "int p + 1 = int (p + 1)" by simp
  have "overwrite (overwrite b p [hi8 v]) (p + 1) [lo8 v] = overwrite b p (be16 v)"
    using overwrite_overwrite [of b p "[hi8 v]" "[lo8 v]"] by (simp add: be16_def)
  then show ?thesis
    using assms write_u8_at [of p b "hi8 v"] write_u8_at [of "p + 1" "overwrite b p [hi8 v]" "lo8 v"]
    unfolding write_u16_def Let_def p1 hi8_def lo8_def by simp
qed

lemma write_u32_at:
  assumes "int p + 3 < int_max"
  shows "write_u32 b v (int p) = Inr (overwrite b p (be32 v))"
proof -
  let ?h = "ucast (drop_bit 16 v AND 0xffff) :: u16" and ?l = "ucast (v AND 0xffff) :: u16"
  have p2: "int p + 2 = int (p + 2)" by simp
  have "overwrite (overwrite b p (be16 ?h)) (p + 2) (be16 ?l) = overwrite b p (be32 v)"
    using overwrite_overwrite [of b p "be16 ?h" "be16 ?l"] by (simp add: be32_def)
  then show ?thesis
    using assms write_u16_at [of p b ?h] write_u16_at [of "p + 2" "overwrite b p (be16 ?h)" ?l]
    unfolding write_u32_def Let_def p2 by simp
qed

lemma write_u64_at:
  assumes "int p + 7 < int_max"
  shows "write_u64 b v (int p) = Inr (overwrite b p (be64 v))"
proof -
  let ?h = "ucast (drop_bit 32 v AND 0xffffffff) :: u32" and ?l = "ucast (v AND 0xffffffff) :: u32"
  have p4: "int p + 4 = int (p + 4)" by simp
  have "overwrite (overwrite b p (be32 ?h)) (p + 4) (be32 ?l) = overwrite b p (be64 v)"
    using overwrite_overwrite [of b p "be32 ?h" "be32 ?l"] by (simp add: be64_def)
  then show ?thesis
    using assms write_u32_at [of p b ?h] write_u32_at [of "p + 4" "overwrite b p (be32 ?h)" ?l]
    unfolding write_u64_def Let_def p4 by simp
qed

text \<open>Reads succeed exactly inside the vector, and never index past its end.\<close>

lemma read_u8_eq:
  "read_u8 b p = (if p < length b then Inr (b ! p) else throw_error ''read out of range'')"
  by (simp add: read_u8_def)

lemma read_u16_eq:
  "read_u16 b p =
     (if p + 2 \<le> length b then Inr (join_u16 (b ! p) (b ! (p + 1)))
      else throw_error ''read out of range'')"
  by (auto simp: read_u16_def read_u8_eq join_u16_def)

lemma read_u32_eq:
  "read_u32 b p =
     (if p + 4 \<le> length b
      then Inr (push_bit 16 (ucast (join_u16 (b ! p) (b ! (p + 1))))
                OR ucast (join_u16 (b ! (p + 2)) (b ! (p + 3))))
      else throw_error ''read out of range'')"
  by (auto simp: read_u32_def read_u16_eq numeral_Bit1)

lemma read_u64_eq_halves:
  "p + 8 \<le> length b \<Longrightarrow>
     \<exists>h l. read_u32 b p = Inr h \<and> read_u32 b (p + 4) = Inr l \<and>
           read_u64 b p = Inr (push_bit 32 (ucast h) OR ucast l)"
  by (simp add: read_u64_def read_u32_eq)

lemma read_u16_be16 [simp, wire_simps]: "read_u16 (xs @ be16 v @ ys) (length xs) = Inr v"
  by (simp add: read_u16_eq be16_def nth_append)

lemma read_u32_be32: "read_u32 (xs @ be32 v @ ys) (length xs) = Inr v"
proof -
  let ?h = "ucast (drop_bit 16 v AND 0xffff) :: u16" and ?l = "ucast (v AND 0xffff) :: u16"
  have h: "read_u16 (xs @ be32 v @ ys) (length xs) = Inr ?h"
    using read_u16_be16 [of xs ?h "be16 ?l @ ys"] by (simp add: be32_def)
  have l: "read_u16 (xs @ be32 v @ ys) (length xs + 2) = Inr ?l"
    using read_u16_be16 [of "xs @ be16 ?h" ?l ys] by (simp add: be32_def)
  have m: "(0xffff :: u32) = mask 16" by (simp add: mask_eq_exp_minus_1)
  have "push_bit 16 (ucast ?h) OR ucast ?l = v"
    unfolding m by (rule bit_word_eqI) (auto simp: bit_simps not_less dest: bit_imp_le_length)
  with h l show ?thesis by (simp add: read_u32_def)
qed

lemma read_u64_be64: "read_u64 (xs @ be64 v @ ys) (length xs) = Inr v"
proof -
  let ?h = "ucast (drop_bit 32 v AND 0xffffffff) :: u32" and ?l = "ucast (v AND 0xffffffff) :: u32"
  have h: "read_u32 (xs @ be64 v @ ys) (length xs) = Inr ?h"
    using read_u32_be32 [of xs ?h "be32 ?l @ ys"] by (simp add: be64_def)
  have l: "read_u32 (xs @ be64 v @ ys) (length xs + 4) = Inr ?l"
    using read_u32_be32 [of "xs @ be32 ?h" ?l ys] by (simp add: be64_def)
  have m: "(0xffffffff :: u64) = mask 32" by (simp add: mask_eq_exp_minus_1)
  have "push_bit 32 (ucast ?h) OR ucast ?l = v"
    unfolding m by (rule bit_word_eqI) (auto simp: bit_simps not_less dest: bit_imp_le_length)
  with h l show ?thesis by (simp add: read_u64_def)
qed

lemma read_never_ub:
  "no_ub (read_u8 b p)" "no_ub (read_u16 b p)" "no_ub (read_u32 b p)" "no_ub (read_u64 b p)"
  by (simp_all add: read_u8_eq read_u16_eq read_u32_eq read_u64_def)

lemma overwrite_split:
  assumes "p \<le> length b"
  shows "overwrite b p xs = take p b @ xs @ drop (p + length xs) b"
  using assms by (simp add: overwrite_def)

lemma overwrite_prefix: "\<exists>pre. length pre = p \<and> overwrite b p xs = pre @ xs @ drop (p + length xs) b"
  by (rule exI [of _ "take p (b @ replicate (p - length b) 0)"]) (auto simp: overwrite_def)

section \<open>The contract of a write\<close>

text \<open>A 64-bit value written at position \<open>p\<close> is read back at \<open>p\<close>, the bytes outside
  \<open>p .. p + 7\<close> are as before, and the vector grows just enough to hold the value.\<close>

theorem write_u64_read_back:
  assumes "int p + 7 < int_max"
  shows "\<exists>b'. write_u64 b v (int p) = Inr b' \<and> read_u64 b' p = Inr v \<and>
      length b' = max (length b) (p + 8) \<and>
      (\<forall>i < length b. i < p \<or> p + 8 \<le> i \<longrightarrow> b' ! i = b ! i)"
proof -
  let ?b = "overwrite b p (be64 v)"
  have "read_u64 ?b p = Inr v"
    using overwrite_prefix [of p b "be64 v"] read_u64_be64 by metis
  moreover have "\<forall>i < length b. i < p \<or> p + 8 \<le> i \<longrightarrow> ?b ! i = b ! i"
    using nth_overwrite [of _ b p "be64 v"] by auto
  ultimately show ?thesis
    using write_u64_at [OF assms, of b v] by simp
qed

theorem write_u64_read_back_witness:
  "\<exists>b'. write_u64 [1, 2, 3, 4] 0xAABBCCDD11223344 (int 3) = Inr b' \<and>
      read_u64 b' 3 = Inr 0xAABBCCDD11223344 \<and> length b' = 11 \<and> b' ! 2 = 3"
proof -
  have "int 3 + 7 < int_max" by (simp add: int_max_def)
  from write_u64_read_back [OF this, of "[1, 2, 3, 4]" "0xAABBCCDD11223344"] show ?thesis
    by fastforce
qed

text \<open>A read of 64 bits succeeds exactly when all eight bytes are inside the vector; otherwise it
  throws \<^verbatim>\<open>read out of range\<close>, and it never indexes past the end.\<close>

theorem read_u64_bounds:
  "(p + 8 \<le> length b \<and> (\<exists>v. read_u64 b p = Inr v)) \<or>
   (length b < p + 8 \<and> read_u64 b p = throw_error ''read out of range'')"
  by (auto simp: read_u64_def read_u32_eq)

end
