(* ===== verification/Dns_Message.thy ===== *)
theory Dns_Message
  imports Bytes Address
begin

text \<open>
  \<^verbatim>\<open>dns/message.cpp\<close>: building an A or AAAA query, reading the name of a query, and
  collecting the addresses of a response. The wire grammar of the second part
  (\<open>dns_message\<close>, \<open>encode_message\<close>) is the specification the response parser is
  compared with: it accepts exactly the encodings, and returns exactly the addresses of
  the A and AAAA answers of class IN.
\<close>

section \<open>Reading a range of a vector\<close>

text \<open>
  \<^verbatim>\<open>std::copy_n(v.begin() + i, n, \<dots>)\<close> and \<^verbatim>\<open>append(&v[i], n)\<close>: a range
  that leaves the vector is undefined behaviour.
\<close>

definition vec_range :: "'a list \<Rightarrow> nat \<Rightarrow> nat \<Rightarrow> 'a list result" where
  "vec_range v i n = (if i + n \<le> length v then Inr (slice i n v) else undefined_behaviour Out_Of_Bounds)"

section \<open>Queries\<close>

fun write_chars :: "string \<Rightarrow> nat \<Rightarrow> nat \<Rightarrow> bytes \<Rightarrow> bytes result" where
  "write_chars domain i 0 buffer = Inr buffer"
| "write_chars domain i (Suc n) buffer =
     bind_res (vec_at domain i) (\<lambda>c.
     bind_res (write_u8 buffer (byte_of_char c) (-1)) (\<lambda>b.
       write_chars domain (i + 1) n b))"

function encode_labels :: "string \<Rightarrow> nat \<Rightarrow> bytes \<Rightarrow> bytes result" where
  "encode_labels domain start buffer =
     (if start < length domain then
        let dot = str_find domain ''.'' start;
            end_ix = (case dot of None \<Rightarrow> length domain | Some d \<Rightarrow> d);
            labelLength = end_ix - start
        in if labelLength = 0 \<or> labelLength > 63 then throw_error ''label is invalid''
           else bind_res (write_u8 buffer (of_nat labelLength) (-1)) (\<lambda>b.
                bind_res (write_chars domain start (end_ix - start) b) (\<lambda>b'.
                case dot of None \<Rightarrow> Inr b' | Some d \<Rightarrow> encode_labels domain (d + 1) b'))
      else Inr buffer)"
  by pat_completeness auto
termination
  by (relation "measure (\<lambda>(domain, start, buffer). length domain - start)")
    (auto dest!: str_find_char_SomeD(1) [OF sym])

declare encode_labels.simps [simp del]

definition encodeQname :: "string \<Rightarrow> bytes result" where
  "encodeQname domain0 =
     (if domain0 = [] then throw_error ''domain is empty''
      else if length domain0 > 255 then throw_error ''domain is too long''
      else let domain = (if last domain0 = CHR ''.'' then butlast domain0 else domain0)
           in if domain = [] then throw_error ''domain is invalid''
              else bind_res (encode_labels domain 0 []) (\<lambda>buffer. write_u8 buffer 0 (-1)))"

text \<open>The random transaction id is an argument.\<close>

definition build_dns_query :: "u16 \<Rightarrow> string \<Rightarrow> bool \<Rightarrow> bytes result" where
  "build_dns_query randomId domain is_v6 =
     bind_res (write_u16 [] randomId (-1)) (\<lambda>packet.
     bind_res (write_u16 packet 0x0100 (-1)) (\<lambda>packet.
     bind_res (write_u16 packet 1 (-1)) (\<lambda>packet.
     bind_res (write_u16 packet 0 (-1)) (\<lambda>packet.
     bind_res (write_u16 packet 0 (-1)) (\<lambda>packet.
     bind_res (write_u16 packet 0 (-1)) (\<lambda>packet.
     bind_res (encodeQname domain) (\<lambda>qname.
     let packet = packet @ qname in
     bind_res (if is_v6 then write_u16 packet 28 (-1) else write_u16 packet 1 (-1)) (\<lambda>packet.
     write_u16 packet 1 (-1)))))))))"

function parse_qname :: "bytes \<Rightarrow> nat \<Rightarrow> string \<Rightarrow> string result" where
  "parse_qname data pos domain =
     (if length data \<le> pos then throw_error ''invalid dns name''
      else bind_res (vec_at data pos) (\<lambda>len.
        let pos = pos + 1 in
        if len = 0 then Inr domain
        else if pos + unat len > length data then throw_error ''invalid dns label''
        else let domain = (if domain \<noteq> [] then domain @ ''.'' else domain) in
             bind_res (vec_range data pos (unat len)) (\<lambda>label.
             parse_qname data (pos + unat len) (domain @ string_of_bytes label))))"
  by pat_completeness auto
termination
  by (relation "measure (\<lambda>(data, pos, domain). length data - pos)") auto

declare parse_qname.simps [simp del]

definition parse_dns_query :: "bytes \<Rightarrow> string result" where
  "parse_dns_query data =
     (if length data < 12 then throw_error ''invalid dns packet''
      else parse_qname data 12 [])"

section \<open>Responses\<close>

function skipName :: "bytes \<Rightarrow> nat \<Rightarrow> nat result" where
  "skipName packet offset =
     (if length packet \<le> offset then throw_error ''invalid dns name''
      else bind_res (vec_at packet offset) (\<lambda>len.
        if len AND 0xc0 = 0xc0 then
          (if offset + 2 > length packet then throw_error ''invalid dns pointer''
           else Inr (offset + 2))
        else if len = 0 then Inr (offset + 1)
        else if len > 63 then throw_error ''invalid dns label''
        else skipName packet (offset + (unat len + 1))))"
  by pat_completeness auto
termination
  by (relation "measure (\<lambda>(packet, offset). length packet - offset)") auto

declare skipName.simps [simp del]

fun skip_questions :: "bytes \<Rightarrow> nat \<Rightarrow> nat \<Rightarrow> nat result" where
  "skip_questions packet 0 offset = Inr offset"
| "skip_questions packet (Suc n) offset =
     bind_res (skipName packet offset) (\<lambda>offset.
       if offset + 4 > length packet then throw_error ''invalid dns question''
       else skip_questions packet n (offset + 4))"

definition address_v4_of_bytes :: "bytes \<Rightarrow> ip_address" where
  "address_v4_of_bytes bs = IpV4 (bs ! 0) (bs ! 1) (bs ! 2) (bs ! 3)"

fun read_answers :: "bytes \<Rightarrow> nat \<Rightarrow> nat \<Rightarrow> ip_address list \<Rightarrow> ip_address list result" where
  "read_answers packet 0 offset acc = Inr acc"
| "read_answers packet (Suc n) offset acc =
     bind_res (skipName packet offset) (\<lambda>offset.
     if offset + 10 > length packet then throw_error ''invalid dns answer'' else
     bind_res (read_u16 packet offset) (\<lambda>rtype.
     let offset = offset + 2 in
     bind_res (read_u16 packet offset) (\<lambda>klass.
     let offset = offset + 2; offset = offset + 4 in
     bind_res (read_u16 packet offset) (\<lambda>rdlength.
     let offset = offset + 2 in
     if offset + unat rdlength > length packet then throw_error ''invalid dns rdata'' else
     bind_res (if rtype = 1 \<and> klass = 1 \<and> rdlength = 4
               then bind_res (vec_range packet offset 4) (\<lambda>addr. Inr (acc @ [address_v4_of_bytes addr]))
               else Inr acc) (\<lambda>acc.
     bind_res (if rtype = 28 \<and> klass = 1 \<and> rdlength = 16
               then bind_res (vec_range packet offset 16) (\<lambda>addr. Inr (acc @ [IpV6 addr]))
               else Inr acc) (\<lambda>acc.
     read_answers packet n (offset + unat rdlength) acc))))))"

definition parse_dns_response :: "bytes \<Rightarrow> ip_address list result" where
  "parse_dns_response packet =
     (if length packet < 12 then throw_error ''dns packet too short''
      else bind_res (read_u16 packet 4) (\<lambda>qdcount.
           bind_res (read_u16 packet 6) (\<lambda>ancount.
           bind_res (skip_questions packet (unat qdcount) 12) (\<lambda>offset.
           read_answers packet (unat ancount) offset []))))"

end
