(* ===== verification/Dns_Query.thy ===== *)
theory Dns_Query
  imports Dns_Message
begin

text \<open>
  The query half of \<^verbatim>\<open>dns/message.cpp\<close>: which domains \<^verbatim>\<open>encodeQname\<close> accepts
  and what it writes, that \<^verbatim>\<open>parse_dns_query\<close> reads the domain of a built query
  back, and that neither ever leaves its buffer.
\<close>

section \<open>The labels of a domain\<close>

text \<open>
  The labels as the encoder cuts them: text before each dot, and no label behind a final
  dot.
\<close>

function labels :: "string \<Rightarrow> string list" where
  "labels s =
     (if s = [] then []
      else takeWhile (\<lambda>c. c \<noteq> CHR ''.'') s # labels (drop 1 (dropWhile (\<lambda>c. c \<noteq> CHR ''.'') s)))"
  by pat_completeness auto
termination
  by (relation "measure length") (auto simp: less_Suc_eq_le le_imp_less_Suc intro: diff_less_Suc
      le_less_trans [OF diff_le_mono [OF length_dropWhile_le]])

declare labels.simps [simp del]

definition wf_label :: "string \<Rightarrow> bool" where
  "wf_label l \<longleftrightarrow> 1 \<le> length l \<and> length l \<le> 63"

definition encode_label :: "string \<Rightarrow> bytes" where
  "encode_label l = of_nat (length l) # bytes_of_string l"

lemma labels_Nil [simp]: "labels [] = []"
  by (simp add: labels.simps)

lemma labels_no_dot: "s \<noteq> [] \<Longrightarrow> CHR ''.'' \<notin> set s \<Longrightarrow> labels s = [s]"
proof -
  assume "s \<noteq> []" "CHR ''.'' \<notin> set s"
  moreover from this have "takeWhile (\<lambda>c. c \<noteq> CHR ''.'') s = s" "dropWhile (\<lambda>c. c \<noteq> CHR ''.'') s = []"
    by (auto simp: takeWhile_eq_all_conv dropWhile_eq_Nil_conv)
  ultimately show ?thesis
    by (subst labels.simps) (simp del: dropWhile_eq_Nil_conv takeWhile_eq_all_conv)
qed

lemma labels_dot: "CHR ''.'' \<notin> set l \<Longrightarrow> labels (l @ CHR ''.'' # s) = l # labels s"
  by (subst labels.simps) (auto simp: takeWhile_append2 dropWhile_append2 takeWhile_append dropWhile_append)

section \<open>The encoder\<close>

lemma write_chars_eq:
  "i + n \<le> length d \<Longrightarrow> write_chars d i n b = Inr (b @ bytes_of_string (slice i n d))"
  by (induction n arbitrary: i b) (auto simp: slice_Suc)

lemma encode_labels_eq:
  "start \<le> length d \<Longrightarrow>
   encode_labels d start b =
     (if list_all wf_label (labels (drop start d))
      then Inr (b @ concat (map encode_label (labels (drop start d))))
      else throw_error ''label is invalid'')"
proof (induction d start b rule: encode_labels.induct)
  case (1 d start b)
  show ?case
  proof (cases "start < length d")
    case False
    then show ?thesis by (simp add: encode_labels.simps [of d start b])
  next
    case True
    show ?thesis
    proof (cases "str_find d ''.'' start")
      case None
      then have "CHR ''.'' \<notin> set (drop start d)" by (rule str_find_char_None)
      then have "labels (drop start d) = [drop start d]"
        using True by (simp add: labels_no_dot)
      then show ?thesis
        using True None
        by (auto simp: encode_labels.simps [of d start b] write_chars_eq wf_label_def encode_label_def
            slice_def)
    next
      case (Some dot)
      note dot = str_find_char_SomeD [OF Some]
      define l where "l = slice start (dot - start) d"
      have len: "length l = dot - start" using dot by (simp add: l_def)
      have "drop start d = l @ drop dot d"
        using dot drop_eq_slice [of start "dot - start" d] by (simp add: l_def)
      also have "drop dot d = CHR ''.'' # drop (dot + 1) d"
        using dot by (metis Cons_nth_drop_Suc Suc_eq_plus1)
      finally have "labels (drop start d) = l # labels (drop (dot + 1) d)"
        using dot(4) by (simp add: labels_dot l_def)
      moreover have "encode_labels d (dot + 1) b' =
          (if list_all wf_label (labels (drop (dot + 1) d))
           then Inr (b' @ concat (map encode_label (labels (drop (dot + 1) d))))
           else throw_error ''label is invalid'')"
        if "wf_label l" "b' = b @ encode_label l" for b'
      proof (rule "1.IH" [OF True refl refl refl _ _ _ Some])
        show "\<not> ((case str_find d ''.'' start of None \<Rightarrow> length d | Some d \<Rightarrow> d) - start = 0 \<or>
            63 < (case str_find d ''.'' start of None \<Rightarrow> length d | Some d \<Rightarrow> d) - start)"
          using that(1) len Some by (simp add: wf_label_def) linarith
        show "write_u8 b (of_nat ((case str_find d ''.'' start of None \<Rightarrow> length d | Some d \<Rightarrow> d) - start)) (-1)
            = Inr (b @ [of_nat (length l)])"
          using Some len by simp
        show "write_chars d start ((case str_find d ''.'' start of None \<Rightarrow> length d | Some d \<Rightarrow> d) - start)
            (b @ [of_nat (length l)]) = Inr b'"
          using Some len dot that(2) by (simp add: write_chars_eq encode_label_def l_def)
        show "dot + 1 \<le> length d" using dot by simp
      qed
      moreover have "write_chars d start (dot - start) b' = Inr (b' @ bytes_of_string l)" for b'
        using dot by (simp add: write_chars_eq l_def)
      moreover have "encode_labels d start b =
          (if wf_label l then encode_labels d (dot + 1) (b @ encode_label l)
           else throw_error ''label is invalid'')"
        using True Some len \<open>\<And>b'. write_chars d start (dot - start) b' = Inr (b' @ bytes_of_string l)\<close>
        by (auto simp: encode_labels.simps [of d start b] wf_label_def encode_label_def Let_def)
      ultimately show ?thesis by (auto simp: append_assoc)
    qed
  qed
qed

definition strip_dot :: "string \<Rightarrow> string" where
  "strip_dot d = (if d \<noteq> [] \<and> last d = CHR ''.'' then butlast d else d)"

definition accepted_domain :: "string \<Rightarrow> bool" where
  "accepted_domain d \<longleftrightarrow>
     d \<noteq> [] \<and> length d \<le> 255 \<and> strip_dot d \<noteq> [] \<and> list_all wf_label (labels (strip_dot d))"

definition qname_of :: "string \<Rightarrow> bytes" where
  "qname_of d = concat (map encode_label (labels (strip_dot d))) @ [0]"

lemma encodeQname_eq:
  "encodeQname d =
     (if d = [] then throw_error ''domain is empty''
      else if length d > 255 then throw_error ''domain is too long''
      else if strip_dot d = [] then throw_error ''domain is invalid''
      else if list_all wf_label (labels (strip_dot d)) then Inr (qname_of d)
      else throw_error ''label is invalid'')"
proof (cases "d = []")
  case True
  then show ?thesis by (simp add: encodeQname_def)
next
  case False
  then have "(if last d = CHR ''.'' then butlast d else d) = strip_dot d"
    by (simp add: strip_dot_def)
  with False show ?thesis
    unfolding encodeQname_def Let_def by (simp add: encode_labels_eq qname_of_def)
qed

lemma encodeQname_accepts: "accepted_domain d \<Longrightarrow> encodeQname d = Inr (qname_of d)"
  by (simp add: encodeQname_eq accepted_domain_def)

lemma encodeQname_rejects:
  "\<not> accepted_domain d \<Longrightarrow>
   \<exists>msg \<in> {''domain is empty'', ''domain is too long'', ''domain is invalid'', ''label is invalid''}.
     encodeQname d = throw_error msg"
  by (auto simp: encodeQname_eq accepted_domain_def)

lemma encodeQname_iff: "encodeQname d = Inr q \<longleftrightarrow> accepted_domain d \<and> q = qname_of d"
  using encodeQname_accepts [of d] encodeQname_rejects [of d] by (cases "accepted_domain d") auto

definition query_header :: "u16 \<Rightarrow> bytes" where
  "query_header randomId = be16 randomId @ be16 0x0100 @ be16 1 @ be16 0 @ be16 0 @ be16 0"

lemma build_dns_query_eq:
  "build_dns_query i d v6 =
     bind_res (encodeQname d) (\<lambda>q. Inr (query_header i @ q @ be16 (if v6 then 28 else 1) @ be16 1))"
  by (simp add: build_dns_query_def query_header_def Let_def bind_res_def split: sum.splits)

lemma length_query_header [simp]: "length (query_header i) = 12"
  by (simp add: query_header_def)

section \<open>The parser\<close>

fun join_dots :: "string \<Rightarrow> string list \<Rightarrow> string" where
  "join_dots acc [] = acc"
| "join_dots acc (l # ls) = join_dots ((if acc \<noteq> [] then acc @ ''.'' else acc) @ l) ls"

lemma unat_label_length: "wf_label l \<Longrightarrow> unat (of_nat (length l) :: u8) = length l"
  by (rule unat_of_nat_u8) (simp add: wf_label_def)

lemma label_length_nonzero: "wf_label l \<Longrightarrow> (of_nat (length l) :: u8) \<noteq> 0"
  using unat_label_length [of l] by (auto simp: wf_label_def)

lemma parse_qname_labels:
  "list_all wf_label ls \<Longrightarrow>
   parse_qname (pre @ concat (map encode_label ls) @ 0 # post) (length pre) acc
     = Inr (join_dots acc ls)"
proof (induction ls arbitrary: pre acc)
  case Nil
  show ?case by (simp add: parse_qname.simps [of "pre @ 0 # post"])
next
  case (Cons l ls)
  then have l: "wf_label l" and ls: "list_all wf_label ls" by simp_all
  let ?tail = "concat (map encode_label ls) @ 0 # post"
  let ?n = "of_nat (length l) :: u8"
  let ?data = "pre @ ?n # bytes_of_string l @ ?tail"
  have data: "pre @ concat (map encode_label (l # ls)) @ 0 # post = ?data"
    by (simp add: encode_label_def)
  have at: "vec_at ?data (length pre) = Inr ?n" by simp
  have range: "vec_range ?data (length pre + 1) (length l) = Inr (bytes_of_string l)"
    using slice_append [of pre 1 "length l" "?n # bytes_of_string l @ ?tail"]
    by (simp add: vec_range_def) (simp add: slice_def)
  let ?acc = "(if acc \<noteq> [] then acc @ ''.'' else acc) @ l"
  have "parse_qname ((pre @ ?n # bytes_of_string l) @ ?tail) (length (pre @ ?n # bytes_of_string l)) ?acc
      = Inr (join_dots ?acc ls)"
    by (rule Cons.IH [OF ls])
  then have rec: "parse_qname ?data (length pre + 1 + length l) ?acc = Inr (join_dots ?acc ls)"
    by simp
  show ?case
    unfolding data using rec
    by (subst parse_qname.simps, cases "acc = []")
      (simp_all add: at range [simplified] unat_label_length [OF l] label_length_nonzero [OF l])
qed

text \<open>Joining the labels of a domain gives it back, but for one final dot.\<close>

lemma join_dots_acc:
  "acc \<noteq> [] \<Longrightarrow> join_dots acc ls = acc @ concat (map (\<lambda>l. CHR ''.'' # l) ls)"
  by (induction ls arbitrary: acc) auto

lemma dotted_labels:
  "list_all wf_label (labels s) \<Longrightarrow> s \<noteq> [] \<Longrightarrow>
   concat (map (\<lambda>l. CHR ''.'' # l) (labels s)) = CHR ''.'' # strip_dot s"
proof (induction s rule: labels.induct)
  case (1 s)
  let ?l = "takeWhile (\<lambda>c. c \<noteq> CHR ''.'') s" and ?r = "dropWhile (\<lambda>c. c \<noteq> CHR ''.'') s"
  have ls: "labels s = ?l # labels (drop 1 ?r)"
    using 1 by (subst labels.simps) simp
  have l: "wf_label ?l" and IH: "drop 1 ?r \<noteq> [] \<Longrightarrow>
      concat (map (\<lambda>l. CHR ''.'' # l) (labels (drop 1 ?r))) = CHR ''.'' # strip_dot (drop 1 ?r)"
    using 1 ls by auto
  have s: "s = ?l @ ?r" by simp
  show ?case
  proof (cases ?r)
    case Nil
    then have "CHR ''.'' \<notin> set s" by (auto simp: dropWhile_eq_Nil_conv)
    then have "last s \<noteq> CHR ''.''" using "1.prems"(2) by (metis last_in_set)
    moreover have "?l = s" using Nil by (metis append_Nil2 takeWhile_dropWhile_id)
    ultimately show ?thesis
      using Nil ls by (simp add: strip_dot_def del: dropWhile_eq_Nil_conv takeWhile_eq_all_conv)
  next
    case (Cons c r)
    then have c: "c = CHR ''.''" by (metis (mono_tags) hd_dropWhile list.discI list.sel(1))
    show ?thesis
    proof (cases "r = []")
      case True
      then have "s = ?l @ ''.''" using s Cons c by metis
      then have "strip_dot s = ?l" by (metis butlast_snoc last_snoc snoc_eq_iff_butlast strip_dot_def)
      with Cons True ls show ?thesis by simp
    next
      case False
      have "s = ?l @ CHR ''.'' # r" using s Cons c by metis
      then have "strip_dot s = ?l @ CHR ''.'' # strip_dot r"
        using False by (metis (no_types, lifting) append_is_Nil_conv butlast.simps(2) butlast_append
            last_ConsR last_append list.distinct(1) strip_dot_def)
      with Cons False ls IH show ?thesis by simp
    qed
  qed
qed

lemma join_dots_labels:
  assumes "list_all wf_label (labels s)" "s \<noteq> []"
  shows "join_dots [] (labels s) = strip_dot s"
proof -
  obtain l ls where ls: "labels s = l # ls"
    using assms(2) labels.simps [of s] by (auto split: if_splits)
  have "l \<noteq> []" using assms(1) ls by (auto simp: wf_label_def)
  then have "CHR ''.'' # join_dots [] (labels s) = concat (map (\<lambda>l. CHR ''.'' # l) (labels s))"
    by (simp add: ls join_dots_acc)
  also have "\<dots> = CHR ''.'' # strip_dot s"
    by (rule dotted_labels [OF assms])
  finally show ?thesis by simp
qed

lemma query_roundtrip:
  assumes "build_dns_query i d v6 = Inr q"
  shows "parse_dns_query q = Inr (strip_dot (strip_dot d))"
proof -
  from assms have acc: "accepted_domain d"
    and q: "q = query_header i @ qname_of d @ be16 (if v6 then 28 else 1) @ be16 1"
    by (auto simp: build_dns_query_eq encodeQname_iff)
  let ?ls = "labels (strip_dot d)"
  have ls: "list_all wf_label ?ls" "strip_dot d \<noteq> []"
    using acc by (simp_all add: accepted_domain_def)
  have "parse_qname q (length (query_header i)) [] = Inr (join_dots [] ?ls)"
    unfolding q qname_of_def append.assoc append_Cons append_Nil by (rule parse_qname_labels [OF ls(1)])
  also have "join_dots [] ?ls = strip_dot (strip_dot d)"
    by (rule join_dots_labels [OF ls])
  finally show ?thesis by (simp add: parse_dns_query_def q)
qed

section \<open>Memory safety\<close>

lemma no_ub_parse_qname: "no_ub (parse_qname data pos domain)"
proof (induction "length data - pos" arbitrary: pos domain rule: less_induct)
  case less
  show ?case
    by (subst parse_qname.simps) (auto intro!: no_ub_bind less simp: Let_def vec_range_def)
qed

lemma no_ub_parse_dns_query: "no_ub (parse_dns_query data)"
  by (simp add: parse_dns_query_def no_ub_parse_qname)

lemma no_ub_encodeQname: "no_ub (encodeQname d)"
  using encodeQname_accepts [of d] encodeQname_rejects [of d] by (cases "accepted_domain d") auto

section \<open>Properties\<close>

text \<open>C21: a name is encoded exactly when it is accepted, and then as its labels behind their
  lengths and a zero; every other name is refused with one of the code's four messages.\<close>

theorem encodeQname_exact:
  "(if accepted_domain d then encodeQname d = Inr (qname_of d)
    else encodeQname d \<in> throw_error ` {''domain is empty'', ''domain is too long'', ''domain is invalid'',
                                         ''label is invalid''})"
  using encodeQname_accepts [of d] encodeQname_rejects [of d] by auto

text \<open>C16: the query parser reads back the name of every query the builder produces, without its
  trailing dots, for both query types and every transaction id.\<close>

theorem query_name_roundtrip:
  "build_dns_query i d v6 = Inr q \<Longrightarrow> parse_dns_query q = Inr (strip_dot (strip_dot d))"
  by (rule query_roundtrip)

lemma build_sample_query:
  "build_dns_query 7 ''a.io.'' True =
     Inr [0, 7, 1, 0, 0, 1, 0, 0, 0, 0, 0, 0, 1, 0x61, 2, 0x69, 0x6F, 0, 0, 28, 0, 1]"
  by code_simp

theorem query_name_roundtrip_witness:
  "parse_dns_query [0, 7, 1, 0, 0, 1, 0, 0, 0, 0, 0, 0, 1, 0x61, 2, 0x69, 0x6F, 0, 0, 28, 0, 1] = Inr ''a.io''"
  using query_name_roundtrip [OF build_sample_query] by (simp add: strip_dot_def)

text \<open>On any bytes at all, the query parser either returns a name or throws; it never reads
  outside its input.\<close>

theorem parse_dns_query_memory_safe: "no_ub (parse_dns_query data)"
  by (rule no_ub_parse_dns_query)

end
