(* ===== verification/Dns_Response.thy ===== *)
theory Dns_Response
  imports Dns_Message
begin

text \<open>
  The response half of \<^verbatim>\<open>dns/message.cpp\<close> against a grammar of DNS messages:
  \<open>dns_message\<close> is the parsed form, \<open>encode_message\<close> its wire form. The parser
  accepts exactly the well-formed encodings, returns the addresses of their A and AAAA
  answers in order, and never leaves its buffer.
\<close>

section \<open>The grammar\<close>

datatype name_end = Root | Pointer u8 u8

datatype wire_name = Wire_Name "bytes list" name_end

datatype question = Question wire_name u16 u16

record resource =
  rr_name :: wire_name
  rr_type :: u16
  rr_class :: u16
  rr_ttl :: bytes
  rr_data :: bytes

record dns_message =
  msg_id :: u16
  msg_flags :: u16
  msg_nscount :: u16
  msg_arcount :: u16
  msg_questions :: "question list"
  msg_answers :: "resource list"
  msg_trailer :: bytes

fun encode_end :: "name_end \<Rightarrow> bytes" where
  "encode_end Root = [0]"
| "encode_end (Pointer h l) = [h, l]"

fun wf_end :: "name_end \<Rightarrow> bool" where
  "wf_end Root = True"
| "wf_end (Pointer h l) = (h AND 0xc0 = 0xc0)"

definition wf_wire_label :: "bytes \<Rightarrow> bool" where
  "wf_wire_label l \<longleftrightarrow> 1 \<le> length l \<and> length l \<le> 63"

fun encode_name :: "wire_name \<Rightarrow> bytes" where
  "encode_name (Wire_Name ls e) = concat (map (\<lambda>l. of_nat (length l) # l) ls) @ encode_end e"

fun wf_name :: "wire_name \<Rightarrow> bool" where
  "wf_name (Wire_Name ls e) \<longleftrightarrow> list_all wf_wire_label ls \<and> wf_end e"

fun encode_question :: "question \<Rightarrow> bytes" where
  "encode_question (Question n t c) = encode_name n @ be16 t @ be16 c"

fun wf_question :: "question \<Rightarrow> bool" where
  "wf_question (Question n t c) = wf_name n"

definition encode_resource :: "resource \<Rightarrow> bytes" where
  "encode_resource r =
     encode_name (rr_name r) @ be16 (rr_type r) @ be16 (rr_class r) @ rr_ttl r @
     be16 (of_nat (length (rr_data r))) @ rr_data r"

definition wf_resource :: "resource \<Rightarrow> bool" where
  "wf_resource r \<longleftrightarrow> wf_name (rr_name r) \<and> length (rr_ttl r) = 4 \<and> length (rr_data r) < 65536"

text \<open>The addresses an answer contributes.\<close>

definition rdata_addresses :: "u16 \<Rightarrow> u16 \<Rightarrow> bytes \<Rightarrow> ip_address list" where
  "rdata_addresses t c d =
     (if t = 1 \<and> c = 1 \<and> length d = 4 then [address_v4_of_bytes d]
      else if t = 28 \<and> c = 1 \<and> length d = 16 then [IpV6 d]
      else [])"

definition resource_addresses :: "resource \<Rightarrow> ip_address list" where
  "resource_addresses r = rdata_addresses (rr_type r) (rr_class r) (rr_data r)"

definition encode_message :: "dns_message \<Rightarrow> bytes" where
  "encode_message m =
     be16 (msg_id m) @ be16 (msg_flags m) @
     be16 (of_nat (length (msg_questions m))) @ be16 (of_nat (length (msg_answers m))) @
     be16 (msg_nscount m) @ be16 (msg_arcount m) @
     concat (map encode_question (msg_questions m)) @
     concat (map encode_resource (msg_answers m)) @ msg_trailer m"

definition wf_message :: "dns_message \<Rightarrow> bool" where
  "wf_message m \<longleftrightarrow>
     length (msg_questions m) < 65536 \<and> length (msg_answers m) < 65536 \<and>
     list_all wf_question (msg_questions m) \<and> list_all wf_resource (msg_answers m)"

definition message_addresses :: "dns_message \<Rightarrow> ip_address list" where
  "message_addresses m = concat (map resource_addresses (msg_answers m))"

section \<open>Skipping a name\<close>

lemma label_not_pointer: "unat (len :: u8) \<le> 63 \<Longrightarrow> len AND 0xc0 \<noteq> 0xc0"
proof
  assume le: "unat len \<le> 63" and "len AND 0xc0 = 0xc0"
  then have "0xc0 \<le> len" by (metis word_and_le2)
  then show False using le by (simp add: word_le_nat_alt)
qed

lemma zero_not_pointer: "(0 :: u8) AND 0xc0 \<noteq> 0xc0"
  by simp

lemma unat_wire_label: "wf_wire_label l \<Longrightarrow> unat (of_nat (length l) :: u8) = length l"
  by (rule unat_of_nat_u8) (simp add: wf_wire_label_def)

lemma skipName_name_end:
  "wf_end e \<Longrightarrow>
   skipName (pre @ encode_end e @ post) (length pre) = Inr (length pre + length (encode_end e))"
  by (cases e) (simp_all add: skipName.simps [of "pre @ _" "length pre"])

lemma skipName_label:
  assumes "wf_wire_label l"
  shows "skipName (pre @ of_nat (length l) # l @ rest) (length pre) =
         skipName ((pre @ of_nat (length l) # l) @ rest) (length (pre @ of_nat (length l) # l))"
proof -
  let ?n = "of_nat (length l) :: u8"
  have n: "unat ?n = length l" by (rule unat_wire_label [OF assms])
  have bounds: "1 \<le> length l" "length l \<le> 63" using assms by (simp_all add: wf_wire_label_def)
  have c: "?n AND 0xc0 \<noteq> 0xc0" "?n \<noteq> 0" "\<not> ?n > 63"
    using n bounds label_not_pointer [of ?n] by (auto simp: word_less_nat_alt)
  show ?thesis
    by (subst skipName.simps) (simp add: c n)
qed

lemma skipName_encode:
  "list_all wf_wire_label ls \<Longrightarrow> wf_end e \<Longrightarrow>
   skipName (pre @ encode_name (Wire_Name ls e) @ post) (length pre) =
     Inr (length pre + length (encode_name (Wire_Name ls e)))"
proof (induction ls arbitrary: pre)
  case Nil
  then show ?case using skipName_name_end [of e pre post] by simp
next
  case (Cons l ls)
  then have l: "wf_wire_label l" and ls: "list_all wf_wire_label ls" and e: "wf_end e" by simp_all
  let ?pre = "pre @ of_nat (length l) # l"
  have "skipName (?pre @ encode_name (Wire_Name ls e) @ post) (length ?pre)
      = Inr (length ?pre + length (encode_name (Wire_Name ls e)))"
    by (rule Cons.IH [OF ls e])
  then show ?case
    using skipName_label [OF l, of pre "encode_name (Wire_Name ls e) @ post"] by simp
qed

lemma skipName_encode_name:
  "wf_name nm \<Longrightarrow>
   skipName (pre @ encode_name nm @ post) (length pre) = Inr (length pre + length (encode_name nm))"
  by (cases nm) (metis skipName_encode wf_name.simps)

lemma skipName_decode:
  "skipName p o1 = Inr o2 \<Longrightarrow>
     \<exists>nm. wf_name nm \<and> o2 = o1 + length (encode_name nm) \<and> o2 \<le> length p \<and>
          drop o1 p = encode_name nm @ drop o2 p"
proof (induction "length p - o1" arbitrary: o1 rule: less_induct)
  case less
  note eq = skipName.simps [of p o1]
  have lt: "o1 < length p" using less.prems eq by (auto split: if_splits)
  let ?len = "p ! o1"
  have hd: "drop o1 p = ?len # drop (Suc o1) p" using lt by (simp add: Cons_nth_drop_Suc)
  show ?case
  proof (cases "?len AND 0xc0 = 0xc0")
    case True
    with less.prems eq lt have o2: "o2 = o1 + 2" "o1 + 2 \<le> length p" by (auto split: if_splits)
    then have "drop o1 p = [?len, p ! Suc o1] @ drop o2 p"
      using hd by (simp add: Cons_nth_drop_Suc)
    with True o2 show ?thesis
      by (intro exI [of _ "Wire_Name [] (Pointer ?len (p ! Suc o1))"]) simp
  next
    case np: False
    show ?thesis
    proof (cases "?len = 0")
      case True
      with np less.prems eq lt have "o2 = o1 + 1" by auto
      with True hd lt show ?thesis by (intro exI [of _ "Wire_Name [] Root"]) simp
    next
      case nz: False
      with np less.prems eq lt have le: "\<not> ?len > 63"
        and rec: "skipName p (o1 + (unat ?len + 1)) = Inr o2"
        by (auto split: if_splits)
      let ?o = "o1 + (unat ?len + 1)" and ?l = "slice (Suc o1) (unat ?len) p"
      have dec: "length p - ?o < length p - o1" using lt by simp
      from less.hyps [OF dec rec] obtain nm where nm: "wf_name nm" "o2 = ?o + length (encode_name nm)"
        "o2 \<le> length p" "drop ?o p = encode_name nm @ drop o2 p" by blast
      obtain ls e where nm_eq: "nm = Wire_Name ls e" by (cases nm)
      have fits: "Suc o1 + unat ?len \<le> length p" using nm by simp
      have len: "length ?l = unat ?len" using fits by simp
      have ub: "unat ?len \<le> 63" "unat ?len \<noteq> 0" using le nz by (simp_all add: word_less_nat_alt unat_eq_0)
      have "drop (Suc o1) p = ?l @ drop ?o p"
        using drop_eq_slice [OF fits] by simp
      then have "drop o1 p = encode_name (Wire_Name (?l # ls) e) @ drop o2 p"
        using hd nm(4) nm_eq len by (simp add: word_of_nat_eq_iff)
      moreover have "wf_name (Wire_Name (?l # ls) e)"
        using nm(1) nm_eq len ub by (simp add: wf_wire_label_def)
      moreover have "o2 = o1 + length (encode_name (Wire_Name (?l # ls) e))"
        using nm(2) nm_eq len by simp
      ultimately show ?thesis using nm(3) by blast
    qed
  qed
qed

section \<open>Questions\<close>

lemma skip_questions_encode:
  "list_all wf_question qs \<Longrightarrow>
   skip_questions (pre @ concat (map encode_question qs) @ post) (length qs) (length pre) =
     Inr (length pre + length (concat (map encode_question qs)))"
proof (induction qs arbitrary: pre)
  case Nil
  then show ?case by simp
next
  case (Cons q qs)
  obtain n t c where q: "q = Question n t c" by (cases q)
  with Cons.prems have n: "wf_name n" and qs: "list_all wf_question qs" by simp_all
  let ?rest = "concat (map encode_question qs) @ post"
  let ?p = "pre @ encode_name n @ be16 t @ be16 c @ ?rest"
  have "skipName ?p (length pre) = Inr (length pre + length (encode_name n))"
    by (rule skipName_encode_name [OF n])
  moreover have "skip_questions ?p (length qs) (length pre + length (encode_name n) + 4)
      = Inr (length pre + length (encode_name n) + 4 + length (concat (map encode_question qs)))"
    using Cons.IH [OF qs, of "pre @ encode_question q"] q by (simp add: add.assoc)
  ultimately show ?case using q by simp
qed

lemma skip_questions_decode:
  "skip_questions p n o1 = Inr o2 \<Longrightarrow> o1 \<le> length p \<Longrightarrow>
     \<exists>qs. length qs = n \<and> list_all wf_question qs \<and> o2 \<le> length p \<and>
          drop o1 p = concat (map encode_question qs) @ drop o2 p"
proof (induction n arbitrary: o1)
  case 0
  then show ?case by simp
next
  case (Suc n)
  then obtain om where om: "skipName p o1 = Inr om" and fits: "om + 4 \<le> length p"
    and rec: "skip_questions p n (om + 4) = Inr o2"
    by (auto split: if_splits)
  from skipName_decode [OF om] obtain nm where nm: "wf_name nm" "drop o1 p = encode_name nm @ drop om p"
    by blast
  from Suc.IH [OF rec] fits obtain qs where qs: "length qs = n" "list_all wf_question qs" "o2 \<le> length p"
    "drop (om + 4) p = concat (map encode_question qs) @ drop o2 p" by auto
  have "drop om p = slice om 4 p @ drop (om + 4) p" by (rule drop_eq_slice [OF fits])
  moreover have "slice om 4 p = be16 (join_u16 (p ! om) (p ! Suc om)) @ be16 (join_u16 (p ! (om + 2)) (p ! (om + 3)))"
    using fits by (simp add: be16_def slice_Suc numeral_eq_Suc)
  ultimately have "drop o1 p =
      concat (map encode_question
        (Question nm (join_u16 (p ! om) (p ! Suc om)) (join_u16 (p ! (om + 2)) (p ! (om + 3))) # qs)) @ drop o2 p"
    using nm(2) qs(4) by simp
  moreover have "list_all wf_question
      (Question nm (join_u16 (p ! om) (p ! Suc om)) (join_u16 (p ! (om + 2)) (p ! (om + 3))) # qs)"
    using nm(1) qs(2) by simp
  ultimately show ?case using qs(1,3) by (metis length_Cons)
qed

section \<open>Answers\<close>

lemma u16_of_nat_eq_iff: "n < 65536 \<Longrightarrow> (of_nat n :: u16) = k \<longleftrightarrow> n = unat k"
  by (auto simp: unat_of_nat_u16)

lemma u16_eq_unat: "(k :: u16) = w \<longleftrightarrow> unat k = unat w"
  by (auto intro: unsigned_word_eqI)

text \<open>One round of the answer loop, on a packet where every check passes.\<close>

lemma read_answers_step:
  assumes "skipName p o1 = Inr om" "om + 10 \<le> length p"
    and "read_u16 p om = Inr t" "read_u16 p (om + 2) = Inr c" "read_u16 p (om + 8) = Inr k"
    and fits: "om + 10 + unat k \<le> length p"
  shows "read_answers p (Suc n) o1 acc =
         read_answers p n (om + 10 + unat k) (acc @ rdata_addresses t c (slice (om + 10) (unat k) p))"
proof -
  let ?d = "slice (om + 10) (unat k) p"
  have dl: "length ?d = unat k" using fits by simp
  have offs: "om + 2 + 2 + 4 = om + 8" "om + 8 + 2 = om + 10" by simp_all
  have checks: "(om + 10 > length p) = False" "(om + 10 + unat k > length p) = False"
    using assms(2) fits by simp_all
  have kn: "k = 4 \<longleftrightarrow> unat k = 4" "k = 16 \<longleftrightarrow> unat k = 16"
    using u16_eq_unat [of k 4] u16_eq_unat [of k 16] by simp_all
  have range: "vec_range p (om + 10) m = Inr ?d" if "unat k = m" for m
    using that fits by (simp add: vec_range_def)
  have "read_answers p (Suc n) o1 acc =
      bind_res (if t = 1 \<and> c = 1 \<and> k = 4
               then bind_res (vec_range p (om + 10) 4) (\<lambda>addr. Inr (acc @ [address_v4_of_bytes addr]))
               else Inr acc) (\<lambda>acc.
      bind_res (if t = 28 \<and> c = 1 \<and> k = 16
               then bind_res (vec_range p (om + 10) 16) (\<lambda>addr. Inr (acc @ [IpV6 addr]))
               else Inr acc) (\<lambda>acc. read_answers p n (om + 10 + unat k) acc))"
    by (simp only: read_answers.simps(2) assms bind_res_simps Let_def offs checks if_False)
  also have "\<dots> = read_answers p n (om + 10 + unat k) (acc @ rdata_addresses t c ?d)"
    using kn range dl by (auto simp: rdata_addresses_def)
  finally show ?thesis .
qed

lemma read_answers_checks:
  assumes "read_answers p (Suc n) o1 acc = Inr res"
  obtains om t c k where "skipName p o1 = Inr om" "om + 10 \<le> length p"
    and "read_u16 p om = Inr t" "read_u16 p (om + 2) = Inr c" "read_u16 p (om + 8) = Inr k"
    and "om + 10 + unat k \<le> length p"
proof -
  from assms obtain om where om: "skipName p o1 = Inr om" and fits: "om + 10 \<le> length p"
    by (auto split: if_splits)
  obtain t c k where rd: "read_u16 p om = Inr t" "read_u16 p (om + 2) = Inr c" "read_u16 p (om + 8) = Inr k"
    using fits by (simp add: read_u16_eq)
  have offs: "om + 2 + 2 + 4 = om + 8" "om + 8 + 2 = om + 10" by simp_all
  have check: "(om + 10 > length p) = False" using fits by simp
  have "om + 10 + unat k \<le> length p"
  proof (rule ccontr)
    assume "\<not> om + 10 + unat k \<le> length p"
    then have "om + 10 + unat k > length p" by simp
    then have "read_answers p (Suc n) o1 acc = throw_error ''invalid dns rdata''"
      by (simp only: read_answers.simps(2) om rd bind_res_simps Let_def offs check if_False if_True)
    with assms show False by simp
  qed
  with om fits rd show thesis by (rule that)
qed

lemma read_answers_encode:
  "list_all wf_resource rs \<Longrightarrow>
   read_answers (pre @ concat (map encode_resource rs) @ post) (length rs) (length pre) acc =
     Inr (acc @ concat (map resource_addresses rs))"
proof (induction rs arbitrary: pre acc)
  case Nil
  then show ?case by simp
next
  case (Cons r rs)
  then have n: "wf_name (rr_name r)" and ttl: "length (rr_ttl r) = 4" and dl: "length (rr_data r) < 65536"
    and rs: "list_all wf_resource rs" by (simp_all add: wf_resource_def [of r])
  let ?n = "encode_name (rr_name r)" and ?t = "be16 (rr_type r)" and ?c = "be16 (rr_class r)"
    and ?d = "rr_data r"
  let ?k = "of_nat (length ?d) :: u16"
  define rest where "rest = concat (map encode_resource rs) @ post"
  let ?p = "pre @ ?n @ ?t @ ?c @ rr_ttl r @ be16 ?k @ ?d @ rest"
  let ?o = "length pre + length ?n"
  have k: "unat ?k = length ?d" by (rule unat_of_nat_u16 [OF dl])
  have p: "pre @ concat (map encode_resource (r # rs)) @ post = ?p"
    by (simp add: encode_resource_def [of r] rest_def)
  have skip: "skipName ?p (length pre) = Inr ?o"
    by (rule skipName_encode_name [OF n])
  have t: "read_u16 ?p ?o = Inr (rr_type r)"
    using read_u16_be16 [of "pre @ ?n" "rr_type r" "?c @ rr_ttl r @ be16 ?k @ ?d @ rest"] by simp
  have c: "read_u16 ?p (?o + 2) = Inr (rr_class r)"
    using read_u16_be16 [of "pre @ ?n @ ?t" "rr_class r" "rr_ttl r @ be16 ?k @ ?d @ rest"]
    by (simp add: ac_simps)
  have l: "read_u16 ?p (?o + 8) = Inr ?k"
    using read_u16_be16 [of "pre @ ?n @ ?t @ ?c @ rr_ttl r" ?k "?d @ rest"] ttl
    by (simp add: ac_simps)
  have "slice (length (pre @ ?n @ ?t @ ?c @ rr_ttl r @ be16 ?k)) (length ?d)
      ((pre @ ?n @ ?t @ ?c @ rr_ttl r @ be16 ?k) @ ?d @ rest) = ?d"
    by (subst slice_append0) simp
  then have range: "slice (?o + 10) (unat ?k) ?p = ?d"
    using ttl k by (simp add: ac_simps)
  have rec: "read_answers ?p (length rs) (?o + 10 + unat ?k) acc'
      = Inr (acc' @ concat (map resource_addresses rs))" for acc'
    using Cons.IH [OF rs, of "pre @ encode_resource r" acc'] ttl k
    by (simp add: encode_resource_def [of r] rest_def ac_simps)
  have len: "?o + 10 \<le> length ?p" "?o + 10 + unat ?k \<le> length ?p"
    using ttl k by simp_all
  have "read_answers ?p (length (r # rs)) (length pre) acc
      = Inr (acc @ concat (map resource_addresses (r # rs)))"
    using read_answers_step [OF skip len(1) t c l len(2)] rec
    by (simp only: range list.size add_Suc_right add_0_right) (simp add: resource_addresses_def)
  then show ?case by (simp only: p)
qed

lemma read_answers_decode:
  "read_answers p n o1 acc = Inr res \<Longrightarrow> o1 \<le> length p \<Longrightarrow>
     \<exists>rs post. length rs = n \<and> list_all wf_resource rs \<and>
          drop o1 p = concat (map encode_resource rs) @ post \<and>
          res = acc @ concat (map resource_addresses rs)"
proof (induction n arbitrary: o1 acc)
  case 0
  then show ?case by simp
next
  case (Suc n)
  from read_answers_checks [OF Suc.prems(1)] obtain om t c k where
    om: "skipName p o1 = Inr om" and fits: "om + 10 \<le> length p"
    and rd: "read_u16 p om = Inr t" "read_u16 p (om + 2) = Inr c" "read_u16 p (om + 8) = Inr k"
    and fits2: "om + 10 + unat k \<le> length p" by blast
  let ?d = "slice (om + 10) (unat k) p"
  from skipName_decode [OF om] obtain nm where nm: "wf_name nm" "drop o1 p = encode_name nm @ drop om p"
    by blast
  let ?r = "\<lparr>rr_name = nm, rr_type = t, rr_class = c, rr_ttl = slice (om + 4) 4 p, rr_data = ?d\<rparr>"
  have dl: "length ?d = unat k" using fits2 by simp
  have wf: "wf_resource ?r" using nm fits dl by (simp add: wf_resource_def)
  have "read_answers p n (om + 10 + unat k) (acc @ resource_addresses ?r) = Inr res"
    using Suc.prems(1) read_answers_step [OF om fits rd fits2, of n acc]
    by (simp add: resource_addresses_def)
  from Suc.IH [OF this fits2] obtain rs post where rs: "length rs = n" "list_all wf_resource rs"
    "drop (om + 10 + unat k) p = concat (map encode_resource rs) @ post"
    "res = (acc @ resource_addresses ?r) @ concat (map resource_addresses rs)" by blast
  have d1: "drop om p = slice om (10 + unat k) p @ drop (om + (10 + unat k)) p"
    by (rule drop_eq_slice) (use fits2 in simp)
  have d2: "slice om (10 + unat k) p =
      slice om 2 p @ slice (om + 2) 2 p @ slice (om + 4) 4 p @ slice (om + 8) 2 p @ ?d"
  proof -
    have k: "10 + unat k = 2 + (2 + (4 + (2 + unat k)))" by simp
    have offs: "om + 2 + 2 = om + 4" "om + 4 + 4 = om + 8" "om + 8 + 2 = om + 10" by simp_all
    show ?thesis by (simp only: k slice_add offs)
  qed
  have be: "slice i 2 p = be16 w" if "read_u16 p i = Inr w" for i w
  proof -
    from that have "i + 2 \<le> length p" and w: "w = join_u16 (p ! i) (p ! (i + 1))"
      by (simp_all add: read_u16_eq split: if_splits)
    then show ?thesis by (simp only: be16_def slice_two w hi8_join lo8_join)
  qed
  have "drop om p = be16 t @ be16 c @ slice (om + 4) 4 p @ be16 k @ ?d @ drop (om + 10 + unat k) p"
    by (simp only: d1 d2 be [OF rd(1)] be [OF rd(2)] be [OF rd(3)] append_assoc add.assoc)
  then have "drop o1 p = encode_resource ?r @ drop (om + 10 + unat k) p"
    using nm(2) dl by (simp add: encode_resource_def)
  then have "drop o1 p = concat (map encode_resource (?r # rs)) @ post"
    using rs(3) by simp
  moreover have "length (?r # rs) = Suc n" "list_all wf_resource (?r # rs)"
    "res = acc @ concat (map resource_addresses (?r # rs))"
    using rs wf by simp_all
  ultimately show ?case by blast
qed

section \<open>The whole message\<close>

lemma read_u16_encode:
  "read_u16 (encode_message m) 4 = Inr (of_nat (length (msg_questions m)))"
  "read_u16 (encode_message m) 6 = Inr (of_nat (length (msg_answers m)))"
proof -
  let ?a = "be16 (msg_id m) @ be16 (msg_flags m)"
  let ?q = "be16 (of_nat (length (msg_questions m)))" and ?n = "be16 (of_nat (length (msg_answers m)))"
  define rest where "rest = be16 (msg_nscount m) @ be16 (msg_arcount m) @
     concat (map encode_question (msg_questions m)) @
     concat (map encode_resource (msg_answers m)) @ msg_trailer m"
  have m: "encode_message m = ?a @ ?q @ ?n @ rest" "encode_message m = (?a @ ?q) @ ?n @ rest"
    by (simp_all add: encode_message_def rest_def)
  show "read_u16 (encode_message m) 4 = Inr (of_nat (length (msg_questions m)))"
    using read_u16_be16 [of ?a _ "?n @ rest"] unfolding m(1) by simp
  show "read_u16 (encode_message m) 6 = Inr (of_nat (length (msg_answers m)))"
    using read_u16_be16 [of "?a @ ?q" _ rest] unfolding m(2) by simp
qed

lemma parse_dns_response_encode:
  assumes "wf_message m"
  shows "parse_dns_response (encode_message m) = Inr (message_addresses m)"
proof -
  define hdr where "hdr = be16 (msg_id m) @ be16 (msg_flags m) @
     be16 (of_nat (length (msg_questions m))) @ be16 (of_nat (length (msg_answers m))) @
     be16 (msg_nscount m) @ be16 (msg_arcount m)"
  let ?qs = "concat (map encode_question (msg_questions m))"
    and ?rs = "concat (map encode_resource (msg_answers m))"
  have h: "length hdr = 12" by (simp add: hdr_def)
  have m: "encode_message m = hdr @ ?qs @ ?rs @ msg_trailer m"
    "encode_message m = (hdr @ ?qs) @ ?rs @ msg_trailer m"
    by (simp_all add: encode_message_def hdr_def)
  have "skip_questions (encode_message m) (length (msg_questions m)) 12 = Inr (12 + length ?qs)"
    using skip_questions_encode [of "msg_questions m" hdr "?rs @ msg_trailer m"] assms h
    unfolding m(1) by (simp add: wf_message_def)
  moreover have "read_answers (encode_message m) (length (msg_answers m)) (12 + length ?qs) []
      = Inr (message_addresses m)"
    using read_answers_encode [of "msg_answers m" "hdr @ ?qs" "msg_trailer m" "[]"] assms h
    unfolding m(2) by (simp add: wf_message_def message_addresses_def)
  moreover have "12 \<le> length (encode_message m)" unfolding m(1) by (simp add: h)
  ultimately show ?thesis
    using assms by (simp add: parse_dns_response_def read_u16_encode wf_message_def unat_of_nat_u16)
qed

lemma parse_dns_response_decode:
  assumes "parse_dns_response p = Inr ips"
  shows "\<exists>m. wf_message m \<and> encode_message m = p \<and> message_addresses m = ips"
proof -
  from assms have h: "12 \<le> length p" by (auto simp: parse_dns_response_def split: if_splits)
  then obtain i f qd an ns ar where rd: "read_u16 p 0 = Inr i" "read_u16 p 2 = Inr f"
    "read_u16 p 4 = Inr qd" "read_u16 p 6 = Inr an" "read_u16 p 8 = Inr ns" "read_u16 p 10 = Inr ar"
    by (simp add: read_u16_eq)
  from assms h rd obtain o2 where o2: "skip_questions p (unat qd) 12 = Inr o2"
    and ans: "read_answers p (unat an) o2 [] = Inr ips"
    by (auto simp: parse_dns_response_def)
  from skip_questions_decode [OF o2 h] obtain qs where qs: "length qs = unat qd" "list_all wf_question qs"
    "o2 \<le> length p" "drop 12 p = concat (map encode_question qs) @ drop o2 p" by blast
  from read_answers_decode [OF ans qs(3)] obtain rs post where rs: "length rs = unat an"
    "list_all wf_resource rs" "drop o2 p = concat (map encode_resource rs) @ post"
    "ips = concat (map resource_addresses rs)" by auto
  have be: "slice k 2 p = be16 w" if "read_u16 p k = Inr w" for k w
  proof -
    from that have "k + 2 \<le> length p" and w: "w = join_u16 (p ! k) (p ! (k + 1))"
      by (simp_all add: read_u16_eq split: if_splits)
    then show ?thesis by (simp only: be16_def slice_two w hi8_join lo8_join)
  qed
  have "p = slice 0 12 p @ drop 12 p" using drop_eq_slice [of 0 12 p] h by simp
  also have "slice 0 12 p = be16 i @ be16 f @ be16 qd @ be16 an @ be16 ns @ be16 ar"
  proof -
    have k: "(12 :: nat) = 2 + (2 + (2 + (2 + (2 + 2))))"
      "(0 :: nat) + 2 = 2" "(2 :: nat) + 2 = 4" "(4 :: nat) + 2 = 6" "(6 :: nat) + 2 = 8" "(8 :: nat) + 2 = 10"
      by simp_all
    show ?thesis
      by (simp only: k(1) slice_add) (simp only: k(2-) be [OF rd(1)] be [OF rd(2)] be [OF rd(3)] be [OF rd(4)]
          be [OF rd(5)] be [OF rd(6)])
  qed
  finally have p: "p = be16 i @ be16 f @ be16 qd @ be16 an @ be16 ns @ be16 ar @
      concat (map encode_question qs) @ concat (map encode_resource rs) @ post"
    using qs(4) rs(3) by simp
  let ?m = "\<lparr>msg_id = i, msg_flags = f, msg_nscount = ns, msg_arcount = ar,
             msg_questions = qs, msg_answers = rs, msg_trailer = post\<rparr>"
  have "wf_message ?m" using qs rs by (simp add: wf_message_def)
  moreover have "encode_message ?m = p"
    by (subst p) (simp add: encode_message_def qs(1) rs(1))
  moreover have "message_addresses ?m = ips" by (simp add: message_addresses_def rs(4))
  ultimately show ?thesis by blast
qed

lemma parse_dns_response_iff:
  "parse_dns_response p = Inr ips \<longleftrightarrow>
     (\<exists>m. wf_message m \<and> encode_message m = p \<and> message_addresses m = ips)"
  using parse_dns_response_encode parse_dns_response_decode by blast

section \<open>Memory safety\<close>

lemma no_ub_skipName: "no_ub (skipName p k)"
proof (induction "length p - k" arbitrary: k rule: less_induct)
  case less
  show ?case
    by (subst skipName.simps) (auto intro!: no_ub_bind less)
qed

lemma no_ub_skip_questions: "no_ub (skip_questions p n k)"
  by (induction n arbitrary: k) (auto intro!: no_ub_bind no_ub_skipName)

lemma no_ub_read_answers: "no_ub (read_answers p n k acc)"
proof (induction n arbitrary: k acc)
  case 0
  then show ?case by simp
next
  case (Suc n)
  show ?case
    by (auto intro!: no_ub_bind no_ub_skipName read_never_ub Suc
        simp: Let_def vec_range_def u16_eq_unat)
qed

lemma no_ub_parse_dns_response: "no_ub (parse_dns_response p)"
  by (auto simp: parse_dns_response_def
      intro!: no_ub_bind read_never_ub no_ub_skip_questions no_ub_read_answers)

section \<open>Properties\<close>

text \<open>C4: the response parser accepts exactly the well-formed DNS messages, and returns exactly the
  addresses of their A and AAAA answers of class IN, in order.\<close>

theorem parse_dns_response_exact:
  "parse_dns_response p = Inr ips \<longleftrightarrow>
     (\<exists>m. wf_message m \<and> encode_message m = p \<and> message_addresses m = ips)"
  by (rule parse_dns_response_iff)

text \<open>C34: on any bytes at all, the response parser either throws or returns addresses that are four
  or sixteen bytes long; it never reads outside its input.\<close>

theorem parse_dns_response_safe:
  "no_ub (parse_dns_response p) \<and>
   (case parse_dns_response p of Inl f \<Rightarrow> True | Inr ips \<Rightarrow> list_all wf_ip ips)"
proof (cases "parse_dns_response p")
  case (Inr ips)
  then have "\<exists>m. message_addresses m = ips" by (auto simp: parse_dns_response_iff)
  then have "list_all wf_ip ips"
    by (auto simp: message_addresses_def resource_addresses_def rdata_addresses_def
        address_v4_of_bytes_def list_all_iff split: if_splits)
  with Inr show ?thesis by simp
qed (use no_ub_parse_dns_response [of p] in simp)

end
