(* ===== verification/Fifo.thy ===== *)
theory Fifo
  imports Prelude
begin

text \<open>
  The contract of an asynchronous first-in first-out channel. A \<open>put\<close> hands a value
  over; a \<open>get\<close> names the ticket of the request; \<open>outcome\<close> of a ticket is what the
  request has received so far, if anything (a channel might also deliver an exception). The laws speak of a channel's history only
  through two sequences: the values put and the tickets given out. What the clients rely
  on follows once for all schedules: the \<open>k\<close>-th get receives the \<open>k\<close>-th put, however
  puts and gets are interleaved, and waits exactly as long as that put is missing.
\<close>

datatype 'a channel_op = Put 'a | Get

fun puts_of :: "'a channel_op list \<Rightarrow> 'a list" where
  "puts_of [] = []"
| "puts_of (Put v # ops) = v # puts_of ops"
| "puts_of (Get # ops) = puts_of ops"

fun gets_of :: "'a channel_op list \<Rightarrow> nat" where
  "gets_of [] = 0"
| "gets_of (Put v # ops) = gets_of ops"
| "gets_of (Get # ops) = Suc (gets_of ops)"

lemma puts_of_append [simp]: "puts_of (xs @ ys) = puts_of xs @ puts_of ys"
  by (induction xs rule: puts_of.induct) auto

lemma gets_of_append [simp]: "gets_of (xs @ ys) = gets_of xs + gets_of ys"
  by (induction xs rule: gets_of.induct) auto

lemma puts_gets_runs [simp]:
  "puts_of (map (\<lambda>s. Put (f s)) ss) = map f ss" "gets_of (map (\<lambda>s. Put (f s)) ss) = 0"
  "puts_of (replicate n Get) = []" "gets_of (replicate n Get) = n"
proof -
  show "puts_of (map (\<lambda>s. Put (f s)) ss) = map f ss" "gets_of (map (\<lambda>s. Put (f s)) ss) = 0"
    by (induction ss) simp_all
  show "puts_of (replicate n Get) = []" "gets_of (replicate n Get) = n"
    by (induction n) simp_all
qed

locale fifo =
  fixes start :: 's
    and put :: "'s \<Rightarrow> 'a \<Rightarrow> 's"
    and get :: "'s \<Rightarrow> 't \<times> 's"
    and outcome :: "'s \<Rightarrow> 't \<Rightarrow> 'a result option"
    and rep :: "'s \<Rightarrow> 'a list \<Rightarrow> 't list \<Rightarrow> bool"
  assumes rep_start: "rep start [] []"
    and rep_put: "rep s vs ts \<Longrightarrow> rep (put s v) (vs @ [v]) ts"
    and rep_get: "rep s vs ts \<Longrightarrow> rep (snd (get s)) vs (ts @ [fst (get s)])"
    and rep_outcome: "rep s vs ts \<Longrightarrow> k < length ts \<Longrightarrow>
      outcome s (ts ! k) = (if k < length vs then Some (Inr (vs ! k)) else None)"
begin

fun exec :: "'s \<Rightarrow> 'a channel_op list \<Rightarrow> 't list \<times> 's" where
  "exec s [] = ([], s)"
| "exec s (Put v # ops) = exec (put s v) ops"
| "exec s (Get # ops) = (let (t, s') = get s; (ts, s'') = exec s' ops in (t # ts, s''))"

lemma exec_rep:
  "rep s vs ts \<Longrightarrow> exec s ops = (ts', s') \<Longrightarrow>
   rep s' (vs @ puts_of ops) (ts @ ts') \<and> length ts' = gets_of ops"
proof (induction ops arbitrary: s vs ts ts')
  case Nil
  then show ?case by simp
next
  case (Cons x ops)
  show ?case
  proof (cases x)
    case (Put v)
    with Cons.IH [OF rep_put [OF Cons.prems(1), of v]] Cons.prems(2) show ?thesis by simp
  next
    case Get
    obtain t s1 where g: "get s = (t, s1)" by (cases "get s")
    obtain us where e: "exec s1 ops = (us, s')" "ts' = t # us"
      using Cons.prems(2) Get g by (auto split: prod.splits)
    from rep_get [OF Cons.prems(1)] g have "rep s1 vs (ts @ [t])" by simp
    from Cons.IH [OF this e(1)] show ?thesis by (simp add: e(2) Get)
  qed
qed

lemma kth_get:
  assumes "exec start ops = (ts, s)" "k < gets_of ops"
  shows "outcome s (ts ! k) = (if k < length (puts_of ops) then Some (Inr (puts_of ops ! k)) else None)"
  using exec_rep [OF rep_start assms(1)] rep_outcome [of s "puts_of ops" ts k] assms(2) by simp

text \<open>Nothing is delivered twice or out of order, and what is delivered is what was put.\<close>

lemma delivered_prefix:
  assumes "exec start ops = (ts, s)"
  shows "map (outcome s) ts =
     map (\<lambda>v. Some (Inr v)) (take (gets_of ops) (puts_of ops)) @
     replicate (gets_of ops - length (puts_of ops)) None"
proof (rule nth_equalityI)
  have len: "length ts = gets_of ops" using exec_rep [OF rep_start assms] by simp
  then show "length (map (outcome s) ts) = length (map (\<lambda>v. Some (Inr v)) (take (gets_of ops) (puts_of ops)) @
     replicate (gets_of ops - length (puts_of ops)) None)"
    by simp
  show "map (outcome s) ts ! i = (map (\<lambda>v. Some (Inr v)) (take (gets_of ops) (puts_of ops)) @
     replicate (gets_of ops - length (puts_of ops)) None) ! i" if "i < length (map (outcome s) ts)" for i
    using that len kth_get [OF assms, of i] by (simp add: nth_append)
qed

end

end
