(* ===== verification/Async_Queue.thy ===== *)
theory Async_Queue
  imports Fifo
begin

text \<open>
  \<^verbatim>\<open>utils/asyncqueue.hpp\<close>. The waiters are shared between the queue's deque and
  the coroutines that wait, so they live in a store and the deque holds their addresses.
  A \<open>get\<close> either returns a value at once or suspends on a fresh waiter;
  \<open>AsyncQueue_get_resume\<close> is the rest of the coroutine, which runs once the waiter's
  timer has been cancelled. The event loop runs on one thread, so no operation interleaves
  between two suspension points, and the wait on the timer has begun before anyone can
  cancel it.
\<close>

section \<open>The queue\<close>

record 'a get_waiter =
  timer_cancelled :: bool
  waiter_done :: bool
  waiter_value :: "'a option"

definition new_waiter :: "'a get_waiter" where
  "new_waiter = \<lparr>timer_cancelled = False, waiter_done = False, waiter_value = None\<rparr>"

record 'a async_queue =
  queue_items :: "'a list"
  get_waiters :: "nat list"
  waiter_store :: "'a get_waiter list"

definition new_queue :: "'a async_queue" where
  "new_queue = \<lparr>queue_items = [], get_waiters = [], waiter_store = []\<rparr>"

definition GetWaiter_complete :: "'a get_waiter \<Rightarrow> 'a get_waiter" where
  "GetWaiter_complete w =
     (if waiter_done w then w else w\<lparr>waiter_done := True, timer_cancelled := True\<rparr>)"

definition AsyncQueue_put :: "'a async_queue \<Rightarrow> 'a \<Rightarrow> 'a async_queue" where
  "AsyncQueue_put q v =
     (case get_waiters q of
        w # ws \<Rightarrow>
          (let waiter = (waiter_store q ! w)\<lparr>waiter_value := Some v\<rparr>
           in q\<lparr>get_waiters := ws, waiter_store := (waiter_store q)[w := GetWaiter_complete waiter]\<rparr>)
      | [] \<Rightarrow> q\<lparr>queue_items := queue_items q @ [v]\<rparr>)"

datatype 'a get_result = Got 'a | Suspended nat

definition AsyncQueue_get :: "'a async_queue \<Rightarrow> 'a get_result \<times> 'a async_queue" where
  "AsyncQueue_get q =
     (case queue_items q of
        v # vs \<Rightarrow> (Got v, q\<lparr>queue_items := vs\<rparr>)
      | [] \<Rightarrow>
          (let w = length (waiter_store q)
           in (Suspended w, q\<lparr>get_waiters := get_waiters q @ [w], waiter_store := waiter_store q @ [new_waiter]\<rparr>)))"

text \<open>\<open>None\<close> while the timer runs; \<^verbatim>\<open>value()\<close> of an empty optional throws.\<close>

definition AsyncQueue_get_resume :: "'a async_queue \<Rightarrow> nat \<Rightarrow> 'a result option" where
  "AsyncQueue_get_resume q w =
     (if timer_cancelled (waiter_store q ! w)
      then Some (case waiter_value (waiter_store q ! w) of
                   None \<Rightarrow> Inl (Raised Bad_Optional_Access) | Some v \<Rightarrow> Inr v)
      else None)"

fun get_outcome :: "'a async_queue \<Rightarrow> 'a get_result \<Rightarrow> 'a result option" where
  "get_outcome q (Got v) = Some (Inr v)"
| "get_outcome q (Suspended w) = AsyncQueue_get_resume q w"

section \<open>The invariant\<close>

text \<open>
  Values and waiters never coexist. A waiter in the deque is neither done nor cancelled
  and holds nothing; every other waiter of the store is done and holds a value.
\<close>

definition idle :: "'a get_waiter \<Rightarrow> bool" where
  "idle w \<longleftrightarrow> \<not> waiter_done w \<and> \<not> timer_cancelled w \<and> waiter_value w = None"

definition served :: "'a get_waiter \<Rightarrow> bool" where
  "served w \<longleftrightarrow> waiter_done w \<and> timer_cancelled w \<and> waiter_value w \<noteq> None"

definition wf_queue :: "'a async_queue \<Rightarrow> bool" where
  "wf_queue q \<longleftrightarrow>
     (queue_items q = [] \<or> get_waiters q = []) \<and>
     distinct (get_waiters q) \<and>
     (\<forall>w \<in> set (get_waiters q). w < length (waiter_store q)) \<and>
     (\<forall>w < length (waiter_store q).
        if w \<in> set (get_waiters q) then idle (waiter_store q ! w) else served (waiter_store q ! w))"

lemma wf_new_queue: "wf_queue new_queue"
  by (simp add: wf_queue_def new_queue_def)

lemma wf_queueD:
  assumes "wf_queue q"
  shows "w \<in> set (get_waiters q) \<Longrightarrow> idle (waiter_store q ! w)"
    and "w < length (waiter_store q) \<Longrightarrow> w \<notin> set (get_waiters q) \<Longrightarrow> served (waiter_store q ! w)"
    and "w \<in> set (get_waiters q) \<Longrightarrow> w < length (waiter_store q)"
  using assms unfolding wf_queue_def by metis+

lemma put_no_waiter:
  "get_waiters q = [] \<Longrightarrow> AsyncQueue_put q v = q\<lparr>queue_items := queue_items q @ [v]\<rparr>"
  by (simp add: AsyncQueue_put_def)

lemma put_waiter:
  "get_waiters q = w # ws \<Longrightarrow> wf_queue q \<Longrightarrow>
   AsyncQueue_put q v = q\<lparr>get_waiters := ws, waiter_store := (waiter_store q)
     [w := \<lparr>timer_cancelled = True, waiter_done = True, waiter_value = Some v\<rparr>]\<rparr>"
  using wf_queueD(1) [of q w]
  by (cases "waiter_store q ! w") (simp add: AsyncQueue_put_def GetWaiter_complete_def idle_def Let_def)

lemma wf_put: "wf_queue q \<Longrightarrow> wf_queue (AsyncQueue_put q v)"
proof (cases "get_waiters q")
  case Nil
  moreover assume "wf_queue q"
  ultimately show ?thesis by (simp add: put_no_waiter wf_queue_def)
next
  case (Cons w ws)
  moreover assume wf: "wf_queue q"
  moreover have "served \<lparr>timer_cancelled = True, waiter_done = True, waiter_value = Some v\<rparr>"
    by (simp add: served_def)
  ultimately show ?thesis
    using wf_queueD [OF wf] by (auto simp: put_waiter wf_queue_def nth_list_update)
qed

lemma wf_get: "wf_queue q \<Longrightarrow> wf_queue (snd (AsyncQueue_get q))"
  by (cases "queue_items q")
    (auto simp: AsyncQueue_get_def wf_queue_def nth_append new_waiter_def idle_def Let_def less_Suc_eq)

section \<open>The channel contract\<close>

text \<open>
  The history a state stands for: \<open>vs\<close> put and \<open>ts\<close> tickets given out. A ticket is
  satisfied by the value of its own position; the deque holds the tickets past the last
  value, the item queue the values past the last ticket.
\<close>

definition represents :: "'a async_queue \<Rightarrow> 'a list \<Rightarrow> 'a get_result list \<Rightarrow> bool" where
  "represents q vs ts \<longleftrightarrow>
     wf_queue q \<and>
     queue_items q = drop (length ts) vs \<and>
     map Suspended (get_waiters q) = drop (length vs) ts \<and>
     (\<forall>w. Suspended w \<in> set ts \<longrightarrow> w < length (waiter_store q)) \<and>
     (\<forall>k < length ts. k < length vs \<longrightarrow> get_outcome q (ts ! k) = Some (Inr (vs ! k)))"

lemma represents_new: "represents new_queue [] []"
  by (simp add: represents_def wf_new_queue) (simp add: new_queue_def)

lemma get_outcome_waiting:
  assumes "wf_queue q" "w \<in> set (get_waiters q)"
  shows "get_outcome q (Suspended w) = None"
proof -
  have "idle (waiter_store q ! w)" using assms wf_queueD(1) by blast
  then show ?thesis by (simp add: AsyncQueue_get_resume_def idle_def)
qed

lemma represents_outcome:
  assumes "represents q vs ts" "k < length ts"
  shows "get_outcome q (ts ! k) = (if k < length vs then Some (Inr (vs ! k)) else None)"
proof (cases "k < length vs")
  case True
  with assms show ?thesis by (simp add: represents_def)
next
  case False
  then have "ts ! k \<in> set (drop (length vs) ts)"
    using assms(2) nth_mem [of "k - length vs" "drop (length vs) ts"] by simp
  then have "ts ! k \<in> Suspended ` set (get_waiters q)"
    using assms(1) unfolding represents_def by (metis set_map)
  then obtain w where "ts ! k = Suspended w" "w \<in> set (get_waiters q)" by blast
  with False assms(1) show ?thesis by (simp add: represents_def get_outcome_waiting del: get_outcome.simps)
qed

lemma represents_put_items:
  assumes "represents q vs ts" "get_waiters q = []"
  shows "represents (AsyncQueue_put q v) (vs @ [v]) ts"
proof -
  have le: "length ts \<le> length vs" using assms by (simp add: represents_def)
  have same: "get_outcome (AsyncQueue_put q v) t = get_outcome q t" for t
    by (cases t) (simp_all add: put_no_waiter assms(2) AsyncQueue_get_resume_def)
  show ?thesis
    using assms le wf_put [of q v]
    by (auto simp: represents_def same nth_append) (auto simp: put_no_waiter)
qed

lemma represents_put_waiter:
  assumes rep: "represents q vs ts" and ws: "get_waiters q = w # ws"
  shows "represents (AsyncQueue_put q v) (vs @ [v]) ts"
proof -
  let ?q = "AsyncQueue_put q v" and ?n = "length vs"
  from rep have wf: "wf_queue q" by (simp add: represents_def)
  have q: "?q = q\<lparr>get_waiters := ws, waiter_store := (waiter_store q)
     [w := \<lparr>timer_cancelled = True, waiter_done = True, waiter_value = Some v\<rparr>]\<rparr>"
    by (rule put_waiter [OF ws wf])
  have tail: "Suspended w # map Suspended ws = drop ?n ts" using rep ws by (simp add: represents_def)
  then have lt: "?n < length ts" by (metis drop_all linorder_not_le list.distinct(1))
  then have tk: "ts ! ?n = Suspended w" "drop (Suc ?n) ts = map Suspended ws"
    using tail by (simp_all add: Cons_nth_drop_Suc [symmetric])
  have w: "w < length (waiter_store q)" using wf ws by (simp add: wf_queue_def)
  have new: "get_outcome ?q (Suspended w) = Some (Inr v)"
    using w by (simp add: q AsyncQueue_get_resume_def)
  have old: "get_outcome ?q (ts ! k) = Some (Inr (vs ! k))" if k: "k < length vs" for k
  proof -
    have out: "get_outcome q (ts ! k) = Some (Inr (vs ! k))" using rep k lt by (simp add: represents_def)
    have "get_outcome q (Suspended w) = None"
      by (rule get_outcome_waiting [OF wf]) (simp add: ws)
    with out have "ts ! k \<noteq> Suspended w" by auto
    with out show ?thesis by (cases "ts ! k") (auto simp: q AsyncQueue_get_resume_def split: if_splits)
  qed
  have "queue_items ?q = drop (length ts) (vs @ [v])"
    using wf ws lt by (auto simp: q wf_queue_def)
  moreover have "get_outcome ?q (ts ! k) = Some (Inr ((vs @ [v]) ! k))" if "k < length (vs @ [v])" for k
    using that old [of k] new tk(1) by (cases "k < ?n") (auto simp: nth_append less_Suc_eq)
  ultimately show ?thesis
    using rep tk wf_put [OF wf, of v] by (auto simp: represents_def q)
qed

lemma represents_get:
  assumes rep: "represents q vs ts"
  shows "represents (snd (AsyncQueue_get q)) vs (ts @ [fst (AsyncQueue_get q)])"
proof (cases "queue_items q")
  case (Cons v items)
  have items: "drop (length ts) vs = v # items" using rep Cons by (simp add: represents_def)
  then have lt: "length ts < length vs" by (metis drop_all linorder_not_le list.distinct(1))
  then have v: "vs ! length ts = v" "drop (Suc (length ts)) vs = items"
    using items by (simp_all add: Cons_nth_drop_Suc [symmetric])
  have g: "AsyncQueue_get q = (Got v, q\<lparr>queue_items := items\<rparr>)" by (simp add: AsyncQueue_get_def Cons)
  have same: "get_outcome (q\<lparr>queue_items := items\<rparr>) t = get_outcome q t" for t
    by (cases t) (simp_all add: AsyncQueue_get_resume_def)
  show ?thesis
    using rep lt v wf_get [of q]
    by (auto simp: represents_def g same nth_append less_Suc_eq)
next
  case Nil
  let ?w = "length (waiter_store q)" and ?q = "snd (AsyncQueue_get q)"
  have le: "length vs \<le> length ts" using rep Nil by (simp add: represents_def)
  have g: "AsyncQueue_get q = (Suspended ?w, q\<lparr>get_waiters := get_waiters q @ [?w],
      waiter_store := waiter_store q @ [new_waiter]\<rparr>)"
    by (simp add: AsyncQueue_get_def Nil Let_def)
  have same: "get_outcome ?q (ts ! k) = get_outcome q (ts ! k)" if "k < length ts" for k
  proof -
    have "\<And>w. ts ! k = Suspended w \<Longrightarrow> w < ?w"
      using that rep by (metis nth_mem represents_def)
    then show ?thesis by (cases "ts ! k") (auto simp: g AsyncQueue_get_resume_def nth_append)
  qed
  have "get_outcome ?q ((ts @ [Suspended ?w]) ! k) = Some (Inr (vs ! k))" if "k < length vs" for k
    using that le same [of k] rep by (simp add: nth_append represents_def)
  then show ?thesis
    using rep le wf_get [of q] Nil by (auto simp: represents_def g)
qed

interpretation channel: fifo new_queue AsyncQueue_put AsyncQueue_get get_outcome represents
proof
  fix q :: "'a async_queue" and v :: 'a and vs ts
  show "represents q vs ts \<Longrightarrow> represents (AsyncQueue_put q v) (vs @ [v]) ts"
    using represents_put_items [of q vs ts v] represents_put_waiter [of q vs ts _ _ v]
    by (cases "get_waiters q") auto
qed (simp_all add: represents_new represents_get represents_outcome)

section \<open>Schedules\<close>

text \<open>A schedule of puts and gets from any coroutines, in the order they run; the tickets of the gets.\<close>

fun run_queue :: "'a async_queue \<Rightarrow> 'a channel_op list \<Rightarrow> 'a get_result list \<times> 'a async_queue" where
  "run_queue q [] = ([], q)"
| "run_queue q (Put v # ops) = run_queue (AsyncQueue_put q v) ops"
| "run_queue q (Get # ops) =
     (let (t, q') = AsyncQueue_get q; (ts, q'') = run_queue q' ops in (t # ts, q''))"

lemma run_queue_append:
  "run_queue q (xs @ ys) =
     (let (ts, q') = run_queue q xs; (us, q'') = run_queue q' ys in (ts @ us, q''))"
  by (induction q xs rule: run_queue.induct) (auto split: prod.splits)

lemma fst_run_puts: "fst (run_queue q (map (\<lambda>s. Put (f s)) ss)) = []"
  by (induction ss arbitrary: q) simp_all

lemma run_queue_exec: "run_queue q ops = channel.exec q ops"
  by (induction q ops rule: run_queue.induct) (auto split: prod.splits)

lemma wf_run_queue: "run_queue new_queue ops = (ts, q) \<Longrightarrow> wf_queue q"
  using channel.exec_rep [OF represents_new, of ops ts q] by (simp add: run_queue_exec represents_def)

section \<open>Properties\<close>

text \<open>C15: for every schedule of puts and gets, the \<open>k\<close>-th get receives exactly the \<open>k\<close>-th value put,
  at once or after waiting, and it is still waiting exactly when fewer values were put: no value is lost,
  duplicated or reordered, and no get fails.\<close>

theorem kth_get_receives_kth_put:
  "run_queue new_queue ops = (ts, q) \<Longrightarrow> k < gets_of ops \<Longrightarrow>
   get_outcome q (ts ! k) = (if k < length (puts_of ops) then Some (Inr (puts_of ops ! k)) else None)"
  unfolding run_queue_exec by (rule channel.kth_get)

definition sample_schedule :: "u8 channel_op list" where
  "sample_schedule = [Get, Get, Put 1, Put 2, Put 3, Get, Get]"

lemma run_sample_schedule:
  "run_queue new_queue sample_schedule =
     ([Suspended 0, Suspended 1, Got 3, Suspended 2],
      snd (run_queue new_queue sample_schedule))"
  by code_simp

theorem kth_get_receives_kth_put_witness:
  "get_outcome (snd (run_queue new_queue sample_schedule)) (Suspended 1) = Some (Inr 2) \<and>
   sample_schedule = [Get, Get, Put 1, Put 2, Put 3, Get, Get]"
  using kth_get_receives_kth_put [OF run_sample_schedule, of 1] by (simp add: sample_schedule_def)

text \<open>After every schedule the queue is well formed: values and waiters never coexist, every waiter
  in the deque is still pending and every other one has received its value.\<close>

theorem queue_invariant:
  "wf_queue (snd (run_queue new_queue ops))"
  using wf_run_queue [of ops] by (cases "run_queue new_queue ops") simp

end
