(* ===== verification/Udp_Client.thy ===== *)
theory Udp_Client
  imports Address Async_Queue Log
begin

text \<open>
  \<^verbatim>\<open>udp/*\<close>: a UDP socket whose datagrams are queued as sessions. The socket calls
  are the library's (\<open>udp_lib\<close>: the exception a call throws, if any). A datagram larger
  than the receive buffer is cut to its size.
\<close>

record udp_session =
  us_endpoint :: endpoint
  us_data :: bytes

datatype udp_socket = Udp_Fresh | Udp_Opened | Udp_Bound endpoint | Udp_Connected endpoint | Udp_Closed

record udp_client =
  uc_local :: "endpoint option"
  uc_socket :: udp_socket
  uc_sessions :: "udp_session async_queue"
  uc_sent :: "udp_session list"

record udp_lib =
  udp_open :: "bool \<Rightarrow> exn option"
  udp_bind :: "endpoint \<Rightarrow> exn option"
  udp_connect :: "endpoint \<Rightarrow> exn option"
  udp_send_to :: "udp_socket \<Rightarrow> udp_session \<Rightarrow> exn option"

definition UdpClient_new :: "endpoint option \<Rightarrow> udp_client" where
  "UdpClient_new local =
     \<lparr>uc_local = local, uc_socket = Udp_Fresh, uc_sessions = new_queue, uc_sent = []\<rparr>"

text \<open>A library call that may throw, inside a function that does not catch.\<close>

definition check_call :: "exn option \<Rightarrow> unit result" where
  "check_call r = (case r of None \<Rightarrow> Inr () | Some e \<Rightarrow> Inl (Raised e))"

definition UdpClient_start :: "udp_lib \<Rightarrow> udp_client \<Rightarrow> endpoint option \<Rightarrow> udp_client result" where
  "UdpClient_start lib c remote =
     (if uc_local c = None \<and> remote = None then throw_error ''udp local or remote addr should be set one''
      else case uc_local c of
        Some l \<Rightarrow>
          bind_res (check_call (udp_open lib (is_v4 (ep_address l)))) (\<lambda>_.
          bind_res (check_call (udp_bind lib l)) (\<lambda>_. Inr (c\<lparr>uc_socket := Udp_Bound l\<rparr>)))
      | None \<Rightarrow>
          (case remote of
             Some r \<Rightarrow>
               bind_res (check_call (udp_open lib (is_v4 (ep_address r)))) (\<lambda>_.
               bind_res (check_call (udp_connect lib r)) (\<lambda>_. Inr (c\<lparr>uc_socket := Udp_Connected r\<rparr>)))
           | None \<Rightarrow> Inl (Raised Bad_Optional_Access)))"

datatype receive_event = Datagram endpoint bytes | Receive_Failed exn

text \<open>\<^verbatim>\<open>receive_work_\<close>: one session per datagram until the socket fails.\<close>

definition udp_buffer_size :: nat where
  "udp_buffer_size = 4096"

fun UdpClient_receive_work :: "messages \<Rightarrow> udp_client \<Rightarrow> receive_event list \<Rightarrow> udp_client \<times> string list" where
  "UdpClient_receive_work ms c [] = (c, [])"
| "UdpClient_receive_work ms c (Datagram sender d # es) =
     UdpClient_receive_work ms
       (c\<lparr>uc_sessions := AsyncQueue_put (uc_sessions c)
          \<lparr>us_endpoint = sender, us_data = take udp_buffer_size d\<rparr>\<rparr>) es"
| "UdpClient_receive_work ms c (Receive_Failed e # es) = (c, log_error ms ''udp receive work'' e)"

definition UdpClient_send :: "udp_lib \<Rightarrow> udp_client \<Rightarrow> udp_session \<Rightarrow> udp_client result" where
  "UdpClient_send lib c s =
     bind_res (check_call (udp_send_to lib (uc_socket c) s)) (\<lambda>_. Inr (c\<lparr>uc_sent := uc_sent c @ [s]\<rparr>))"

definition UdpClient_session :: "udp_client \<Rightarrow> udp_session get_result \<times> udp_client" where
  "UdpClient_session c = (let (t, q) = AsyncQueue_get (uc_sessions c) in (t, c\<lparr>uc_sessions := q\<rparr>))"

definition UdpClient_close :: "udp_client \<Rightarrow> udp_client" where
  "UdpClient_close c = c\<lparr>uc_socket := Udp_Closed\<rparr>"

section \<open>Datagrams as sessions\<close>

fun datagrams :: "receive_event list \<Rightarrow> udp_session list" where
  "datagrams [] = []"
| "datagrams (Datagram sender d # es) = \<lparr>us_endpoint = sender, us_data = take udp_buffer_size d\<rparr> # datagrams es"
| "datagrams (Receive_Failed e # es) = []"

lemma receive_work_queue:
  "uc_sessions (fst (UdpClient_receive_work ms c es)) = snd (run_queue (uc_sessions c) (map (\<lambda>s. Put s) (datagrams es)))"
  by (induction ms c es rule: UdpClient_receive_work.induct) simp_all

text \<open>A get that began before the datagrams came, and one that begins after.\<close>

lemma first_session:
  assumes "UdpClient_session c = (t, c')" "uc_sessions c = new_queue"
  shows "get_outcome (uc_sessions (fst (UdpClient_receive_work ms c' es))) t =
    (case datagrams es of [] \<Rightarrow> None | s # ss \<Rightarrow> Some (Inr s))"
proof -
  let ?ops = "Get # map (\<lambda>s. Put s) (datagrams es)"
  let ?q = "uc_sessions (fst (UdpClient_receive_work ms c' es))"
  have g: "AsyncQueue_get new_queue = (t, uc_sessions c')"
    using assms by (auto simp: UdpClient_session_def split: prod.splits)
  have "run_queue new_queue ?ops = ([t], ?q)"
    using g fst_run_puts [of "uc_sessions c'" "\<lambda>s. s" "datagrams es"]
    by (auto simp: receive_work_queue split: prod.splits)
  from channel.kth_get [of ?ops "[t]" ?q 0] this show ?thesis
    by (simp add: run_queue_exec puts_gets_runs(1) [of "\<lambda>s. s", simplified] split: list.splits)
qed

section \<open>Properties\<close>

text \<open>Starting a client without local and remote address is an error; with a local address the
  socket is bound to it, whatever remote is given, otherwise connected to the remote one; a client that
  starts has called the library for the protocol of that address.\<close>

theorem udp_start_cases:
  "UdpClient_start lib c remote = Inr c' \<longleftrightarrow>
     (case uc_local c of
        Some l \<Rightarrow> udp_open lib (is_v4 (ep_address l)) = None \<and> udp_bind lib l = None \<and>
                  c' = c\<lparr>uc_socket := Udp_Bound l\<rparr>
      | None \<Rightarrow> (case remote of
          Some r \<Rightarrow> udp_open lib (is_v4 (ep_address r)) = None \<and> udp_connect lib r = None \<and>
                    c' = c\<lparr>uc_socket := Udp_Connected r\<rparr>
        | None \<Rightarrow> False))"
  by (auto simp: UdpClient_start_def check_call_def split: option.splits)

end
