(* ===== verification/Io.thy ===== *)
theory Io
  imports Prelude
begin

text \<open>
  Coroutines over a state: \<^verbatim>\<open>async<T>\<close> of \<^verbatim>\<open>utils/headers.hpp\<close>, run to its end.
  A coroutine either never finishes on the state it is given (\<open>None\<close>: it awaits
  something that does not happen, or loops), or it finishes with a value or an exception
  and the new state. \<open>io_bind\<close> is \<^verbatim>\<open>co_await\<close>, \<open>io_catch\<close> a
  \<^verbatim>\<open>try\<close> with a handler for \<^verbatim>\<open>std::exception\<close>; undefined behaviour is not
  caught. A loop that may not end is a \<open>partial_function\<close> into this type.
\<close>

type_synonym ('s, 'a) io = "'s \<Rightarrow> ('a result \<times> 's) option"

definition io_return :: "'a \<Rightarrow> ('s, 'a) io" where
  "io_return x s = Some (Inr x, s)"

definition io_lift :: "'a result \<Rightarrow> ('s, 'a) io" where
  "io_lift r s = Some (r, s)"

definition io_bind :: "('s, 'a) io \<Rightarrow> ('a \<Rightarrow> ('s, 'b) io) \<Rightarrow> ('s, 'b) io" where
  "io_bind m f s =
     (case m s of
        None \<Rightarrow> None
      | Some (r, s') \<Rightarrow> (case r of Inl e \<Rightarrow> Some (Inl e, s') | Inr x \<Rightarrow> f x s'))"

definition io_catch :: "('s, 'a) io \<Rightarrow> (exn \<Rightarrow> ('s, 'a) io) \<Rightarrow> ('s, 'a) io" where
  "io_catch m h s =
     (case m s of
        None \<Rightarrow> None
      | Some (r, s') \<Rightarrow>
          (case r of Inl (Raised e) \<Rightarrow> h e s' | Inl (UB k) \<Rightarrow> Some (Inl (UB k), s') | Inr x \<Rightarrow> Some (Inr x, s')))"

abbreviation io_throw :: "string \<Rightarrow> ('s, 'a) io" where
  "io_throw msg \<equiv> io_lift (throw_error msg)"

text \<open>A computation on a part of the state.\<close>

definition io_zoom :: "('s \<Rightarrow> 'p) \<Rightarrow> ('p \<Rightarrow> 's \<Rightarrow> 's) \<Rightarrow> ('p, 'a) io \<Rightarrow> ('s, 'a) io" where
  "io_zoom get_part set_part m s =
     (case m (get_part s) of None \<Rightarrow> None | Some (r, p) \<Rightarrow> Some (r, set_part p s))"

lemma io_return_simps [simp]:
  "io_return x s = Some (Inr x, s)" "io_lift r s = Some (r, s)"
  by (simp_all add: io_return_def io_lift_def)

lemma io_bind_simps [simp]:
  "m s = None \<Longrightarrow> io_bind m f s = None"
  "m s = Some (Inl e, s') \<Longrightarrow> io_bind m f s = Some (Inl e, s')"
  "m s = Some (Inr x, s') \<Longrightarrow> io_bind m f s = f x s'"
  by (simp_all add: io_bind_def)

lemma io_bind_return [simp]: "io_bind (io_return x) f s = f x s"
  by (simp add: io_bind_def)

lemma io_bind_lift [simp]:
  "io_bind (io_lift (Inr x)) f s = f x s" "io_bind (io_lift (Inl e)) f s = Some (Inl e, s)"
  by (simp_all add: io_bind_def)

lemma io_bind_assoc: "io_bind (io_bind m f) g s = io_bind m (\<lambda>x. io_bind (f x) g) s"
  by (simp add: io_bind_def split: option.splits prod.splits sum.splits)

lemma io_bind_eq_Some:
  "io_bind m f s = Some (r, s'') \<longleftrightarrow>
     (\<exists>e. r = Inl e \<and> m s = Some (Inl e, s'')) \<or> (\<exists>x s'. m s = Some (Inr x, s') \<and> f x s' = Some (r, s''))"
  by (auto simp: io_bind_def split: option.splits prod.splits sum.splits)

lemma io_bind_InrE [elim!]:
  assumes "io_bind m f s = Some (Inr y, s'')"
  obtains x s' where "m s = Some (Inr x, s')" and "f x s' = Some (Inr y, s'')"
  using assms by (auto simp: io_bind_eq_Some)

lemma io_catch_simps [simp]:
  "m s = None \<Longrightarrow> io_catch m h s = None"
  "m s = Some (Inl (Raised e), s') \<Longrightarrow> io_catch m h s = h e s'"
  "m s = Some (Inl (UB k), s') \<Longrightarrow> io_catch m h s = Some (Inl (UB k), s')"
  "m s = Some (Inr x, s') \<Longrightarrow> io_catch m h s = Some (Inr x, s')"
  by (simp_all add: io_catch_def)

section \<open>Loops\<close>

lemma io_bind_mono [partial_function_mono]:
  assumes "\<And>s. mono_option (\<lambda>f. B f s)" and "\<And>y s. mono_option (\<lambda>f. C y f s)"
  shows "mono_option (\<lambda>f. io_bind (B f) (\<lambda>y. C y f) s)"
proof (rule monotoneI)
  fix f g :: "'b \<Rightarrow> 'c option"
  assume fg: "fun_ord option_ord f g"
  then have B: "option_ord (B f s) (B g s)" and C: "\<And>y s. option_ord (C y f s) (C y g s)"
    using assms by (auto simp: monotone_def)
  from B consider "B f s = None" | "B f s = B g s" by (auto simp: flat_ord_def)
  then show "option_ord (io_bind (B f) (\<lambda>y. C y f) s) (io_bind (B g) (\<lambda>y. C y g) s)"
  proof cases
    case 2
    have "option_ord (case r of Inl e \<Rightarrow> Some (Inl e, s') | Inr x \<Rightarrow> C x f s')
        (case r of Inl e \<Rightarrow> Some (Inl e, s') | Inr x \<Rightarrow> C x g s')" for r s'
      using C by (cases r) (simp_all add: flat_ord_def)
    with 2 show ?thesis
      by (cases "B g s") (auto simp: io_bind_def flat_ord_def)
  qed (simp add: flat_ord_def)
qed

section \<open>Absence of undefined behaviour\<close>

text \<open>\<open>io_safe m\<close>: on no state does \<open>m\<close> finish with undefined behaviour.\<close>

definition io_safe :: "('s, 'a) io \<Rightarrow> bool" where
  "io_safe m \<longleftrightarrow> (\<forall>s r s'. m s = Some (r, s') \<longrightarrow> no_ub r)"

lemma io_safeD: "io_safe m \<Longrightarrow> m s = Some (r, s') \<Longrightarrow> no_ub r"
  unfolding io_safe_def by blast

lemma io_safeI: "(\<And>s r s'. m s = Some (r, s') \<Longrightarrow> no_ub r) \<Longrightarrow> io_safe m"
  by (simp add: io_safe_def)

lemma no_ub_Inl_cong: "no_ub (Inl e :: 'a result) \<Longrightarrow> no_ub (Inl e :: 'b result)"
  by (simp add: no_ub_iff)

lemma io_safe_return [simp, intro]: "io_safe (io_return x)"
  by (auto intro: io_safeI)

lemma io_safe_lift [simp]: "io_safe (io_lift r) = no_ub r"
  by (simp add: io_safe_def)

lemma io_safe_bind:
  assumes "io_safe m" "\<And>s x s'. m s = Some (Inr x, s') \<Longrightarrow> io_safe (f x)"
  shows "io_safe (io_bind m f)"
proof (rule io_safeI)
  fix s r s''
  assume "io_bind m f s = Some (r, s'')"
  then consider e where "r = Inl e" "m s = Some (Inl e, s'')"
    | x s' where "m s = Some (Inr x, s')" "f x s' = Some (r, s'')"
    by (auto simp: io_bind_eq_Some)
  then show "no_ub r"
  proof cases
    case 1
    then show ?thesis using io_safeD [OF assms(1) 1(2)] by (simp add: no_ub_Inl_cong)
  next
    case 2
    then show ?thesis using io_safeD [OF assms(2)] by blast
  qed
qed

lemma io_safe_catch:
  assumes "io_safe m" "\<And>e. io_safe (h e)"
  shows "io_safe (io_catch m h)"
proof (rule io_safeI)
  fix s r s''
  assume c: "io_catch m h s = Some (r, s'')"
  show "no_ub r"
  proof (cases "m s")
    case None
    with c show ?thesis by simp
  next
    case (Some p)
    obtain r' s' where p: "p = (r', s')" by (cases p)
    show ?thesis
      using c assms(1)[THEN io_safeD, of s] assms(2)[THEN io_safeD] Some p
      by (cases r' rule: no_ub.cases) auto
  qed
qed

section \<open>Coroutines without a state of their own\<close>

text \<open>What a \<^verbatim>\<open>co_await\<close> of another component gives: nothing ever, or a result.\<close>

type_synonym 'a awaited = "'a result option"

definition async_bind :: "'a awaited \<Rightarrow> ('a \<Rightarrow> 'b awaited) \<Rightarrow> 'b awaited" where
  "async_bind m f = (case m of None \<Rightarrow> None | Some (Inl e) \<Rightarrow> Some (Inl e) | Some (Inr x) \<Rightarrow> f x)"

lemma async_bind_simps [simp]:
  "async_bind None f = None"
  "async_bind (Some (Inl e)) f = Some (Inl e)"
  "async_bind (Some (Inr x)) f = f x"
  by (simp_all add: async_bind_def)

lemma async_bind_eq_Inr:
  "async_bind m f = Some (Inr y) \<longleftrightarrow> (\<exists>x. m = Some (Inr x) \<and> f x = Some (Inr y))"
  by (auto simp: async_bind_def split: option.splits sum.splits)

text \<open>A coroutine over a state, started on it and left with the final state.\<close>

definition run_on :: "('s, 'a) io \<Rightarrow> 's \<Rightarrow> 's awaited" where
  "run_on m s =
     (case m s of None \<Rightarrow> None | Some (Inl e, s') \<Rightarrow> Some (Inl e) | Some (Inr x, s') \<Rightarrow> Some (Inr s'))"

lemma run_on_simps [simp]:
  "m s = None \<Longrightarrow> run_on m s = None"
  "m s = Some (Inl e, s') \<Longrightarrow> run_on m s = Some (Inl e)"
  "m s = Some (Inr x, s') \<Longrightarrow> run_on m s = Some (Inr s')"
  by (simp_all add: run_on_def)

lemma run_on_eq_Inr: "run_on m s = Some (Inr s') \<longleftrightarrow> (\<exists>x. m s = Some (Inr x, s'))"
  by (cases "m s") (auto simp: run_on_def split: sum.splits)

lemma no_ub_run_on: "io_safe m \<Longrightarrow> run_on m s = Some r \<Longrightarrow> no_ub r"
  by (auto simp: run_on_def no_ub_iff dest: io_safeD split: option.splits sum.splits)

lemma no_ub_async_bind:
  assumes "async_bind m f = Some r" and "\<And>r. m = Some r \<Longrightarrow> no_ub r" and "\<And>x r. f x = Some r \<Longrightarrow> no_ub r"
  shows "no_ub r"
proof (cases m)
  case (Some q)
  then show ?thesis using assms no_ub_Inl_cong by (cases q) auto
qed (use assms(1) in simp)

end
