(* ===== verification/Tls_Context.thy ===== *)
theory Tls_Context
  imports Io
begin

text \<open>
  What the source uses of \<^verbatim>\<open>ssl::context\<close>: its verification mode and whether the system's certificates are
  looked up. A new context of OpenSSL verifies nothing (the documented default \<^verbatim>\<open>SSL_VERIFY_NONE\<close>).
\<close>

datatype verify_mode = Verify_None | Verify_Peer

record tls_context =
  ctx_verify :: verify_mode
  ctx_default_paths :: bool

text \<open>\<^verbatim>\<open>ssl::context(ssl::context::tls_client)\<close>\<close>

definition tls_client_context :: tls_context where
  "tls_client_context = \<lparr>ctx_verify = Verify_None, ctx_default_paths = False\<rparr>"

end
