(* ===== verification/Dns_Servers.thy ===== *)
theory Dns_Servers
  imports Udp_Client Tls_Context
begin

text \<open>
  \<^verbatim>\<open>dns/servers/*\<close>: one query to an upstream server, over UDP or HTTPS. What
  arrives at the UDP socket while the coroutine waits is a list of events; \<open>None\<close> means
  that the answer never comes. The HTTPS server's connection is the library's.
\<close>

section \<open>UDP\<close>

definition UdpDnsServer_relay ::
  "messages \<Rightarrow> udp_lib \<Rightarrow> endpoint \<Rightarrow> receive_event list \<Rightarrow> bytes \<Rightarrow> bytes awaited" where
  "UdpDnsServer_relay ms lib ep events data =
     (case bind_res (UdpClient_start lib (UdpClient_new None) (Some ep)) (\<lambda>client.
             UdpClient_send lib client \<lparr>us_endpoint = ep, us_data = data\<rparr>) of
        Inl f \<Rightarrow> Some (Inl f)
      | Inr client \<Rightarrow>
          (let (ticket, client) = UdpClient_session client;
               (client, logs) = UdpClient_receive_work ms client events
           in async_bind (get_outcome (uc_sessions client) ticket) (\<lambda>session.
              let client = UdpClient_close client in Some (Inr (us_data session)))))"

section \<open>HTTPS\<close>

record http_request =
  rq_method :: string
  rq_target :: string
  rq_version :: nat
  rq_fields :: "(string \<times> string) list"
  rq_body :: bytes

record 's https_lib =
  hs_connect :: "endpoint \<Rightarrow> 's awaited"
  hs_hostname :: "string \<Rightarrow> 's \<Rightarrow> 's option"
  hs_handshake :: "tls_context \<Rightarrow> 's \<Rightarrow> 's awaited"
  hs_write :: "http_request \<Rightarrow> 's \<Rightarrow> 's awaited"
  hs_read_body :: "'s \<Rightarrow> bytes awaited"

record https_server =
  hd_endpoint :: endpoint
  hd_host :: string
  hd_path :: string
  hd_serverName :: string
  hd_insecure :: bool
  hd_ctx :: tls_context

definition HttpsDnsServer_new :: "endpoint \<Rightarrow> string \<Rightarrow> string \<Rightarrow> string \<Rightarrow> bool \<Rightarrow> https_server" where
  "HttpsDnsServer_new endpoint host path serverName insecure =
     (let ctx = tls_client_context;
          ctx = ctx\<lparr>ctx_verify := Verify_None\<rparr>;
          ctx = ctx\<lparr>ctx_default_paths := True\<rparr>
      in \<lparr>hd_endpoint = endpoint, hd_host = host, hd_path = path, hd_serverName = serverName,
          hd_insecure = insecure, hd_ctx = ctx\<rparr>)"

definition dns_message_type :: string where
  "dns_message_type = ''application/dns-message''"

definition https_request :: "https_server \<Rightarrow> bytes \<Rightarrow> http_request" where
  "https_request s data =
     \<lparr>rq_method = ''POST'', rq_target = hd_path s, rq_version = 11,
      rq_fields = [(''Host'', hd_host s), (''Content-Type'', dns_message_type), (''Accept'', dns_message_type),
                   (''Content-Length'', decimal (length data))],
      rq_body = data\<rparr>"

definition HttpsDnsServer_relay :: "'s https_lib \<Rightarrow> https_server \<Rightarrow> bytes \<Rightarrow> bytes awaited" where
  "HttpsDnsServer_relay lib s data =
     async_bind (hs_connect lib (hd_endpoint s)) (\<lambda>stream.
       case hs_hostname lib (hd_serverName s) stream of
         None \<Rightarrow> Some (throw_error ''fail to set tls hostname'')
       | Some stream \<Rightarrow>
           async_bind (hs_handshake lib (hd_ctx s) stream) (\<lambda>stream.
           async_bind (hs_write lib (https_request s data) stream) (\<lambda>stream.
           hs_read_body lib stream)))"

section \<open>Both kinds\<close>

datatype dns_server = Udp_Dns_Server endpoint | Https_Dns_Server https_server

fun DnsServer_relay ::
  "messages \<Rightarrow> udp_lib \<Rightarrow> (endpoint \<Rightarrow> receive_event list) \<Rightarrow> 's https_lib \<Rightarrow> dns_server \<Rightarrow> bytes \<Rightarrow> bytes awaited" where
  "DnsServer_relay ms ul events hl (Udp_Dns_Server ep) data = UdpDnsServer_relay ms ul ep (events ep) data"
| "DnsServer_relay ms ul events hl (Https_Dns_Server s) data = HttpsDnsServer_relay hl s data"

lemma no_ub_udp_relay:
  assumes "UdpDnsServer_relay ms ul ep events data = Some r"
  shows "no_ub r"
proof -
  let ?start = "bind_res (UdpClient_start ul (UdpClient_new None) (Some ep)) (\<lambda>client.
      UdpClient_send ul client \<lparr>us_endpoint = ep, us_data = data\<rparr>)"
  show ?thesis
  proof (cases ?start)
    case (Inl f)
    have "no_ub ?start"
      by (auto simp: UdpClient_start_def UdpClient_send_def check_call_def Let_def intro!: no_ub_bind split: option.splits)
    then show ?thesis using assms Inl by (auto simp: UdpDnsServer_relay_def no_ub_iff)
  next
    case (Inr client)
    then have "uc_sessions client = new_queue"
      by (auto simp: UdpClient_start_def UdpClient_send_def UdpClient_new_def check_call_def bind_res_eq_Inr Let_def split: option.splits if_splits)
    moreover obtain t c where s: "UdpClient_session client = (t, c)" by fastforce
    ultimately have "get_outcome (uc_sessions (fst (UdpClient_receive_work ms c events))) t =
        (case datagrams events of [] \<Rightarrow> None | s # ss \<Rightarrow> Some (Inr s))"
      using first_session by blast
    then show ?thesis using assms Inr s
      by (auto simp: UdpDnsServer_relay_def Let_def split_beta split: list.splits)
  qed
qed

section \<open>Properties\<close>

text \<open>A query over UDP returns the first datagram to arrive, cut to 4096 bytes, whatever it holds:
  neither its transaction id nor its sender is compared with the query; without a datagram the caller
  waits for ever.\<close>

theorem udp_relay_returns_first_datagram:
  "udp_open lib (is_v4 (ep_address ep)) = None \<Longrightarrow> udp_connect lib ep = None \<Longrightarrow>
   udp_send_to lib (Udp_Connected ep) \<lparr>us_endpoint = ep, us_data = data\<rparr> = None \<Longrightarrow>
   UdpDnsServer_relay ms lib ep events data =
     (case datagrams events of [] \<Rightarrow> None | s # ss \<Rightarrow> Some (Inr (us_data s)))"
proof -
  assume lib: "udp_open lib (is_v4 (ep_address ep)) = None" "udp_connect lib ep = None"
    "udp_send_to lib (Udp_Connected ep) \<lparr>us_endpoint = ep, us_data = data\<rparr> = None"
  let ?c = "(UdpClient_new None)\<lparr>uc_socket := Udp_Connected ep, uc_sent := [\<lparr>us_endpoint = ep, us_data = data\<rparr>]\<rparr>"
  obtain t c1 where s: "UdpClient_session ?c = (t, c1)" by (cases "UdpClient_session ?c")
  obtain c2 logs where r: "UdpClient_receive_work ms c1 events = (c2, logs)"
    by (cases "UdpClient_receive_work ms c1 events")
  have "uc_sessions ?c = new_queue" by (simp add: UdpClient_new_def)
  from first_session [OF s this, of ms events] have "get_outcome (uc_sessions c2) t =
      (case datagrams events of [] \<Rightarrow> None | s # ss \<Rightarrow> Some (Inr s))"
    by (simp add: r)
  moreover have "bind_res (UdpClient_start lib (UdpClient_new None) (Some ep)) (\<lambda>client.
      UdpClient_send lib client \<lparr>us_endpoint = ep, us_data = data\<rparr>) = Inr ?c"
    using lib by (simp add: UdpClient_start_def UdpClient_send_def UdpClient_new_def check_call_def)
  ultimately show ?thesis
    by (simp add: UdpDnsServer_relay_def s r Let_def split: list.splits)
qed

definition open_udp :: udp_lib where
  "open_udp = \<lparr>udp_open = (\<lambda>v4. None), udp_bind = (\<lambda>e. None), udp_connect = (\<lambda>e. None), udp_send_to = (\<lambda>s d. None)\<rparr>"

theorem udp_relay_returns_first_datagram_witness:
  "UdpDnsServer_relay \<lparr>code_message = (\<lambda>c. ''''), exn_what = (\<lambda>e. '''')\<rparr> open_udp \<lparr>ep_address = IpV4 8 8 8 8, ep_port = 53\<rparr>
     [Datagram \<lparr>ep_address = IpV4 9 9 9 9, ep_port = 1\<rparr> [1, 2], Datagram \<lparr>ep_address = IpV4 8 8 8 8, ep_port = 53\<rparr> [3]] [7]
   = Some (Inr [1, 2])"
  by (subst udp_relay_returns_first_datagram) (simp_all add: open_udp_def udp_buffer_size_def)

text \<open>A query over HTTPS answers with the body of the response to one POST of the query to the
  configured host and path, after the handshake for the configured server name, in which no certificate is
  verified whatever \<^verbatim>\<open>insecure\<close> was; a failure of any stage is passed on.\<close>

theorem https_relay_posts_query:
  "HttpsDnsServer_relay lib (HttpsDnsServer_new ep host path name insecure) data = Some (Inr body) \<longleftrightarrow>
     (\<exists>s0 s1 s2 s3. hs_connect lib ep = Some (Inr s0) \<and> hs_hostname lib name s0 = Some s1 \<and>
        hs_handshake lib \<lparr>ctx_verify = Verify_None, ctx_default_paths = True\<rparr> s1 = Some (Inr s2) \<and>
        hs_write lib (https_request (HttpsDnsServer_new ep host path name insecure) data) s2 = Some (Inr s3) \<and>
        hs_read_body lib s3 = Some (Inr body))"
  by (auto simp: HttpsDnsServer_relay_def HttpsDnsServer_new_def tls_client_context_def async_bind_eq_Inr Let_def
      split: option.splits)

end
