(* ===== verification/Ip_Net.thy ===== *)
theory Ip_Net
  imports Address
begin

text \<open>
  \<^verbatim>\<open>router/ipnet.hpp\<close> and \<^verbatim>\<open>router/ipnet.cpp\<close>: CIDR networks, their parser and
  the membership test. The code's \<^verbatim>\<open>contains\<close> reads both sides of its comparison
  from \<^verbatim>\<open>network\<close>; the model does the same. \<open>in_cidr\<close> is the membership the name
  promises, for comparison.
\<close>

record ip_network =
  network :: ip_address
  cidr_prefix :: u8

section \<open>Membership\<close>

text \<open>The byte loop of the version 6 branch, from index \<open>i\<close> for \<open>n\<close> more bytes.\<close>

fun equal_bytes :: "bytes \<Rightarrow> bytes \<Rightarrow> nat \<Rightarrow> nat \<Rightarrow> bool result" where
  "equal_bytes net ipAddr i 0 = Inr True"
| "equal_bytes net ipAddr i (Suc n) =
     bind_res (vec_at net i) (\<lambda>a.
     bind_res (vec_at ipAddr i) (\<lambda>b.
       if a \<noteq> b then Inr False else equal_bytes net ipAddr (i + 1) n))"

fun IpNetwork_contains :: "ip_network \<Rightarrow> ip_address \<Rightarrow> bool result" where
  "IpNetwork_contains nw addr =
     (if is_v4 (network nw) \<noteq> is_v4 addr then Inr False
      else case network nw of
        IpV4 a b c d \<Rightarrow>
          (let net = v4_to_uint a b c d;
               ipAddr = v4_to_uint a b c d;
               mask = push_bit (32 - unat (cidr_prefix nw)) (0xffffffff :: u32)
           in if cidr_prefix nw > 32 then Inr False
              else if cidr_prefix nw = 0 then Inr True
              else Inr (net AND mask = ipAddr AND mask))
      | IpV6 bs \<Rightarrow>
          (let net = bs;
               ipAddr = bs;
               fullBytes = unat (cidr_prefix nw) div 8;
               bits = unat (cidr_prefix nw) mod 8
           in bind_res (equal_bytes net ipAddr 0 fullBytes) (\<lambda>same.
              if \<not> same then Inr False
              else if bits \<noteq> 0 then
                let mask = push_bit (8 - bits) (0xff :: u32)
                in bind_res (vec_at net fullBytes) (\<lambda>x.
                   bind_res (vec_at ipAddr fullBytes) (\<lambda>y.
                   if ucast x AND mask \<noteq> ucast y AND mask then Inr False else Inr True))
              else Inr True)))"

declare IpNetwork_contains.simps [simp del]

section \<open>Parsing\<close>

definition parseCidr :: "make_address \<Rightarrow> string \<Rightarrow> ip_network result" where
  "parseCidr mk cidr =
     (case str_find cidr ''/'' 0 of
        None \<Rightarrow>
          bind_res (make_address_throw mk cidr) (\<lambda>ipAddr.
            if is_v4 ipAddr then Inr \<lparr>network = ipAddr, cidr_prefix = 32\<rparr>
            else Inr \<lparr>network = ipAddr, cidr_prefix = 128\<rparr>)
      | Some pos \<Rightarrow>
          (let ipStr = take pos cidr;
               prefixStr = drop (pos + 1) cidr
           in bind_res (make_address_throw mk ipStr) (\<lambda>ipAddr.
              bind_res (stoul 10 prefixStr) (\<lambda>pfx.
              if (is_v4 ipAddr \<and> (pfx > 32 \<or> pfx < 0)) \<or> (\<not> is_v4 ipAddr \<and> (pfx > 128 \<or> pfx < 0))
              then throw_error ''cidr error prefix''
              else Inr \<lparr>network = ipAddr, cidr_prefix = of_nat pfx\<rparr>))))"

section \<open>What the parser guarantees\<close>

definition cidr_max :: "ip_address \<Rightarrow> nat" where
  "cidr_max a = (if is_v4 a then 32 else 128)"

definition wf_network :: "ip_network \<Rightarrow> bool" where
  "wf_network nw \<longleftrightarrow> wf_ip (network nw) \<and> unat (cidr_prefix nw) \<le> cidr_max (network nw)"

lemma make_address_throw_Inr [res_elims]:
  "make_address_throw mk s = Inr a \<longleftrightarrow> mk s = Some a"
  by (auto simp: make_address_throw_def split: option.splits)

lemma parseCidr_wf:
  assumes "parseCidr mk s = Inr nw" and mk: "\<And>t a. mk t = Some a \<Longrightarrow> wf_ip a"
  shows "wf_network nw"
proof (cases "str_find s ''/'' 0")
  case None
  with assms show ?thesis
    by (auto simp: parseCidr_def wf_network_def cidr_max_def make_address_throw_Inr split: if_splits)
next
  case (Some pos)
  with assms(1) obtain a where a: "mk (take pos s) = Some a"
    and "\<exists>pfx \<le> cidr_max a. nw = \<lparr>network = a, cidr_prefix = of_nat pfx\<rparr>"
    by (fastforce simp: parseCidr_def cidr_max_def make_address_throw_Inr Let_def not_less split: if_splits)
  then obtain pfx where le: "pfx \<le> cidr_max a" and nw: "nw = \<lparr>network = a, cidr_prefix = of_nat pfx\<rparr>"
    by blast
  moreover from le have "pfx < 256" by (simp add: cidr_max_def split: if_splits)
  ultimately show ?thesis using mk [OF a] by (simp add: wf_network_def unat_of_nat_u8)
qed

lemma no_ub_parseCidr: "no_ub (parseCidr mk s)"
  by (auto simp: parseCidr_def make_address_throw_def Let_def no_ub_stoul
      intro!: no_ub_bind split: option.splits)

lemma find_slash_decimal: "CHR ''/'' \<notin> set ip \<Longrightarrow> str_find (ip @ ''/'' @ rest) ''/'' 0 = Some (length ip)"
  by (auto simp: str_find_def find_in_char takeWhile_append)

lemma parseCidr_print:
  assumes "mk ip = Some a" "CHR ''/'' \<notin> set ip" "n \<le> cidr_max a"
  shows "parseCidr mk (ip @ ''/'' @ decimal n) = Inr \<lparr>network = a, cidr_prefix = of_nat n\<rparr>"
proof -
  have "n < 2 ^ 64" using assms(3) by (simp add: cidr_max_def split: if_splits)
  then show ?thesis
    using assms find_slash_decimal [OF assms(2), of "decimal n"]
    by (auto simp: parseCidr_def make_address_throw_def stoul_decimal cidr_max_def)
qed

section \<open>What the membership test computes\<close>

lemma equal_bytes_refl: "i + n \<le> length bs \<Longrightarrow> equal_bytes bs bs i n = Inr True"
  by (induction n arbitrary: i) auto

lemma contains_v4: "network nw = IpV4 a b c d \<Longrightarrow>
  IpNetwork_contains nw addr = Inr (is_v4 addr \<and> cidr_prefix nw \<le> 32)"
  by (auto simp: IpNetwork_contains.simps Let_def)

lemma contains_v6:
  assumes "network nw = IpV6 bs" "length bs = 16" "unat (cidr_prefix nw) \<le> 128"
  shows "IpNetwork_contains nw addr = Inr (\<not> is_v4 addr)"
proof -
  let ?p = "unat (cidr_prefix nw)"
  have full: "equal_bytes bs bs 0 (?p div 8) = Inr True"
    by (rule equal_bytes_refl) (use assms in simp)
  have "?p div 8 < length bs" if "?p mod 8 \<noteq> 0"
    using that assms by presburger
  with assms full show ?thesis by (simp add: IpNetwork_contains.simps Let_def)
qed

text \<open>
  Of a well-formed network, the test looks at the family only: the bits of the address
  play no role.
\<close>

lemma contains_family_only:
  assumes "wf_network nw"
  shows "IpNetwork_contains nw addr = Inr (is_v4 (network nw) = is_v4 addr)"
proof (cases "network nw")
  case (IpV4 a b c d)
  with assms show ?thesis
    by (simp add: contains_v4 wf_network_def cidr_max_def word_le_nat_alt)
next
  case (IpV6 bs)
  with assms show ?thesis
    by (simp add: contains_v6 wf_network_def cidr_max_def)
qed

section \<open>The membership a CIDR network stands for\<close>

definition ip_bit :: "ip_address \<Rightarrow> nat \<Rightarrow> bool" where
  "ip_bit a k = bit (ip_to_bytes a ! (k div 8)) (7 - k mod 8)"

definition in_cidr :: "ip_network \<Rightarrow> ip_address \<Rightarrow> bool" where
  "in_cidr nw a \<longleftrightarrow>
     is_v4 (network nw) = is_v4 a \<and>
     list_all (\<lambda>k. ip_bit (network nw) k = ip_bit a k) [0..<unat (cidr_prefix nw)]"

lemma contains_complete:
  "wf_network nw \<Longrightarrow> in_cidr nw a \<Longrightarrow> IpNetwork_contains nw a = Inr True"
  by (simp add: contains_family_only in_cidr_def)

lemma contains_unsound:
  "wf_network \<lparr>network = IpV4 10 0 0 0, cidr_prefix = 8\<rparr>"
  "\<not> in_cidr \<lparr>network = IpV4 10 0 0 0, cidr_prefix = 8\<rparr> (IpV4 8 8 8 8)"
  "IpNetwork_contains \<lparr>network = IpV4 10 0 0 0, cidr_prefix = 8\<rparr> (IpV4 8 8 8 8) = Inr True"
proof -
  show "wf_network \<lparr>network = IpV4 10 0 0 0, cidr_prefix = 8\<rparr>"
    by (simp add: wf_network_def cidr_max_def)
  show "\<not> in_cidr \<lparr>network = IpV4 10 0 0 0, cidr_prefix = 8\<rparr> (IpV4 8 8 8 8)"
    by (simp add: in_cidr_def ip_bit_def upt_rec)
  show "IpNetwork_contains \<lparr>network = IpV4 10 0 0 0, cidr_prefix = 8\<rparr> (IpV4 8 8 8 8) = Inr True"
    by (simp add: contains_v4)
qed

section \<open>Properties\<close>

text \<open>Every network that \<^verbatim>\<open>parseCidr\<close> returns has a prefix within its family's width
  and an address of its family's length.\<close>

theorem parseCidr_well_formed:
  "parseCidr mk s = Inr nw \<Longrightarrow> (\<And>t a. mk t = Some a \<Longrightarrow> wf_ip a) \<Longrightarrow> wf_network nw"
  by (rule parseCidr_wf)

definition loopback_only :: make_address where
  "loopback_only s = (if s = ''127.0.0.1'' then Some (IpV4 127 0 0 1) else None)"

lemma loopback_cidr: "parseCidr loopback_only ''127.0.0.1/8'' = Inr \<lparr>network = IpV4 127 0 0 1, cidr_prefix = 8\<rparr>"
  by (simp add: parseCidr_def str_find_def make_address_throw_def loopback_only_def stoul_def
      strip_sign_def is_space_def is_digit_of_def digit_value_def digits_value_def)

theorem parseCidr_well_formed_witness: "wf_network \<lparr>network = IpV4 127 0 0 1, cidr_prefix = 8\<rparr>"
  by (rule parseCidr_well_formed [OF loopback_cidr]) (auto simp: loopback_only_def split: if_splits)

text \<open>\<^verbatim>\<open>parseCidr\<close> reads back a network printed as address, slash and decimal prefix,
  for every prefix its family allows.\<close>

theorem parseCidr_reads_printed:
  "mk ip = Some a \<Longrightarrow> CHR ''/'' \<notin> set ip \<Longrightarrow> n \<le> cidr_max a \<Longrightarrow>
   parseCidr mk (ip @ ''/'' @ decimal n) = Inr \<lparr>network = a, cidr_prefix = of_nat n\<rparr>"
  by (rule parseCidr_print)

theorem parseCidr_reads_printed_witness:
  "parseCidr loopback_only (''127.0.0.1'' @ ''/'' @ decimal 32) =
     Inr \<lparr>network = IpV4 127 0 0 1, cidr_prefix = of_nat 32\<rparr>"
  by (rule parseCidr_reads_printed) (simp_all add: loopback_only_def cidr_max_def)

text \<open>C38: of a well-formed network the membership test returns true for every address of the CIDR
  range, and for every other address of the same family as well: it answers whether the families agree.\<close>

theorem contains_answers_family:
  "wf_network nw \<Longrightarrow>
   IpNetwork_contains nw a = Inr (is_v4 (network nw) = is_v4 a) \<and>
   (in_cidr nw a \<longrightarrow> IpNetwork_contains nw a = Inr True)"
  by (simp add: contains_family_only in_cidr_def)

theorem contains_answers_family_witness:
  "IpNetwork_contains \<lparr>network = IpV4 10 0 0 0, cidr_prefix = 8\<rparr> (IpV4 8 8 8 8) = Inr True"
  using contains_answers_family [OF contains_unsound(1), of "IpV4 8 8 8 8"] by simp

end
