(* ===== verification/First_Match.thy ===== *)
theory First_Match
  imports Prelude
begin

text \<open>
  The contract of a rule table that is searched in order: the first rule that hits the
  query decides, and a default answers when none does. \<^verbatim>\<open>Router::match\<close> and
  \<^verbatim>\<open>DnsCenter::match_\<close> are both such tables; what a client may rely on is proved
  once here and instantiated for each.
\<close>

locale first_match =
  fixes loop :: "'r list \<Rightarrow> 'q \<Rightarrow> 't \<Rightarrow> 't result"
    and hits :: "'r \<Rightarrow> 'q \<Rightarrow> bool"
    and target :: "'r \<Rightarrow> 't"
    and ok :: "'r \<Rightarrow> bool"
  assumes loop_nil: "loop [] q d = Inr d"
    and loop_hit: "ok r \<Longrightarrow> hits r q \<Longrightarrow> loop (r # rs) q d = Inr (target r)"
    and loop_miss: "ok r \<Longrightarrow> \<not> hits r q \<Longrightarrow> loop (r # rs) q d = loop rs q d"
begin

lemma loop_find:
  "list_all ok rs \<Longrightarrow>
   loop rs q d = Inr (case find (\<lambda>r. hits r q) rs of Some r \<Rightarrow> target r | None \<Rightarrow> d)"
  by (induction rs) (auto simp: loop_nil loop_hit loop_miss)

lemma loop_default:
  "list_all ok rs \<Longrightarrow> (\<And>r. r \<in> set rs \<Longrightarrow> \<not> hits r q) \<Longrightarrow> loop rs q d = Inr d"
  by (induction rs) (auto simp: loop_nil loop_miss)

lemma loop_first:
  assumes "list_all ok pre" "ok r" "\<And>p. p \<in> set pre \<Longrightarrow> \<not> hits p q" "hits r q"
  shows "loop (pre @ r # post) q d = Inr (target r)"
  using assms(1,3) by (induction pre) (auto simp: loop_miss loop_hit assms(2,4))

lemma loop_total: "list_all ok rs \<Longrightarrow> \<exists>t. loop rs q d = Inr t"
  by (simp add: loop_find)

lemma loop_result:
  "list_all ok rs \<Longrightarrow> loop rs q d = Inr t \<Longrightarrow> t = d \<or> t \<in> target ` set rs"
  by (auto simp: loop_find find_Some_iff split: option.splits)

lemma loop_same_hits:
  assumes "list_all ok rs" "\<And>r. r \<in> set rs \<Longrightarrow> hits r q = hits r q'"
  shows "loop rs q d = loop rs q' d"
proof -
  have "find (\<lambda>r. hits r q) rs = find (\<lambda>r. hits r q') rs"
    using assms(2) by (intro find_cong) auto
  then show ?thesis using assms(1) by (simp add: loop_find)
qed

end

end
