(* ===== verification/Router.thy ===== *)
theory Router
  imports Ip_Net First_Match
begin

text \<open>
  \<^verbatim>\<open>router/rule.hpp\<close>, \<^verbatim>\<open>router/rule.cpp\<close>, \<^verbatim>\<open>router/router.hpp\<close> and
  \<^verbatim>\<open>router/router.cpp\<close>: domain rules, rules that join a domain rule and a list of
  CIDR networks, and the route table. A compiled \<^verbatim>\<open>std::regex\<close> is the predicate that
  \<^verbatim>\<open>std::regex_match\<close> decides with it.
\<close>

section \<open>Domain rules\<close>

type_synonym regex = "string \<Rightarrow> bool"

record domain_rule =
  dr_domain :: "string list"
  dr_domainSuffix :: "string list"
  dr_domainKeyword :: "string list"
  dr_domainRegex :: "regex list"

definition suffix_item_matches :: "string \<Rightarrow> string \<Rightarrow> bool" where
  "suffix_item_matches domain item \<longleftrightarrow>
     length item \<le> length domain \<and>
     slice (length domain - length item) (length item) domain = item \<and>
     (length domain = length item \<or> domain ! (length domain - length item - 1) = CHR ''.'')"

definition matchDomain :: "domain_rule \<Rightarrow> string \<Rightarrow> bool" where
  "matchDomain r domain =
     (if list_ex (\<lambda>item. domain = item) (dr_domain r) then True
      else if list_ex (\<lambda>item. suffix_item_matches domain item) (dr_domainSuffix r) then True
      else if list_ex (\<lambda>item. str_find domain item 0 \<noteq> None) (dr_domainKeyword r) then True
      else if list_ex (\<lambda>item. item domain) (dr_domainRegex r) then True
      else False)"

text \<open>
  A suffix item stands for the domain itself and for everything below it, at a label
  boundary.
\<close>

lemma suffix_item_matches_append:
  "suffix_item_matches (pre @ item) item \<longleftrightarrow> pre = [] \<or> last pre = CHR ''.''"
  by (cases pre rule: rev_cases) (auto simp: suffix_item_matches_def slice_def nth_append)

lemma suffix_item_matches_imp_append:
  assumes "suffix_item_matches domain item"
  shows "\<exists>pre. domain = pre @ item"
proof -
  let ?k = "length domain - length item"
  have "drop ?k domain = item"
    using assms by (simp add: suffix_item_matches_def slice_def)
  then have "domain = take ?k domain @ item"
    by (metis append_take_drop_id)
  then show ?thesis by blast
qed

lemma suffix_item_matches_iff:
  "suffix_item_matches domain item \<longleftrightarrow> domain = item \<or> (\<exists>sub. domain = sub @ ''.'' @ item)"
proof
  assume m: "suffix_item_matches domain item"
  then obtain pre where dom: "domain = pre @ item"
    using suffix_item_matches_imp_append by blast
  with m have "pre = [] \<or> last pre = CHR ''.''"
    by (simp add: suffix_item_matches_append)
  with dom show "domain = item \<or> (\<exists>sub. domain = sub @ ''.'' @ item)"
    by (cases pre rule: rev_cases) auto
next
  assume "domain = item \<or> (\<exists>sub. domain = sub @ ''.'' @ item)"
  then obtain pre where "domain = pre @ item" "pre = [] \<or> last pre = CHR ''.''"
    by fastforce
  then show "suffix_item_matches domain item"
    by (simp add: suffix_item_matches_append)
qed

definition domain_in_rule :: "domain_rule \<Rightarrow> string \<Rightarrow> bool" where
  "domain_in_rule r d \<longleftrightarrow>
     d \<in> set (dr_domain r) \<or>
     (\<exists>s \<in> set (dr_domainSuffix r). d = s \<or> (\<exists>sub. d = sub @ ''.'' @ s)) \<or>
     (\<exists>k \<in> set (dr_domainKeyword r). sublist k d) \<or>
     (\<exists>g \<in> set (dr_domainRegex r). g d)"

lemma matchDomain_iff: "matchDomain r d \<longleftrightarrow> domain_in_rule r d"
  by (auto simp: matchDomain_def domain_in_rule_def list_ex_iff suffix_item_matches_iff
      str_find_npos_iff)

section \<open>Rules\<close>

record rule =
  domainRule :: domain_rule
  cidr :: "ip_network list"

fun match_cidr :: "ip_network list \<Rightarrow> ip_address \<Rightarrow> bool result" where
  "match_cidr [] v = Inr False"
| "match_cidr (item # items) v =
     bind_res (IpNetwork_contains item v) (\<lambda>b. if b then Inr True else match_cidr items v)"

definition Rule_match :: "rule \<Rightarrow> address \<Rightarrow> bool result" where
  "Rule_match r a =
     (case addr_host a of
        Domain v \<Rightarrow> if matchDomain (domainRule r) v then Inr True else Inr False
      | Ip v \<Rightarrow> match_cidr (cidr r) v)"

definition wf_rule :: "rule \<Rightarrow> bool" where
  "wf_rule r \<longleftrightarrow> list_all wf_network (cidr r)"

definition rule_hits :: "rule \<Rightarrow> address \<Rightarrow> bool" where
  "rule_hits r a =
     (case addr_host a of
        Domain d \<Rightarrow> domain_in_rule (domainRule r) d
      | Ip v \<Rightarrow> list_ex (\<lambda>nw. is_v4 (network nw) = is_v4 v) (cidr r))"

lemma match_cidr_eq:
  "list_all wf_network nws \<Longrightarrow>
   match_cidr nws v = Inr (list_ex (\<lambda>nw. is_v4 (network nw) = is_v4 v) nws)"
  by (induction nws) (auto simp: contains_family_only)

lemma Rule_match_eq: "wf_rule r \<Longrightarrow> Rule_match r a = Inr (rule_hits r a)"
  by (auto simp: Rule_match_def rule_hits_def wf_rule_def match_cidr_eq matchDomain_iff
      split: host.splits)

section \<open>The route table\<close>

record route_rule =
  rules :: "rule list"
  outbound :: string

record router =
  router_rules :: "route_rule list"
  router_final :: string

fun match_rules :: "rule list \<Rightarrow> address \<Rightarrow> bool result" where
  "match_rules [] a = Inr False"
| "match_rules (i # is) a =
     bind_res (Rule_match i a) (\<lambda>b. if b then Inr True else match_rules is a)"

fun match_route_rules :: "route_rule list \<Rightarrow> address \<Rightarrow> string \<Rightarrow> string result" where
  "match_route_rules [] a final = Inr final"
| "match_route_rules (item # items) a final =
     bind_res (match_rules (rules item) a) (\<lambda>b.
       if b then Inr (outbound item) else match_route_rules items a final)"

definition Router_match :: "router \<Rightarrow> address \<Rightarrow> string result" where
  "Router_match r a = match_route_rules (router_rules r) a (router_final r)"

definition wf_route_rule :: "route_rule \<Rightarrow> bool" where
  "wf_route_rule rr \<longleftrightarrow> list_all wf_rule (rules rr)"

definition wf_router :: "router \<Rightarrow> bool" where
  "wf_router r \<longleftrightarrow> list_all wf_route_rule (router_rules r)"

definition route_hits :: "route_rule \<Rightarrow> address \<Rightarrow> bool" where
  "route_hits rr a \<longleftrightarrow> list_ex (\<lambda>r. rule_hits r a) (rules rr)"

lemma match_rules_eq:
  "list_all wf_rule rs \<Longrightarrow> match_rules rs a = Inr (list_ex (\<lambda>r. rule_hits r a) rs)"
  by (induction rs) (auto simp: Rule_match_eq)

interpretation route_table: first_match match_route_rules route_hits outbound wf_route_rule
  by unfold_locales (auto simp: wf_route_rule_def route_hits_def match_rules_eq)

lemma Router_match_find:
  "wf_router r \<Longrightarrow>
   Router_match r a =
     Inr (case find (\<lambda>rr. route_hits rr a) (router_rules r) of Some rr \<Rightarrow> outbound rr | None \<Rightarrow> router_final r)"
  by (simp add: Router_match_def wf_router_def route_table.loop_find)

lemma Router_match_first:
  assumes "wf_router r" "router_rules r = pre @ rr # post"
    and "\<And>p. p \<in> set pre \<Longrightarrow> \<not> route_hits p a" "route_hits rr a"
  shows "Router_match r a = Inr (outbound rr)"
  using assms by (simp add: Router_match_def wf_router_def route_table.loop_first)

lemma Router_match_outbound:
  "wf_router r \<Longrightarrow> Router_match r a = Inr t \<Longrightarrow> t = router_final r \<or> t \<in> outbound ` set (router_rules r)"
  unfolding Router_match_def wf_router_def by (rule route_table.loop_result)

section \<open>Routing of addresses that are not domains\<close>

text \<open>
  The membership test never reads the address it is asked about, so any two addresses
  of one family take the same route. No well-formedness is needed: the test also fails
  alike.
\<close>

lemma contains_same_family:
  "is_v4 v = is_v4 w \<Longrightarrow> IpNetwork_contains nw v = IpNetwork_contains nw w"
  by (simp add: IpNetwork_contains.simps)

lemma match_cidr_same_family: "is_v4 v = is_v4 w \<Longrightarrow> match_cidr nws v = match_cidr nws w"
  by (induction nws) (simp_all add: contains_same_family [of v w] cong: if_cong)

lemma Rule_match_same_family:
  "is_v4 v = is_v4 w \<Longrightarrow>
   Rule_match r \<lparr>addr_host = Ip v, addr_port = p\<rparr> = Rule_match r \<lparr>addr_host = Ip w, addr_port = q\<rparr>"
  by (simp add: Rule_match_def match_cidr_same_family [of v w])

lemma match_rules_same_family:
  "is_v4 v = is_v4 w \<Longrightarrow>
   match_rules rs \<lparr>addr_host = Ip v, addr_port = p\<rparr> = match_rules rs \<lparr>addr_host = Ip w, addr_port = q\<rparr>"
  by (induction rs) (simp_all add: Rule_match_same_family [of v w _ p q] cong: if_cong)

lemma match_route_rules_same_family:
  "is_v4 v = is_v4 w \<Longrightarrow>
   match_route_rules rs \<lparr>addr_host = Ip v, addr_port = p\<rparr> final =
   match_route_rules rs \<lparr>addr_host = Ip w, addr_port = q\<rparr> final"
  by (induction rs) (simp_all add: match_rules_same_family [of v w _ p q] cong: if_cong)

lemma Router_match_same_family:
  "is_v4 v = is_v4 w \<Longrightarrow>
   Router_match r \<lparr>addr_host = Ip v, addr_port = p\<rparr> = Router_match r \<lparr>addr_host = Ip w, addr_port = q\<rparr>"
  by (simp add: Router_match_def match_route_rules_same_family [of v w _ p _ q])

section \<open>Properties\<close>

text \<open>C20: a domain rule matches exactly the domains it lists, the domains equal to or below a
  suffix at a label boundary, those that contain a keyword, and those a regex accepts.\<close>

theorem matchDomain_correct: "matchDomain r d \<longleftrightarrow> domain_in_rule r d"
  by (rule matchDomain_iff)

text \<open>C3: the router answers with the outbound of the first route rule that hits the address, in
  table order, and with the final outbound when none does; with well-formed networks it always answers.\<close>

theorem Router_match_first_match:
  "wf_router r \<Longrightarrow>
   Router_match r a =
     Inr (case find (\<lambda>rr. route_hits rr a) (router_rules r) of
            Some rr \<Rightarrow> outbound rr | None \<Rightarrow> router_final r)"
  by (rule Router_match_find)

definition sample_domain_rule :: "string \<Rightarrow> rule" where
  "sample_domain_rule s =
     \<lparr>domainRule = \<lparr>dr_domain = [], dr_domainSuffix = [s], dr_domainKeyword = [], dr_domainRegex = []\<rparr>,
      cidr = []\<rparr>"

definition sample_router :: router where
  "sample_router =
     \<lparr>router_rules = [\<lparr>rules = [sample_domain_rule ''cn''], outbound = ''direct''\<rparr>,
                      \<lparr>rules = [sample_domain_rule ''org''], outbound = ''proxy''\<rparr>],
      router_final = ''block''\<rparr>"

lemma wf_sample_router: "wf_router sample_router"
  by (simp add: wf_router_def sample_router_def wf_route_rule_def wf_rule_def sample_domain_rule_def)

theorem Router_match_first_match_witness:
  "Router_match sample_router \<lparr>addr_host = Domain ''a.org'', addr_port = 443\<rparr> = Inr ''proxy''"
proof -
  have "suffix_item_matches ''a.org'' ''org''" "\<not> suffix_item_matches ''a.org'' ''cn''"
    by (simp_all add: suffix_item_matches_def slice_def)
  then show ?thesis
    using Router_match_first_match [OF wf_sample_router, of "\<lparr>addr_host = Domain ''a.org'', addr_port = 443\<rparr>"]
    by (simp add: sample_router_def route_hits_def rule_hits_def sample_domain_rule_def
        matchDomain_iff [symmetric] matchDomain_def)
qed

text \<open>Two IP addresses of one family take the same route, whatever the table: the CIDR rules do
  not tell them apart.\<close>

theorem Router_match_ignores_ip_bits:
  "is_v4 v = is_v4 w \<Longrightarrow>
   Router_match r \<lparr>addr_host = Ip v, addr_port = p\<rparr> = Router_match r \<lparr>addr_host = Ip w, addr_port = q\<rparr>"
  by (rule Router_match_same_family)

theorem Router_match_ignores_ip_bits_witness:
  "Router_match sample_router \<lparr>addr_host = Ip (IpV4 10 0 0 1), addr_port = 80\<rparr> =
   Router_match sample_router \<lparr>addr_host = Ip (IpV4 8 8 8 8), addr_port = 443\<rparr>"
  by (rule Router_match_ignores_ip_bits) simp

end
