(* ===== verification/Dns_Center.thy ===== *)
theory Dns_Center
  imports Dns_Cache Dns_Query Dns_Response Dns_Servers Router
begin

text \<open>
  \<^verbatim>\<open>dns/dns.*\<close> and \<^verbatim>\<open>dns/rule.hpp\<close>: the DNS center chooses an upstream
  server for a query by its rules, relays the query, and resolves names for the rest of the
  program through its cache. \<open>ask\<close> is the virtual \<^verbatim>\<open>DnsServer::relay\<close> of a
  server. Between looking into the cache and storing the answer \<^verbatim>\<open>resolve\<close> awaits
  the server: it is two steps on the cache, with any other operations in between.
\<close>

section \<open>Choosing a server\<close>

record dns_rule =
  dnr_rule :: domain_rule
  dnr_server :: string

fun match_dns_rules :: "dns_rule list \<Rightarrow> string \<Rightarrow> string \<Rightarrow> string result" where
  "match_dns_rules [] domain final = Inr final"
| "match_dns_rules (item # items) domain final =
     (if matchDomain (dnr_rule item) domain then Inr (dnr_server item)
      else match_dns_rules items domain final)"

record 'srv dns_center =
  dc_endpoint :: "endpoint option"
  dc_rules :: "dns_rule list"
  dc_servers :: "(string, 'srv) umap"
  dc_final :: string
  dc_client :: "udp_client option"
  dc_cache :: dns_cache

definition DnsCenter_new ::
  "endpoint option \<Rightarrow> dns_rule list \<Rightarrow> (string, 'srv) umap \<Rightarrow> string \<Rightarrow> 'srv dns_center" where
  "DnsCenter_new ep rs servers final =
     \<lparr>dc_endpoint = ep, dc_rules = rs, dc_servers = servers, dc_final = final, dc_client = None, dc_cache = []\<rparr>"

definition DnsCenter_match :: "'srv dns_center \<Rightarrow> string \<Rightarrow> string result" where
  "DnsCenter_match dc domain = match_dns_rules (dc_rules dc) domain (dc_final dc)"

interpretation dns_table: first_match match_dns_rules "\<lambda>r d. domain_in_rule (dnr_rule r) d" dnr_server "\<lambda>r. True"
  by unfold_locales (auto simp: matchDomain_iff)

lemma DnsCenter_match_find:
  "DnsCenter_match dc d =
     Inr (case find (\<lambda>r. domain_in_rule (dnr_rule r) d) (dc_rules dc) of
            Some r \<Rightarrow> dnr_server r | None \<Rightarrow> dc_final dc)"
  by (simp add: DnsCenter_match_def dns_table.loop_find list_all_iff)

section \<open>Relaying\<close>

text \<open>
  \<^verbatim>\<open>relay\<close> up to its wait for the server, and after it: the answer passes only if it
  parses as a response.
\<close>

definition relay_begin :: "'srv dns_center \<Rightarrow> bytes \<Rightarrow> 'srv result" where
  "relay_begin dc data =
     bind_res (parse_dns_query data) (\<lambda>domain.
     bind_res (DnsCenter_match dc domain) (\<lambda>serverTag.
       case umap_find (dc_servers dc) serverTag of
         None \<Rightarrow> throw_error ''fail to find dns server''
       | Some srv \<Rightarrow> Inr srv))"

definition relay_end :: "bytes \<Rightarrow> bytes result" where
  "relay_end data = bind_res (parse_dns_response data) (\<lambda>ips. Inr data)"

definition DnsCenter_relay :: "('srv \<Rightarrow> bytes \<Rightarrow> bytes awaited) \<Rightarrow> 'srv dns_center \<Rightarrow> bytes \<Rightarrow> bytes awaited" where
  "DnsCenter_relay ask dc data =
     (case relay_begin dc data of
        Inl f \<Rightarrow> Some (Inl f)
      | Inr srv \<Rightarrow> async_bind (ask srv data) (\<lambda>data. Some (relay_end data)))"

text \<open>The lines it logs: the name asked for, and the addresses of the answer separated by commas.\<close>

fun join_addresses :: "(ip_address \<Rightarrow> string) \<Rightarrow> ip_address list \<Rightarrow> string" where
  "join_addresses show_ip [] = []"
| "join_addresses show_ip [ip] = show_ip ip"
| "join_addresses show_ip (ip # ips) = show_ip ip @ '','' @ join_addresses show_ip ips"

definition relay_begin_log :: "bytes \<Rightarrow> string list" where
  "relay_begin_log data =
     (case parse_dns_query data of Inl f \<Rightarrow> [] | Inr domain \<Rightarrow> [log_line ''dns'' (''<- '' @ domain)])"

definition relay_end_log :: "(ip_address \<Rightarrow> string) \<Rightarrow> bytes \<Rightarrow> bytes \<Rightarrow> string list" where
  "relay_end_log show_ip query data =
     (case bind_res (parse_dns_query query) (\<lambda>domain.
           bind_res (parse_dns_response data) (\<lambda>ips. Inr (domain @ '' -> '' @ join_addresses show_ip ips))) of
        Inl f \<Rightarrow> []
      | Inr line \<Rightarrow> [log_line ''dns'' line])"

section \<open>Resolving\<close>

text \<open>
  \<^verbatim>\<open>DnsCenter::resolve\<close> with an instance: a cache hit with at least one address is
  the answer; otherwise the query goes out, and its answer is stored and returned.
\<close>

datatype resolve_step = Cached "ip_address list" | Query bytes

definition resolve_begin ::
  "u16 \<Rightarrow> 'srv dns_center \<Rightarrow> time_point \<Rightarrow> string \<Rightarrow> resolve_step result \<times> 'srv dns_center" where
  "resolve_begin randomId dc now domain =
     (let (ips, cache) = DnsCache_lookup (dc_cache dc) now domain; dc = dc\<lparr>dc_cache := cache\<rparr>
      in if ips \<noteq> [] then (Inr (Cached ips), dc)
         else (bind_res (build_dns_query randomId domain False) (\<lambda>q. Inr (Query q)), dc))"

definition resolve_end ::
  "'srv dns_center \<Rightarrow> time_point \<Rightarrow> string \<Rightarrow> bytes \<Rightarrow> ip_address list result \<times> 'srv dns_center" where
  "resolve_end dc now domain data =
     (case parse_dns_response data of
        Inl f \<Rightarrow> (Inl f, dc)
      | Inr ips \<Rightarrow> (Inr ips, dc\<lparr>dc_cache := DnsCache_store (dc_cache dc) now domain ips\<rparr>))"

text \<open>
  The whole call when the center's state changes only through it; \<open>now\<close> and \<open>later\<close> are
  the times of its two accesses to the cache. Without an instance the library's resolver
  answers (\<open>system\<close>).
\<close>

definition DnsCenter_resolve ::
  "('srv \<Rightarrow> bytes \<Rightarrow> bytes awaited) \<Rightarrow> u16 \<Rightarrow> time_point \<Rightarrow> time_point \<Rightarrow> string \<Rightarrow> 'srv dns_center \<Rightarrow>
   (ip_address list result \<times> 'srv dns_center) option" where
  "DnsCenter_resolve ask randomId now later domain dc =
     (case resolve_begin randomId dc now domain of
        (Inl f, dc) \<Rightarrow> Some (Inl f, dc)
      | (Inr (Cached ips), dc) \<Rightarrow> Some (Inr ips, dc)
      | (Inr (Query q), dc) \<Rightarrow>
          (case DnsCenter_relay ask dc q of
             None \<Rightarrow> None
           | Some (Inl f) \<Rightarrow> Some (Inl f, dc)
           | Some (Inr data) \<Rightarrow> Some (resolve_end dc later domain data)))"

definition resolve_instance ::
  "('srv \<Rightarrow> bytes \<Rightarrow> bytes awaited) \<Rightarrow> (string \<Rightarrow> ip_address list awaited) \<Rightarrow> u16 \<Rightarrow> time_point \<Rightarrow> time_point \<Rightarrow>
   string \<Rightarrow> 'srv dns_center option \<Rightarrow> (ip_address list result \<times> 'srv dns_center option) option" where
  "resolve_instance ask system randomId now later domain inst =
     (case inst of
        Some dc \<Rightarrow> map_option (\<lambda>(r, dc). (r, Some dc)) (DnsCenter_resolve ask randomId now later domain dc)
      | None \<Rightarrow> map_option (\<lambda>r. (r, None)) (system domain))"

section \<open>Serving clients\<close>

text \<open>\<^verbatim>\<open>handleClient_\<close>: the answer goes back to the sender; an exception is logged.\<close>

definition DnsCenter_handleClient ::
  "messages \<Rightarrow> ('srv \<Rightarrow> bytes \<Rightarrow> bytes awaited) \<Rightarrow> udp_lib \<Rightarrow> 'srv dns_center \<Rightarrow> udp_session \<Rightarrow>
   ('srv dns_center \<times> string list) awaited" where
  "DnsCenter_handleClient ms ask lib dc session =
     (case DnsCenter_relay ask dc (us_data session) of
        None \<Rightarrow> None
      | Some (Inl (UB k)) \<Rightarrow> Some (Inl (UB k))
      | Some (Inl (Raised e)) \<Rightarrow> Some (Inr (dc, log_error ms ''dns handle'' e))
      | Some (Inr data) \<Rightarrow>
          (case dc_client dc of
             None \<Rightarrow> Some (Inl (UB Null_Deref))
           | Some client \<Rightarrow>
               (case UdpClient_send lib client (session\<lparr>us_data := data\<rparr>) of
                  Inr client \<Rightarrow> Some (Inr (dc\<lparr>dc_client := Some client\<rparr>, []))
                | Inl (Raised e) \<Rightarrow> Some (Inr (dc, log_error ms ''dns handle'' e))
                | Inl (UB k) \<Rightarrow> Some (Inl (UB k)))))"

text \<open>
  \<^verbatim>\<open>mainWork_\<close> up to its loop: nothing to do without an endpoint; otherwise the
  client is created and started. The loop then spawns \<^verbatim>\<open>handleClient_\<close> for every
  session the client delivers.
\<close>

definition DnsCenter_mainWork_start :: "messages \<Rightarrow> udp_lib \<Rightarrow> 'srv dns_center \<Rightarrow> 'srv dns_center \<times> bool \<times> string list" where
  "DnsCenter_mainWork_start ms lib dc =
     (case dc_endpoint dc of
        None \<Rightarrow> (dc, False, [])
      | Some ep \<Rightarrow>
          (let client = UdpClient_new (Some ep)
           in case UdpClient_start lib client None of
                Inr client \<Rightarrow> (dc\<lparr>dc_client := Some client\<rparr>, True, [])
              | Inl (Raised e) \<Rightarrow> (dc\<lparr>dc_client := Some client\<rparr>, False, log_error ms ''dns center main work'' e)
              | Inl (UB k) \<Rightarrow> (dc\<lparr>dc_client := Some client\<rparr>, False, [])))"

definition DnsCenter_stop :: "'srv dns_center \<Rightarrow> 'srv dns_center" where
  "DnsCenter_stop dc =
     (case dc_client dc of None \<Rightarrow> dc | Some c \<Rightarrow> dc\<lparr>dc_client := Some (UdpClient_close c)\<rparr>)"

section \<open>What relaying and resolving amount to\<close>

definition chosen_server :: "'srv dns_center \<Rightarrow> string \<Rightarrow> 'srv option" where
  "chosen_server dc d =
     umap_find (dc_servers dc)
       (case find (\<lambda>r. domain_in_rule (dnr_rule r) d) (dc_rules dc) of Some r \<Rightarrow> dnr_server r | None \<Rightarrow> dc_final dc)"

lemma relay_begin_eq:
  "parse_dns_query data = Inr d \<Longrightarrow>
   relay_begin dc data =
     (case chosen_server dc d of None \<Rightarrow> throw_error ''fail to find dns server'' | Some srv \<Rightarrow> Inr srv)"
  by (simp add: relay_begin_def DnsCenter_match_find chosen_server_def)

lemma DnsCenter_relay_eq:
  assumes "parse_dns_query data = Inr d"
  shows "DnsCenter_relay ask dc data =
    (case chosen_server dc d of
       None \<Rightarrow> Some (throw_error ''fail to find dns server'')
     | Some srv \<Rightarrow> async_bind (ask srv data) (\<lambda>data.
         case parse_dns_response data of Inl f \<Rightarrow> Some (Inl f) | Inr ips \<Rightarrow> Some (Inr data)))"
  using relay_begin_eq [OF assms, of dc]
  by (auto simp: DnsCenter_relay_def relay_end_def async_bind_def split: option.splits sum.splits)

text \<open>What the whole call does on a cache without addresses for the domain.\<close>

lemma resolve_miss:
  assumes "build_dns_query i d False = Inr q" "fst (DnsCache_lookup (dc_cache dc) now d) = []"
    and "chosen_server dc (strip_dot (strip_dot d)) = Some srv" "ask srv q = Some (Inr data)"
    and "parse_dns_response data = Inr ips"
  shows "\<exists>cache. DnsCenter_resolve ask i now later d dc =
    Some (Inr ips, dc\<lparr>dc_cache := DnsCache_store cache later d ips\<rparr>) \<and> cache = snd (DnsCache_lookup (dc_cache dc) now d)"
proof -
  obtain cache where l: "DnsCache_lookup (dc_cache dc) now d = ([], cache)"
    using assms(2) by (cases "DnsCache_lookup (dc_cache dc) now d") auto
  have q: "parse_dns_query q = Inr (strip_dot (strip_dot d))"
    using assms(1) by (rule query_roundtrip)
  have "chosen_server (dc\<lparr>dc_cache := cache\<rparr>) d' = chosen_server dc d'" for d'
    by (simp add: chosen_server_def cong: option.case_cong)
  then have "DnsCenter_relay ask (dc\<lparr>dc_cache := cache\<rparr>) q = Some (Inr data)"
    using assms(3-5) by (simp add: DnsCenter_relay_eq [OF q])
  then show ?thesis
    using assms(1,5) l by (simp add: DnsCenter_resolve_def resolve_begin_def resolve_end_def)
qed

lemma resolve_hit:
  assumes "umap_find (dc_cache dc) d = Some it" "item_ips it \<noteq> []"
  shows "\<exists>cache. DnsCenter_resolve ask i now later d dc = Some (Inr (item_ips it), dc\<lparr>dc_cache := cache\<rparr>)"
  using assms by (simp add: DnsCenter_resolve_def resolve_begin_def DnsCache_lookup_def) blast

section \<open>Properties\<close>

text \<open>A query that parses is sent, unchanged, to the server of the first rule that holds for its
  name, or the final server; a tag without a server is an error; and the server's answer is passed back
  byte for byte exactly when it is a DNS response.\<close>

theorem dns_relay_first_rule:
  "parse_dns_query data = Inr d \<Longrightarrow>
   DnsCenter_relay ask dc data =
    (case umap_find (dc_servers dc)
       (case find (\<lambda>r. domain_in_rule (dnr_rule r) d) (dc_rules dc) of Some r \<Rightarrow> dnr_server r | None \<Rightarrow> dc_final dc) of
       None \<Rightarrow> Some (throw_error ''fail to find dns server'')
     | Some srv \<Rightarrow> async_bind (ask srv data) (\<lambda>answer.
         case parse_dns_response answer of Inl f \<Rightarrow> Some (Inl f) | Inr ips \<Rightarrow> Some (Inr answer)))"
  using DnsCenter_relay_eq [of data d ask dc] by (simp add: chosen_server_def)

definition sample_query :: bytes where
  "sample_query = [0, 7, 1, 0, 0, 1, 0, 0, 0, 0, 0, 0, 1, 0x61, 2, 0x69, 0x6F, 0, 0, 1, 0, 1]"

definition sample_answer :: bytes where
  "sample_answer = [0, 9, 0x81, 0x80, 0, 0, 0, 1, 0, 0, 0, 0, 0, 0, 1, 0, 1, 0, 0, 0, 60, 0, 4, 1, 2, 3, 4]"

definition sample_center :: "nat dns_center" where
  "sample_center = DnsCenter_new None
     [\<lparr>dnr_rule = \<lparr>dr_domain = [], dr_domainSuffix = [''io''], dr_domainKeyword = [], dr_domainRegex = []\<rparr>,
       dnr_server = ''b''\<rparr>] [(''a'', 0), (''b'', 1)] ''a''"

definition sample_ask :: "nat \<Rightarrow> bytes \<Rightarrow> bytes awaited" where
  "sample_ask srv q = (if srv = 1 then Some (Inr sample_answer) else None)"

lemma sample_dns:
  "parse_dns_query sample_query = Inr ''a.io''"
  "build_dns_query 7 ''a.io'' False = Inr sample_query"
  "parse_dns_response sample_answer = Inr [IpV4 1 2 3 4]"
  "DnsCenter_match sample_center ''a.io'' = Inr ''b''"
  by code_simp+

lemma sample_choice:
  "(case find (\<lambda>r. domain_in_rule (dnr_rule r) ''a.io'') (dc_rules sample_center) of
      Some r \<Rightarrow> dnr_server r | None \<Rightarrow> dc_final sample_center) = ''b''"
  using sample_dns(4) unfolding DnsCenter_match_find by simp

theorem dns_relay_first_rule_witness:
  "DnsCenter_relay sample_ask sample_center sample_query = Some (Inr sample_answer)"
  unfolding dns_relay_first_rule [OF sample_dns(1)] sample_choice
  by (simp add: sample_center_def DnsCenter_new_def umap_find_def sample_ask_def sample_dns(3))



end
