(* ===== verification/Connection.thy ===== *)
theory Connection
  imports Io
begin

text \<open>
  \<^verbatim>\<open>connections/connection.hpp\<close>, \<^verbatim>\<open>connections/tcp.*\<close> and
  \<^verbatim>\<open>connections/tls.*\<close>. A \<^verbatim>\<open>Connection\<close> is the record of its virtual
  functions over its own state. \<open>byte_peer\<close> is the contract its clients (the inbounds
  and outbounds) rely on; the stream under a connection is the library's, a record of its
  operations, and \<open>byte_stream\<close> states what the library documents of it. Sizes are
  natural numbers: every caller passes a constant or a byte.
\<close>

section \<open>The interface\<close>

record 'c connection =
  conn_read :: "nat \<Rightarrow> ('c, bytes) io"
  conn_read_exactly :: "nat \<Rightarrow> ('c, bytes) io"
  conn_write :: "bytes \<Rightarrow> ('c, unit) io"
  conn_close :: "('c, unit) io"

text \<open>
  What every connection promises on every state: \<^verbatim>\<open>read_exactly\<close> returns as many bytes as
  asked for, and nothing it does is undefined.
\<close>

locale exact_reader =
  fixes con :: "'c connection"
  assumes exact: "conn_read_exactly con n c = Some (Inr d, c') \<Longrightarrow> length d = n"
    and read_safe: "io_safe (conn_read con n)"
    and read_exactly_safe: "io_safe (conn_read_exactly con n)"
    and write_safe: "io_safe (conn_write con d)"
    and close_safe: "io_safe (conn_close con)"

text \<open>
  What the soundness of a handler needs: an operation that succeeds has consumed a prefix of \<open>incoming\<close>,
  the bytes still to be delivered, or appended to \<open>outgoing\<close>, those accepted so far; failures are free.
\<close>

locale faithful_peer = exact_reader con for con :: "'c connection" +
  fixes incoming :: "'c \<Rightarrow> bytes"
    and outgoing :: "'c \<Rightarrow> bytes"
    and live :: "'c \<Rightarrow> bool"
  assumes read_exactly_done: "live c \<Longrightarrow> conn_read_exactly con n c = Some (Inr d, c') \<Longrightarrow>
      incoming c = d @ incoming c' \<and> outgoing c' = outgoing c \<and> live c'"
    and read_done: "live c \<Longrightarrow> 0 < n \<Longrightarrow> conn_read con n c = Some (Inr d, c') \<Longrightarrow>
      incoming c = d @ incoming c' \<and> outgoing c' = outgoing c \<and> live c'"
    and write_done: "live c \<Longrightarrow> conn_write con d c = Some (Inr (), c') \<Longrightarrow>
      incoming c' = incoming c \<and> outgoing c' = outgoing c @ d \<and> live c'"
begin

lemma read_exactly_inv:
  assumes "live c" "conn_read_exactly con n c = Some (Inr d, c')"
  shows "incoming c = d @ incoming c'" "length d = n" "outgoing c' = outgoing c" "live c'"
  using read_exactly_done [OF assms] exact [OF assms(2)] by simp_all

lemma read_inv:
  assumes "live c" "conn_read con n c = Some (Inr d, c')" "0 < n"
  shows "incoming c = d @ incoming c'" "outgoing c' = outgoing c" "live c'"
  using read_done [OF assms(1,3,2)] by simp_all

lemma write_inv:
  assumes "live c" "conn_write con d c = Some (Inr (), c')"
  shows "incoming c' = incoming c" "outgoing c' = outgoing c @ d" "live c'"
  using write_done [OF assms] by simp_all

end

text \<open>
  And when operations may fail at any time: a failing read may lose pending bytes, a failing write may have sent a
  beginning of its data, and neither does anything else to the two streams.
\<close>

locale honest_peer = faithful_peer con incoming outgoing live
  for con :: "'c connection" and incoming outgoing live +
  assumes read_failed: "live c \<Longrightarrow> conn_read con n c = Some (Inl f, c') \<Longrightarrow>
      suffix (incoming c') (incoming c) \<and> outgoing c' = outgoing c \<and> live c'"
    and write_failed: "live c \<Longrightarrow> conn_write con d c = Some (Inl f, c') \<Longrightarrow>
      incoming c' = incoming c \<and> (\<exists>d'. prefix d' d \<and> outgoing c' = outgoing c @ d') \<and> live c'"

text \<open>
  What it promises while the peer behaves (\<open>live\<close>): \<open>incoming\<close> are the bytes still to
  be delivered, \<open>outgoing\<close> those accepted so far, and \<open>pieces\<close> bounds the number of
  reads that deliver the rest.
\<close>

locale byte_peer = exact_reader con for con :: "'c connection" +
  fixes incoming :: "'c \<Rightarrow> bytes"
    and outgoing :: "'c \<Rightarrow> bytes"
    and live :: "'c \<Rightarrow> bool"
    and pieces :: "'c \<Rightarrow> nat"
  assumes read_exactly_enough: "live c \<Longrightarrow> n \<le> length (incoming c) \<Longrightarrow>
      \<exists>c'. conn_read_exactly con n c = Some (Inr (take n (incoming c)), c') \<and>
        incoming c' = drop n (incoming c) \<and> outgoing c' = outgoing c \<and> live c'"
    and read_exactly_short: "live c \<Longrightarrow> length (incoming c) < n \<Longrightarrow>
      conn_read_exactly con n c \<noteq> Some (Inr d, c')"
    and read_some: "live c \<Longrightarrow> incoming c \<noteq> [] \<Longrightarrow> 0 < n \<Longrightarrow>
      \<exists>d c'. conn_read con n c = Some (Inr d, c') \<and> incoming c = d @ incoming c' \<and>
        pieces c' < pieces c \<and> outgoing c' = outgoing c \<and> live c'"
    and read_none: "live c \<Longrightarrow> incoming c = [] \<Longrightarrow> conn_read con n c = Some (Inr d, c') \<Longrightarrow>
      d = [] \<and> incoming c' = [] \<and> outgoing c' = outgoing c \<and> live c'"
    and write_all: "live c \<Longrightarrow>
      \<exists>c'. conn_write con d c = Some (Inr (), c') \<and> incoming c' = incoming c \<and>
        outgoing c' = outgoing c @ d \<and> pieces c' = pieces c \<and> live c'"
    and close_ends: "live c \<Longrightarrow> \<exists>r c'. conn_close con c = Some (r, c') \<and> outgoing c' = outgoing c"
begin

text \<open>The laws in the form the proofs about a handler use: the prefix of the input is consumed.\<close>

lemma read_exactly_prefix:
  assumes "live c" "incoming c = d @ rest"
  obtains c' where "conn_read_exactly con (length d) c = Some (Inr d, c')" "incoming c' = rest"
    "outgoing c' = outgoing c" "live c'"
  using read_exactly_enough [of c "length d"] assms by auto

lemma write_obtain:
  assumes "live c"
  obtains c' where "conn_write con d c = Some (Inr (), c')" "incoming c' = incoming c"
    "outgoing c' = outgoing c @ d" "pieces c' = pieces c" "live c'"
  using write_all [OF assms, of d] by blast

lemma read_obtain:
  assumes "live c" "incoming c \<noteq> []" "0 < n"
  obtains d c' where "conn_read con n c = Some (Inr d, c')" "incoming c = d @ incoming c'"
    "pieces c' < pieces c" "outgoing c' = outgoing c" "live c'"
  using read_some [OF assms] by blast

end

text \<open>Read backwards: what an operation that succeeded has done.\<close>

sublocale byte_peer \<subseteq> faithful_peer con incoming outgoing live
proof
  fix c n d c'
  assume live: "live c" and run: "conn_read_exactly con n c = Some (Inr d, c')"
  then have "n \<le> length (incoming c)" using read_exactly_short by (meson not_le)
  from read_exactly_enough [OF live this] run
  show "incoming c = d @ incoming c' \<and> outgoing c' = outgoing c \<and> live c'" by auto
next
  fix c d c' and n :: nat
  assume live: "live c" and n: "0 < n" and run: "conn_read con n c = Some (Inr d, c')"
  show "incoming c = d @ incoming c' \<and> outgoing c' = outgoing c \<and> live c'"
  proof (cases "incoming c = []")
    case True
    from read_none [OF live this run] True show ?thesis by simp
  next
    case False
    from read_some [OF live this n] run show ?thesis by auto
  qed
next
  fix c d c'
  assume "live c" "conn_write con d c = Some (Inr (), c')"
  then show "incoming c' = incoming c \<and> outgoing c' = outgoing c @ d \<and> live c'"
    using write_all [of c d] by auto
qed

section \<open>The stream library\<close>

text \<open>
  \<^verbatim>\<open>async_read_some\<close> and \<^verbatim>\<open>async_read\<close> fill a buffer; the result here is
  what they put into it. \<^verbatim>\<open>async_write\<close> sends a whole buffer.
\<close>

record 's stream_lib =
  lib_read_some :: "nat \<Rightarrow> ('s, bytes) io"
  lib_read_full :: "nat \<Rightarrow> ('s, bytes) io"
  lib_write_all :: "bytes \<Rightarrow> ('s, unit) io"
  lib_close :: "('s, unit) io"

locale sized_stream =
  fixes lib :: "('s, 'm) stream_lib_scheme"
  assumes some_length: "lib_read_some lib n s = Some (Inr d, s') \<Longrightarrow> length d \<le> n"
    and full_length: "lib_read_full lib n s = Some (Inr d, s') \<Longrightarrow> length d = n"
    and lib_safe: "io_safe (lib_read_some lib n)" "io_safe (lib_read_full lib n)"
      "io_safe (lib_write_all lib d)" "io_safe (lib_close lib)"

text \<open>A stream on which nothing fails before its end.\<close>

locale byte_stream = sized_stream lib for lib :: "('s, 'm) stream_lib_scheme" +
  fixes avail :: "'s \<Rightarrow> bytes"
    and sent :: "'s \<Rightarrow> bytes"
    and up :: "'s \<Rightarrow> bool"
  assumes some_bytes: "up s \<Longrightarrow> avail s \<noteq> [] \<Longrightarrow> 0 < n \<Longrightarrow>
      \<exists>d s'. lib_read_some lib n s = Some (Inr d, s') \<and> d \<noteq> [] \<and> avail s = d @ avail s' \<and>
        sent s' = sent s \<and> up s'"
    and some_none: "up s \<Longrightarrow> avail s = [] \<Longrightarrow> lib_read_some lib n s = Some (Inr d, s') \<Longrightarrow>
      d = [] \<and> avail s' = [] \<and> sent s' = sent s \<and> up s'"
    and full_bytes: "up s \<Longrightarrow> n \<le> length (avail s) \<Longrightarrow>
      \<exists>s'. lib_read_full lib n s = Some (Inr (take n (avail s)), s') \<and>
        avail s' = drop n (avail s) \<and> sent s' = sent s \<and> up s'"
    and full_short: "up s \<Longrightarrow> length (avail s) < n \<Longrightarrow> lib_read_full lib n s \<noteq> Some (Inr d, s')"
    and write_bytes: "up s \<Longrightarrow>
      \<exists>s'. lib_write_all lib d s = Some (Inr (), s') \<and> avail s' = avail s \<and> sent s' = sent s @ d \<and> up s'"
    and close_done: "up s \<Longrightarrow> \<exists>r s'. lib_close lib s = Some (r, s') \<and> sent s' = sent s"

text \<open>A stream that may fail at any time, but does what its results say.\<close>

locale honest_stream = sized_stream lib for lib :: "('s, 'm) stream_lib_scheme" +
  fixes avail :: "'s \<Rightarrow> bytes"
    and sent :: "'s \<Rightarrow> bytes"
    and up :: "'s \<Rightarrow> bool"
  assumes some_done: "up s \<Longrightarrow> 0 < n \<Longrightarrow> lib_read_some lib n s = Some (Inr d, s') \<Longrightarrow>
      avail s = d @ avail s' \<and> sent s' = sent s \<and> up s'"
    and full_done: "up s \<Longrightarrow> lib_read_full lib n s = Some (Inr d, s') \<Longrightarrow>
      avail s = d @ avail s' \<and> sent s' = sent s \<and> up s'"
    and write_done: "up s \<Longrightarrow> lib_write_all lib d s = Some (Inr (), s') \<Longrightarrow>
      avail s' = avail s \<and> sent s' = sent s @ d \<and> up s'"
    and some_fails: "up s \<Longrightarrow> lib_read_some lib n s = Some (Inl f, s') \<Longrightarrow>
      suffix (avail s') (avail s) \<and> sent s' = sent s \<and> up s'"
    and write_fails: "up s \<Longrightarrow> lib_write_all lib d s = Some (Inl f, s') \<Longrightarrow>
      avail s' = avail s \<and> (\<exists>d'. prefix d' d \<and> sent s' = sent s @ d') \<and> up s'"

section \<open>TCP connections\<close>

text \<open>
  \<^verbatim>\<open>bytes(n)\<close> after the library wrote \<open>d\<close> into its front, and
  \<^verbatim>\<open>resize\<close>, which cuts off or appends zeros.
\<close>

definition filled :: "nat \<Rightarrow> bytes \<Rightarrow> bytes" where
  "filled n d = d @ replicate (n - length d) 0"

definition resize :: "bytes \<Rightarrow> nat \<Rightarrow> bytes" where
  "resize b n = take n b @ replicate (n - length b) 0"

lemma resize_filled [simp]: "length d \<le> n \<Longrightarrow> resize (filled n d) (length d) = d"
  by (simp add: resize_def filled_def)

lemma filled_full [simp]: "length d = n \<Longrightarrow> filled n d = d"
  by (simp add: filled_def)

definition TcpConnection_read :: "('s, 'm) stream_lib_scheme \<Rightarrow> nat \<Rightarrow> ('s, bytes) io" where
  "TcpConnection_read lib n =
     io_bind (lib_read_some lib n) (\<lambda>d.
       let buffer = filled n d; readN = length d in io_return (resize buffer readN))"

definition TcpConnection_read_exactly :: "('s, 'm) stream_lib_scheme \<Rightarrow> nat \<Rightarrow> ('s, bytes) io" where
  "TcpConnection_read_exactly lib n = io_bind (lib_read_full lib n) (\<lambda>d. io_return (filled n d))"

definition TcpConnection_write :: "('s, 'm) stream_lib_scheme \<Rightarrow> bytes \<Rightarrow> ('s, unit) io" where
  "TcpConnection_write lib data = lib_write_all lib data"

definition TcpConnection_close :: "('s, 'm) stream_lib_scheme \<Rightarrow> ('s, unit) io" where
  "TcpConnection_close lib = lib_close lib"

definition TcpConnection :: "('s, 'm) stream_lib_scheme \<Rightarrow> 's connection" where
  "TcpConnection lib =
     \<lparr>conn_read = TcpConnection_read lib, conn_read_exactly = TcpConnection_read_exactly lib,
      conn_write = TcpConnection_write lib, conn_close = TcpConnection_close lib\<rparr>"

section \<open>TLS connections\<close>

text \<open>
  The same over \<^verbatim>\<open>beast::ssl_stream\<close>: closing first shuts the TLS layer down, and
  closes the socket (\<^verbatim>\<open>lib_close\<close>) only if that did not throw.
\<close>

record 's ssl_stream_lib = "'s stream_lib" +
  lib_shutdown :: "('s, unit) io"

definition TlsConnection_read :: "('s, 'm) ssl_stream_lib_scheme \<Rightarrow> nat \<Rightarrow> ('s, bytes) io" where
  "TlsConnection_read lib n =
     io_bind (lib_read_some lib n) (\<lambda>d.
       let buffer = filled n d; readN = length d in io_return (resize buffer readN))"

definition TlsConnection_read_exactly :: "('s, 'm) ssl_stream_lib_scheme \<Rightarrow> nat \<Rightarrow> ('s, bytes) io" where
  "TlsConnection_read_exactly lib n = io_bind (lib_read_full lib n) (\<lambda>d. io_return (filled n d))"

definition TlsConnection_write :: "('s, 'm) ssl_stream_lib_scheme \<Rightarrow> bytes \<Rightarrow> ('s, unit) io" where
  "TlsConnection_write lib data = lib_write_all lib data"

definition TlsConnection_close :: "('s, 'm) ssl_stream_lib_scheme \<Rightarrow> ('s, unit) io" where
  "TlsConnection_close lib = io_bind (lib_shutdown lib) (\<lambda>_. lib_close lib)"

definition TlsConnection :: "('s, 'm) ssl_stream_lib_scheme \<Rightarrow> 's connection" where
  "TlsConnection lib =
     \<lparr>conn_read = TlsConnection_read lib, conn_read_exactly = TlsConnection_read_exactly lib,
      conn_write = TlsConnection_write lib, conn_close = TlsConnection_close lib\<rparr>"

section \<open>Both keep the contracts\<close>

text \<open>The reads of both classes are the library's.\<close>

context sized_stream
begin

lemma read_some_eq:
  "io_bind (lib_read_some lib n) (\<lambda>d. let buffer = filled n d; readN = length d in io_return (resize buffer readN))
     = lib_read_some lib n"
proof
  fix s
  show "io_bind (lib_read_some lib n)
      (\<lambda>d. let buffer = filled n d; readN = length d in io_return (resize buffer readN)) s = lib_read_some lib n s"
    using some_length by (auto simp: io_bind_def split: option.splits sum.splits)
qed

lemma read_full_eq: "io_bind (lib_read_full lib n) (\<lambda>d. io_return (filled n d)) = lib_read_full lib n"
proof
  fix s
  show "io_bind (lib_read_full lib n) (\<lambda>d. io_return (filled n d)) s = lib_read_full lib n s"
    using full_length by (auto simp: io_bind_def split: option.splits sum.splits)
qed

lemmas tcp_defs = TcpConnection_def connection.simps TcpConnection_read_def TcpConnection_read_exactly_def
  TcpConnection_write_def TcpConnection_close_def read_some_eq read_full_eq

lemmas tls_defs = TlsConnection_def connection.simps TlsConnection_read_def TlsConnection_read_exactly_def
  TlsConnection_write_def TlsConnection_close_def read_some_eq read_full_eq

end

sublocale sized_stream \<subseteq> tcp_exact: exact_reader "TcpConnection lib"
  by (unfold_locales, unfold tcp_defs) (rule full_length lib_safe; assumption)+

locale sized_ssl_stream = sized_stream lib for lib :: "('s, 'm) ssl_stream_lib_scheme" +
  assumes shutdown_safe: "io_safe (lib_shutdown lib)"
begin

lemma tls_close_safe: "io_safe (io_bind (lib_shutdown lib) (\<lambda>_. lib_close lib))"
  by (rule io_safe_bind) (rule shutdown_safe lib_safe)+

end

sublocale sized_ssl_stream \<subseteq> tls_exact: exact_reader "TlsConnection lib"
  by (unfold_locales, unfold tls_defs) (rule full_length lib_safe tls_close_safe; assumption)+

context byte_stream
begin

lemma write_bytes_length:
  "up s \<Longrightarrow> \<exists>s'. lib_write_all lib d s = Some (Inr (), s') \<and> avail s' = avail s \<and> sent s' = sent s @ d \<and>
     length (avail s') = length (avail s) \<and> up s'"
  using write_bytes [of s d] by auto

lemma some_progress: "d \<noteq> [] \<Longrightarrow> avail s = d @ avail s' \<Longrightarrow> length (avail s') < length (avail s)"
  by simp

end

sublocale byte_stream \<subseteq> tcp_con: byte_peer "TcpConnection lib" avail sent up "\<lambda>s. length (avail s)"
proof (unfold_locales, unfold tcp_defs)
  fix s n
  assume "up s" "avail s \<noteq> []" "0 < (n :: nat)"
  from some_bytes [OF this] show "\<exists>d c'. lib_read_some lib n s = Some (Inr d, c') \<and> avail s = d @ avail c' \<and>
      length (avail c') < length (avail s) \<and> sent c' = sent s \<and> up c'"
    using some_progress by blast
qed (rule full_bytes full_short some_none write_bytes_length close_done; assumption)+

locale ssl_stream = byte_stream lib avail sent up + sized_ssl_stream lib
  for lib :: "('s, 'm) ssl_stream_lib_scheme" and avail sent up +
  assumes shutdown_done: "up s \<Longrightarrow> \<exists>r s'. lib_shutdown lib s = Some (r, s') \<and> sent s' = sent s \<and> up s'"
begin

lemma tls_close_done:
  assumes "up s"
  shows "\<exists>r s'. io_bind (lib_shutdown lib) (\<lambda>_. lib_close lib) s = Some (r, s') \<and> sent s' = sent s"
proof -
  obtain r s' where s': "lib_shutdown lib s = Some (r, s')" "sent s' = sent s" "up s'"
    using shutdown_done [OF assms] by blast
  show ?thesis
  proof (cases r)
    case (Inl e)
    with s' show ?thesis by simp
  next
    case (Inr u)
    with s' show ?thesis using close_done [OF s'(3)] by simp
  qed
qed

end

sublocale ssl_stream \<subseteq> tls_con: byte_peer "TlsConnection lib" avail sent up "\<lambda>s. length (avail s)"
proof (unfold_locales, unfold tls_defs)
  fix s n
  assume "up s" "avail s \<noteq> []" "0 < (n :: nat)"
  from some_bytes [OF this] show "\<exists>d c'. lib_read_some lib n s = Some (Inr d, c') \<and> avail s = d @ avail c' \<and>
      length (avail c') < length (avail s) \<and> sent c' = sent s \<and> up c'"
    using some_progress by blast
qed (rule full_bytes full_short some_none write_bytes_length tls_close_done; assumption)+

sublocale honest_stream \<subseteq> tcp_honest: honest_peer "TcpConnection lib" avail sent up
  by (unfold_locales, unfold tcp_defs) (rule some_done full_done write_done some_fails write_fails; assumption)+

locale honest_ssl_stream = honest_stream lib avail sent up + sized_ssl_stream lib
  for lib :: "('s, 'm) ssl_stream_lib_scheme" and avail sent up

sublocale honest_ssl_stream \<subseteq> tls_honest: honest_peer "TlsConnection lib" avail sent up
  by (unfold_locales, unfold tls_defs) (rule some_done full_done write_done some_fails write_fails; assumption)+

section \<open>A scripted stream\<close>

text \<open>
  A peer that sends given chunks and then either ends the stream or stays silent: the
  library on which the model runs. A chunk longer than the buffer is delivered in parts.
\<close>

record script =
  script_in :: "bytes list"
  script_out :: bytes
  script_eof :: bool

definition script_end :: "script \<Rightarrow> ('a result \<times> script) option" where
  "script_end s = (if script_eof s then Some (Inl (Raised (System_Error Eof)), s) else None)"

definition script_read_some :: "nat \<Rightarrow> (script, bytes) io" where
  "script_read_some n s =
     (case script_in s of
        [] \<Rightarrow> script_end s
      | ch # chs \<Rightarrow>
          if length ch \<le> n then Some (Inr ch, s\<lparr>script_in := chs\<rparr>)
          else Some (Inr (take n ch), s\<lparr>script_in := drop n ch # chs\<rparr>))"

definition script_read_full :: "nat \<Rightarrow> (script, bytes) io" where
  "script_read_full n s =
     (let all = concat (script_in s); rest = drop n all
      in if n \<le> length all then Some (Inr (take n all), s\<lparr>script_in := (if rest = [] then [] else [rest])\<rparr>)
         else script_end (s\<lparr>script_in := []\<rparr>))"

definition script_lib :: "script ssl_stream_lib" where
  "script_lib =
     \<lparr>lib_read_some = script_read_some, lib_read_full = script_read_full,
      lib_write_all = (\<lambda>d s. Some (Inr (), s\<lparr>script_out := script_out s @ d\<rparr>)),
      lib_close = io_return (), lib_shutdown = io_return ()\<rparr>"

definition script_up :: "script \<Rightarrow> bool" where
  "script_up s \<longleftrightarrow> list_all (\<lambda>ch. ch \<noteq> []) (script_in s)"

lemma script_end_not_Inr [simp]: "script_end s \<noteq> Some (Inr d, s')"
  by (simp add: script_end_def)

lemma no_ub_script_end: "script_end s = Some (r, s') \<Longrightarrow> no_ub r"
  by (auto simp: script_end_def split: if_splits)

interpretation scripted: ssl_stream script_lib "\<lambda>s. concat (script_in s)" script_out script_up
proof
  fix s n d s'
  show "lib_read_some script_lib n s = Some (Inr d, s') \<Longrightarrow> length d \<le> n"
    by (auto simp: script_lib_def script_read_some_def split: list.splits if_splits)
  show "lib_read_full script_lib n s = Some (Inr d, s') \<Longrightarrow> length d = n"
    by (auto simp: script_lib_def script_read_full_def Let_def split: if_splits)
  show "io_safe (lib_read_some script_lib n)" "io_safe (lib_read_full script_lib n)"
    by (auto simp: script_lib_def script_read_some_def script_read_full_def Let_def
        dest: no_ub_script_end split: list.splits if_splits intro!: io_safeI)
  show "script_up s \<Longrightarrow> concat (script_in s) \<noteq> [] \<Longrightarrow> 0 < n \<Longrightarrow>
      \<exists>d s'. lib_read_some script_lib n s = Some (Inr d, s') \<and> d \<noteq> [] \<and>
        concat (script_in s) = d @ concat (script_in s') \<and> script_out s' = script_out s \<and> script_up s'"
    by (cases "script_in s") (auto simp: script_lib_def script_read_some_def script_up_def)
  show "script_up s \<Longrightarrow> n \<le> length (concat (script_in s)) \<Longrightarrow>
      \<exists>s'. lib_read_full script_lib n s = Some (Inr (take n (concat (script_in s))), s') \<and>
        concat (script_in s') = drop n (concat (script_in s)) \<and> script_out s' = script_out s \<and> script_up s'"
    by (auto simp: script_lib_def script_read_full_def script_up_def Let_def)
  show "script_up s \<Longrightarrow> concat (script_in s) = [] \<Longrightarrow> lib_read_some script_lib n s = Some (Inr d, s') \<Longrightarrow>
      d = [] \<and> concat (script_in s') = [] \<and> script_out s' = script_out s \<and> script_up s'"
    by (cases "script_in s") (auto simp: script_lib_def script_read_some_def script_up_def)
qed (auto simp: script_lib_def script_read_full_def script_up_def Let_def intro: io_safeI)

section \<open>A stream that breaks\<close>

text \<open>
  The peer's script may hold a reset (\<open>None\<close>), at which a read fails and the rest is lost, and the peer takes
  only \<open>flaky_room\<close> more bytes: the write that exceeds them sends what still fits and fails.
\<close>

record flaky =
  flaky_in :: "bytes option list"
  flaky_out :: bytes
  flaky_room :: nat

fun until_reset :: "bytes option list \<Rightarrow> bytes" where
  "until_reset (Some ch # chs) = ch @ until_reset chs"
| "until_reset _ = []"

definition flaky_end :: "flaky \<Rightarrow> ('a result \<times> flaky) option" where
  "flaky_end s = Some (Inl (Raised (System_Error Eof)), s\<lparr>flaky_in := []\<rparr>)"

definition flaky_read_some :: "nat \<Rightarrow> (flaky, bytes) io" where
  "flaky_read_some n s =
     (case flaky_in s of
        Some ch # chs \<Rightarrow>
          if length ch \<le> n then Some (Inr ch, s\<lparr>flaky_in := chs\<rparr>)
          else Some (Inr (take n ch), s\<lparr>flaky_in := Some (drop n ch) # chs\<rparr>)
      | _ \<Rightarrow> flaky_end s)"

definition flaky_read_full :: "nat \<Rightarrow> (flaky, bytes) io" where
  "flaky_read_full n s =
     (let all = until_reset (flaky_in s)
      in if n \<le> length all then Some (Inr (take n all), s\<lparr>flaky_in := [Some (drop n all), None]\<rparr>) else flaky_end s)"

definition flaky_write :: "bytes \<Rightarrow> (flaky, unit) io" where
  "flaky_write d s =
     (let s' = s\<lparr>flaky_out := flaky_out s @ take (flaky_room s) d, flaky_room := flaky_room s - length d\<rparr>
      in if length d \<le> flaky_room s then Some (Inr (), s') else Some (Inl (Raised (System_Error Eof)), s'))"

definition flaky_lib :: "flaky ssl_stream_lib" where
  "flaky_lib =
     \<lparr>lib_read_some = flaky_read_some, lib_read_full = flaky_read_full, lib_write_all = flaky_write,
      lib_close = io_return (), lib_shutdown = io_return ()\<rparr>"

interpretation broken: honest_ssl_stream flaky_lib "\<lambda>s. until_reset (flaky_in s)" flaky_out "\<lambda>s. True"
proof
  fix s n d s' f
  show "lib_read_some flaky_lib n s = Some (Inr d, s') \<Longrightarrow> length d \<le> n"
    by (auto simp: flaky_lib_def flaky_read_some_def flaky_end_def split: list.splits option.splits if_splits)
  show "lib_read_full flaky_lib n s = Some (Inr d, s') \<Longrightarrow> length d = n"
    by (auto simp: flaky_lib_def flaky_read_full_def flaky_end_def Let_def split: if_splits)
  show "io_safe (lib_read_some flaky_lib n)" "io_safe (lib_read_full flaky_lib n)" "io_safe (lib_write_all flaky_lib d)"
    by (auto simp: flaky_lib_def flaky_read_some_def flaky_read_full_def flaky_write_def flaky_end_def Let_def
        split: list.splits option.splits if_splits intro!: io_safeI)
  show "lib_read_some flaky_lib n s = Some (Inr d, s') \<Longrightarrow>
      until_reset (flaky_in s) = d @ until_reset (flaky_in s') \<and> flaky_out s' = flaky_out s \<and> True"
    by (auto simp: flaky_lib_def flaky_read_some_def flaky_end_def split: list.splits option.splits if_splits)
  show "lib_read_full flaky_lib n s = Some (Inr d, s') \<Longrightarrow>
      until_reset (flaky_in s) = d @ until_reset (flaky_in s') \<and> flaky_out s' = flaky_out s \<and> True"
    by (auto simp: flaky_lib_def flaky_read_full_def flaky_end_def Let_def split: if_splits)
  show "lib_read_some flaky_lib n s = Some (Inl f, s') \<Longrightarrow>
      suffix (until_reset (flaky_in s')) (until_reset (flaky_in s)) \<and> flaky_out s' = flaky_out s \<and> True"
    by (auto simp: flaky_lib_def flaky_read_some_def flaky_end_def split: list.splits option.splits if_splits)
  show "lib_write_all flaky_lib d s = Some (Inl f, s') \<Longrightarrow>
      until_reset (flaky_in s') = until_reset (flaky_in s) \<and>
      (\<exists>d'. prefix d' d \<and> flaky_out s' = flaky_out s @ d') \<and> True"
    by (auto simp: flaky_lib_def flaky_write_def Let_def take_is_prefix split: if_splits)
qed (auto simp: flaky_lib_def flaky_write_def Let_def split: if_splits intro: io_safeI)

end
