(* ===== verification/Ws_Connection.thy ===== *)
theory Ws_Connection
  imports Connection
begin

text \<open>
  \<^verbatim>\<open>connections/ws.*\<close> and \<^verbatim>\<open>connections/wss.*\<close>: connections over WebSocket
  messages. Incoming messages are collected in \<^verbatim>\<open>buffer_\<close>; a message that is not
  binary is an error. The two classes differ in one place: the TLS one switches the stream
  to binary frames before it writes. The WebSocket stream is the library's; \<open>ws_read\<close> is
  \<^verbatim>\<open>async_read\<close> together with the \<^verbatim>\<open>got_binary()\<close> of the message.
\<close>

section \<open>The library and the state\<close>

record 'w ws_lib =
  ws_read :: "('w, bool \<times> bytes) io"
  ws_set_binary :: "bool \<Rightarrow> 'w \<Rightarrow> 'w"
  ws_write :: "bytes \<Rightarrow> ('w, unit) io"
  ws_close :: "('w, unit) io"

record 'w ws_connection =
  ws_stream :: 'w
  ws_buffer :: bytes

definition on_stream :: "('w, 'a) io \<Rightarrow> ('w ws_connection, 'a) io" where
  "on_stream m = io_zoom ws_stream (\<lambda>w c. c\<lparr>ws_stream := w\<rparr>) m"

text \<open>One \<^verbatim>\<open>async_read\<close> with the check that follows it.\<close>

definition ws_read_binary :: "'w ws_lib \<Rightarrow> ('w ws_connection, bytes) io" where
  "ws_read_binary lib =
     io_bind (on_stream (ws_read lib)) (\<lambda>(binary, payload).
       if \<not> binary then io_throw ''ws only accept binary'' else io_return payload)"

section \<open>The operations of both classes\<close>

definition WsConnection_read :: "'w ws_lib \<Rightarrow> nat \<Rightarrow> ('w ws_connection, bytes) io" where
  "WsConnection_read lib n c =
     (if ws_buffer c \<noteq> [] then (let res = ws_buffer c in Some (Inr res, c\<lparr>ws_buffer := []\<rparr>))
      else ws_read_binary lib c)"

partial_function (option) ws_fill ::
  "'w ws_lib \<Rightarrow> nat \<Rightarrow> 'w ws_connection \<Rightarrow> (unit result \<times> 'w ws_connection) option" where
  "ws_fill lib n c =
     (if length (ws_buffer c) < n then
        io_bind (ws_read_binary lib) (\<lambda>payload c'.
          ws_fill lib n (c'\<lparr>ws_buffer := ws_buffer c' @ payload\<rparr>)) c
      else Some (Inr (), c))"

definition ws_take :: "nat \<Rightarrow> ('w ws_connection, bytes) io" where
  "ws_take n c = Some (Inr (take n (ws_buffer c)), c\<lparr>ws_buffer := drop n (ws_buffer c)\<rparr>)"

definition WsConnection_read_exactly :: "'w ws_lib \<Rightarrow> nat \<Rightarrow> ('w ws_connection, bytes) io" where
  "WsConnection_read_exactly lib n = io_bind (ws_fill lib n) (\<lambda>_. ws_take n)"

definition WsConnection_write :: "'w ws_lib \<Rightarrow> bytes \<Rightarrow> ('w ws_connection, unit) io" where
  "WsConnection_write lib data = on_stream (ws_write lib data)"

definition WsConnection_close :: "'w ws_lib \<Rightarrow> ('w ws_connection, unit) io" where
  "WsConnection_close lib = on_stream (ws_close lib)"

definition WsConnection :: "'w ws_lib \<Rightarrow> 'w ws_connection connection" where
  "WsConnection lib =
     \<lparr>conn_read = WsConnection_read lib, conn_read_exactly = WsConnection_read_exactly lib,
      conn_write = WsConnection_write lib, conn_close = WsConnection_close lib\<rparr>"

definition WssConnection_read :: "'w ws_lib \<Rightarrow> nat \<Rightarrow> ('w ws_connection, bytes) io" where
  "WssConnection_read lib n c =
     (if ws_buffer c \<noteq> [] then (let res = ws_buffer c in Some (Inr res, c\<lparr>ws_buffer := []\<rparr>))
      else ws_read_binary lib c)"

definition WssConnection_read_exactly :: "'w ws_lib \<Rightarrow> nat \<Rightarrow> ('w ws_connection, bytes) io" where
  "WssConnection_read_exactly lib n = io_bind (ws_fill lib n) (\<lambda>_. ws_take n)"

definition WssConnection_write :: "'w ws_lib \<Rightarrow> bytes \<Rightarrow> ('w ws_connection, unit) io" where
  "WssConnection_write lib data c =
     (let c' = c\<lparr>ws_stream := ws_set_binary lib True (ws_stream c)\<rparr> in on_stream (ws_write lib data) c')"

definition WssConnection_close :: "'w ws_lib \<Rightarrow> ('w ws_connection, unit) io" where
  "WssConnection_close lib = on_stream (ws_close lib)"

definition WssConnection :: "'w ws_lib \<Rightarrow> 'w ws_connection connection" where
  "WssConnection lib =
     \<lparr>conn_read = WssConnection_read lib, conn_read_exactly = WssConnection_read_exactly lib,
      conn_write = WssConnection_write lib, conn_close = WssConnection_close lib\<rparr>"

lemma WssConnection_reads_like_Ws:
  "WssConnection_read lib = WsConnection_read lib"
  "WssConnection_read_exactly lib = WsConnection_read_exactly lib"
  "WssConnection_close lib = WsConnection_close lib"
  by (simp_all add: fun_eq_iff WssConnection_read_def WsConnection_read_def
      WssConnection_read_exactly_def WsConnection_read_exactly_def
      WssConnection_close_def WsConnection_close_def)

section \<open>What the library promises\<close>

locale message_ports =
  fixes lib :: "'w ws_lib"
    and inbox :: "'w \<Rightarrow> (bool \<times> bytes) list"
    and outbox :: "'w \<Rightarrow> (bool \<times> bytes) list"
    and mode :: "'w \<Rightarrow> bool"
    and up :: "'w \<Rightarrow> bool"
  assumes ws_safe: "io_safe (ws_read lib)" "io_safe (ws_write lib d)" "io_safe (ws_close lib)"
    and set_binary: "mode (ws_set_binary lib b w) = b" "inbox (ws_set_binary lib b w) = inbox w"
      "outbox (ws_set_binary lib b w) = outbox w" "up (ws_set_binary lib b w) = up w"
begin

definition ws_incoming :: "'w ws_connection \<Rightarrow> bytes" where
  "ws_incoming c = ws_buffer c @ concat (map snd (inbox (ws_stream c)))"

definition ws_outgoing :: "'w ws_connection \<Rightarrow> bytes" where
  "ws_outgoing c = concat (map snd (outbox (ws_stream c)))"

definition ws_live :: "'w ws_connection \<Rightarrow> bool" where
  "ws_live c \<longleftrightarrow> up (ws_stream c) \<and> list_all fst (inbox (ws_stream c))"

definition ws_pieces :: "'w ws_connection \<Rightarrow> nat" where
  "ws_pieces c = length (inbox (ws_stream c)) + (if ws_buffer c = [] then 0 else 1)"

lemmas ws_view_defs = ws_incoming_def ws_outgoing_def ws_live_def ws_pieces_def

lemma safe_on_stream: "io_safe m \<Longrightarrow> io_safe (on_stream m)"
  by (auto simp: io_safe_def on_stream_def io_zoom_def split: option.splits)

lemma safe_read_binary: "io_safe (ws_read lb) \<Longrightarrow> io_safe (ws_read_binary lb)"
  unfolding ws_read_binary_def
  by (auto intro!: io_safe_bind safe_on_stream split: prod.splits)

lemma safe_ws_take: "io_safe (ws_take n)"
  by (rule io_safeI) (auto simp: ws_take_def)

lemma read_binary_buffer:
  "ws_read_binary lib c = Some (r, c') \<Longrightarrow> ws_buffer c' = ws_buffer c"
  by (auto simp: ws_read_binary_def on_stream_def io_zoom_def io_bind_def
      split: option.splits sum.splits if_splits)

text \<open>Partial correctness of the loop, on any state: it stops with enough bytes.\<close>

lemma ws_fill_some_enough:
  assumes "ws_fill lib n c = Some y" "fst y = Inr u"
  shows "n \<le> length (ws_buffer (snd y))"
  using assms
proof (induction rule: ws_fill.raw_induct [rotated, consumes 1, case_names step])
  case (step fill lib n c y)
  show ?case
  proof (cases "length (ws_buffer c) < n")
    case True
    with step(2,3) obtain p c1 where "fill lib n (c1\<lparr>ws_buffer := ws_buffer c1 @ p\<rparr>) = Some y"
      by (cases y) (auto simp: io_bind_eq_Some)
    then show ?thesis using step(1,3) by blast
  next
    case False
    with step(2) show ?thesis by auto
  qed
qed

lemma ws_fill_enough: "ws_fill lib n c = Some (Inr u, c') \<Longrightarrow> n \<le> length (ws_buffer c')"
  by (drule ws_fill_some_enough) auto

lemma safe_ws_fill_some:
  assumes "ws_fill lb n c = Some y" "io_safe (ws_read lb)"
  shows "no_ub (fst y)"
  using assms
proof (induction rule: ws_fill.raw_induct [rotated, consumes 1, case_names step])
  case (step fill lb n c y)
  show ?case
  proof (cases "length (ws_buffer c) < n")
    case True
    then consider e c' where "ws_read_binary lb c = Some (Inl e, c')" "fst y = Inl e"
      | p c1 where "fill lb n (c1\<lparr>ws_buffer := ws_buffer c1 @ p\<rparr>) = Some y"
      using step(2) by (cases y) (auto simp: io_bind_eq_Some)
    then show ?thesis
    proof cases
      case 1
      then show ?thesis
        using io_safeD [OF safe_read_binary [OF step(3)] 1(1)] by (simp add: no_ub_Inl_cong)
    next
      case 2
      then show ?thesis using step(1,3) by blast
    qed
  next
    case False
    with step(2) show ?thesis by auto
  qed
qed

lemma safe_ws_fill: "io_safe (ws_fill lib n)"
  by (rule io_safeI) (use ws_safe(1) in \<open>auto dest: safe_ws_fill_some\<close>)

lemma ws_exact:
  "WsConnection_read_exactly lib n c = Some (Inr d, c') \<Longrightarrow> length d = n"
  by (auto simp: WsConnection_read_exactly_def ws_take_def dest!: ws_fill_enough)

lemma ws_read_exactly_safe: "io_safe (WsConnection_read_exactly lib n)"
  unfolding WsConnection_read_exactly_def
  by (rule io_safe_bind [OF safe_ws_fill safe_ws_take])

lemma ws_read_safe: "io_safe (WsConnection_read lib n)"
proof (rule io_safeI)
  fix c r c'
  show "WsConnection_read lib n c = Some (r, c') \<Longrightarrow> no_ub r"
    using io_safeD [OF safe_read_binary [OF ws_safe(1)]] by (auto simp: WsConnection_read_def split: if_splits)
qed

lemma wss_write_safe: "io_safe (WssConnection_write lib d)"
  using safe_on_stream [OF ws_safe(2)] by (auto simp: WssConnection_write_def io_safe_def)

end

text \<open>A stream on which nothing fails before its end.\<close>

locale message_stream = message_ports lib inbox outbox mode up
  for lib :: "'w ws_lib" and inbox outbox mode up +
  assumes next_message: "up w \<Longrightarrow> inbox w = m # ms \<Longrightarrow>
      \<exists>w'. ws_read lib w = Some (Inr m, w') \<and> inbox w' = ms \<and> outbox w' = outbox w \<and> up w'"
    and no_message: "up w \<Longrightarrow> inbox w = [] \<Longrightarrow> ws_read lib w \<noteq> Some (Inr m, w')"
    and send_message: "up w \<Longrightarrow>
      \<exists>w'. ws_write lib d w = Some (Inr (), w') \<and> inbox w' = inbox w \<and> outbox w' = outbox w @ [(mode w, d)] \<and> up w'"
    and close_message: "up w \<Longrightarrow> \<exists>r w'. ws_close lib w = Some (r, w') \<and> outbox w' = outbox w"

text \<open>A stream that may fail at any time; of a message that was not sent as a whole a part may have been.\<close>

locale honest_messages = message_ports lib inbox outbox mode up
  for lib :: "'w ws_lib" and inbox outbox mode up +
  assumes message_done: "up w \<Longrightarrow> ws_read lib w = Some (Inr m, w') \<Longrightarrow>
      inbox w = m # inbox w' \<and> outbox w' = outbox w \<and> up w'"
    and message_failed: "up w \<Longrightarrow> ws_read lib w = Some (Inl f, w') \<Longrightarrow>
      suffix (inbox w') (inbox w) \<and> outbox w' = outbox w \<and> up w'"
    and send_done: "up w \<Longrightarrow> ws_write lib d w = Some (Inr (), w') \<Longrightarrow>
      inbox w' = inbox w \<and> outbox w' = outbox w @ [(mode w, d)] \<and> up w'"
    and send_failed: "up w \<Longrightarrow> ws_write lib d w = Some (Inl f, w') \<Longrightarrow>
      inbox w' = inbox w \<and> (\<exists>d'. prefix d' d \<and> concat (map snd (outbox w')) = concat (map snd (outbox w)) @ d') \<and> up w'"

context message_stream
begin

lemma read_binary_next:
  assumes "ws_live c" "inbox (ws_stream c) = m # ms"
  shows "\<exists>c'. ws_read_binary lib c = Some (Inr (snd m), c') \<and> ws_buffer c' = ws_buffer c \<and>
    inbox (ws_stream c') = ms \<and> ws_outgoing c' = ws_outgoing c \<and> ws_live c'"
proof -
  obtain b p where m: "m = (b, p)" by (cases m)
  obtain w where w: "ws_read lib (ws_stream c) = Some (Inr m, w)" "inbox w = ms"
      "outbox w = outbox (ws_stream c)" "up w"
    using next_message [of "ws_stream c" m ms] assms by (auto simp: ws_view_defs)
  show ?thesis
    using assms w m
    by (intro exI [of _ "c\<lparr>ws_stream := w\<rparr>"])
      (simp add: ws_read_binary_def on_stream_def io_zoom_def io_bind_def ws_view_defs)
qed

lemma read_binary_none:
  assumes "ws_live c" "inbox (ws_stream c) = []"
  shows "ws_read_binary lib c \<noteq> Some (Inr d, c')"
proof
  assume "ws_read_binary lib c = Some (Inr d, c')"
  then obtain m c1 where "on_stream (ws_read lib) c = Some (Inr m, c1)"
    unfolding ws_read_binary_def by (rule io_bind_InrE)
  then obtain w where "ws_read lib (ws_stream c) = Some (Inr m, w)"
    by (auto simp: on_stream_def io_zoom_def split: option.splits)
  then show False using no_message [of "ws_stream c" m w] assms by (simp add: ws_live_def)
qed

lemma ws_fill_live:
  assumes "ws_live c" "n \<le> length (ws_incoming c)"
  shows "\<exists>c'. ws_fill lib n c = Some (Inr (), c') \<and> n \<le> length (ws_buffer c') \<and>
    ws_incoming c' = ws_incoming c \<and> ws_outgoing c' = ws_outgoing c \<and> ws_live c'"
  using assms
proof (induction "inbox (ws_stream c)" arbitrary: c)
  case Nil
  then show ?case by (subst ws_fill.simps) (simp add: ws_incoming_def)
next
  case (Cons m ms)
  show ?case
  proof (cases "length (ws_buffer c) < n")
    case False
    with Cons.prems show ?thesis by (subst ws_fill.simps) simp
  next
    case True
    from read_binary_next [OF Cons.prems(1) Cons.hyps(2) [symmetric]]
    obtain c1 where c1: "ws_read_binary lib c = Some (Inr (snd m), c1)" "ws_buffer c1 = ws_buffer c"
        "inbox (ws_stream c1) = ms" "ws_outgoing c1 = ws_outgoing c" "ws_live c1"
      by blast
    let ?c = "c1\<lparr>ws_buffer := ws_buffer c1 @ snd m\<rparr>"
    have eq: "ws_fill lib n c = ws_fill lib n ?c"
      by (subst ws_fill.simps) (simp add: True c1(1))
    have view: "ms = inbox (ws_stream ?c)" "ws_live ?c" "ws_incoming ?c = ws_incoming c"
        "ws_outgoing ?c = ws_outgoing c"
      using c1 Cons.hyps(2) by (auto simp: ws_view_defs simp flip: Cons.hyps(2))
    show ?thesis using Cons.hyps(1) [OF view(1,2)] Cons.prems(2) by (simp add: eq view(3,4))
  qed
qed

lemma ws_fill_short:
  assumes "ws_live c" "length (ws_incoming c) < n"
  shows "ws_fill lib n c \<noteq> Some (Inr u, c')"
  using assms
proof (induction "inbox (ws_stream c)" arbitrary: c)
  case Nil
  then have "ws_read_binary lib c \<noteq> Some (Inr d, c'')" for d c''
    by (intro read_binary_none) simp_all
  with Nil show ?case
    by (subst ws_fill.simps) (auto simp: io_bind_eq_Some ws_incoming_def)
next
  case (Cons m ms)
  from read_binary_next [OF Cons.prems(1) Cons.hyps(2) [symmetric]]
  obtain c1 where c1: "ws_read_binary lib c = Some (Inr (snd m), c1)" "ws_buffer c1 = ws_buffer c"
      "inbox (ws_stream c1) = ms" "ws_live c1"
    by blast
  let ?c = "c1\<lparr>ws_buffer := ws_buffer c1 @ snd m\<rparr>"
  have "length (ws_buffer c) < n" using Cons.prems(2) by (simp add: ws_incoming_def)
  then have eq: "ws_fill lib n c = ws_fill lib n ?c"
    by (subst ws_fill.simps) (simp add: c1(1))
  have "ms = inbox (ws_stream ?c)" "ws_live ?c" "ws_incoming ?c = ws_incoming c"
    using c1 by (auto simp: ws_view_defs simp flip: Cons.hyps(2))
  then show ?case using Cons.hyps(1) [of ?c] Cons.prems(2) by (simp add: eq)
qed

text \<open>The whole reads.\<close>

lemma ws_read_exactly_enough:
  assumes "ws_live c" "n \<le> length (ws_incoming c)"
  shows "\<exists>c'. WsConnection_read_exactly lib n c = Some (Inr (take n (ws_incoming c)), c') \<and>
    ws_incoming c' = drop n (ws_incoming c) \<and> ws_outgoing c' = ws_outgoing c \<and> ws_live c'"
proof -
  from ws_fill_live [OF assms] obtain c1 where c1: "ws_fill lib n c = Some (Inr (), c1)"
      "n \<le> length (ws_buffer c1)" "ws_incoming c1 = ws_incoming c" "ws_outgoing c1 = ws_outgoing c" "ws_live c1"
    by blast
  let ?c = "c1\<lparr>ws_buffer := drop n (ws_buffer c1)\<rparr>"
  have "WsConnection_read_exactly lib n c = Some (Inr (take n (ws_incoming c1)), ?c)"
    using c1(1,2) by (simp add: WsConnection_read_exactly_def ws_take_def ws_incoming_def)
  moreover have "ws_incoming ?c = drop n (ws_incoming c1)" "ws_outgoing ?c = ws_outgoing c1" "ws_live ?c"
    using c1(2,5) by (simp_all add: ws_view_defs)
  ultimately show ?thesis using c1(3,4) by auto
qed

lemma ws_read_exactly_short:
  "ws_live c \<Longrightarrow> length (ws_incoming c) < n \<Longrightarrow> WsConnection_read_exactly lib n c \<noteq> Some (Inr d, c')"
  by (auto simp: WsConnection_read_exactly_def ws_fill_short)

lemma ws_read_some:
  assumes "ws_live c" "ws_incoming c \<noteq> []" "0 < n"
  shows "\<exists>d c'. WsConnection_read lib n c = Some (Inr d, c') \<and> ws_incoming c = d @ ws_incoming c' \<and>
    ws_pieces c' < ws_pieces c \<and> ws_outgoing c' = ws_outgoing c \<and> ws_live c'"
proof (cases "ws_buffer c = []")
  case True
  with assms(2) obtain m ms where m: "inbox (ws_stream c) = m # ms"
    by (cases "inbox (ws_stream c)") (auto simp: ws_incoming_def)
  from read_binary_next [OF assms(1) m] True m show ?thesis
    by (auto simp: WsConnection_read_def ws_incoming_def ws_pieces_def)
next
  case False
  with assms(1) show ?thesis by (simp add: WsConnection_read_def ws_view_defs)
qed

lemma ws_read_none:
  assumes "ws_live c" "ws_incoming c = []" "WsConnection_read lib n c = Some (Inr d, c')"
  shows "d = [] \<and> ws_incoming c' = [] \<and> ws_outgoing c' = ws_outgoing c \<and> ws_live c'"
proof -
  have b: "ws_buffer c = []" "ws_read_binary lib c = Some (Inr d, c')"
    using assms(2,3) by (simp_all add: ws_incoming_def WsConnection_read_def)
  then obtain m ms where m: "inbox (ws_stream c) = m # ms"
    using read_binary_none [OF assms(1)] by (cases "inbox (ws_stream c)") auto
  from read_binary_next [OF assms(1) m] b m assms(2) show ?thesis
    by (auto simp: ws_incoming_def)
qed

lemma on_stream_write:
  assumes "ws_live c"
  shows "\<exists>c'. on_stream (ws_write lib d) c = Some (Inr (), c') \<and> ws_incoming c' = ws_incoming c \<and>
    ws_outgoing c' = ws_outgoing c @ d \<and> ws_pieces c' = ws_pieces c \<and> ws_live c' \<and>
    outbox (ws_stream c') = outbox (ws_stream c) @ [(mode (ws_stream c), d)]"
proof -
  have "up (ws_stream c)" using assms by (simp add: ws_live_def)
  from send_message [OF this, of d] obtain w where
    "ws_write lib d (ws_stream c) = Some (Inr (), w)" "inbox w = inbox (ws_stream c)"
    "outbox w = outbox (ws_stream c) @ [(mode (ws_stream c), d)]" "up w"
    by blast
  then show ?thesis
    using assms by (simp add: on_stream_def io_zoom_def ws_view_defs)
qed

lemma on_stream_close:
  "ws_live c \<Longrightarrow> \<exists>r c'. on_stream (ws_close lib) c = Some (r, c') \<and> ws_outgoing c' = ws_outgoing c"
  using close_message [of "ws_stream c"] by (auto simp: on_stream_def io_zoom_def ws_view_defs)

lemma wss_write:
  assumes "ws_live c"
  shows "\<exists>c'. WssConnection_write lib d c = Some (Inr (), c') \<and> ws_incoming c' = ws_incoming c \<and>
    ws_outgoing c' = ws_outgoing c @ d \<and> ws_pieces c' = ws_pieces c \<and> ws_live c' \<and>
    outbox (ws_stream c') = outbox (ws_stream c) @ [(True, d)]"
  using on_stream_write [of "c\<lparr>ws_stream := ws_set_binary lib True (ws_stream c)\<rparr>" d] assms
  by (auto simp: WssConnection_write_def ws_view_defs set_binary)

lemma ws_write_drop_frame: "ws_live c \<Longrightarrow>
  \<exists>c'. on_stream (ws_write lib d) c = Some (Inr (), c') \<and> ws_incoming c' = ws_incoming c \<and>
    ws_outgoing c' = ws_outgoing c @ d \<and> ws_pieces c' = ws_pieces c \<and> ws_live c'"
  using on_stream_write by blast

lemma wss_write_drop_frame: "ws_live c \<Longrightarrow>
  \<exists>c'. WssConnection_write lib d c = Some (Inr (), c') \<and> ws_incoming c' = ws_incoming c \<and>
    ws_outgoing c' = ws_outgoing c @ d \<and> ws_pieces c' = ws_pieces c \<and> ws_live c'"
  using wss_write by blast

text \<open>The frames of a write, and a text frame at a read, whatever the other messages are.\<close>

lemma send_frames:
  assumes "up w"
  shows "(\<exists>c'. WssConnection_write lib d \<lparr>ws_stream = w, ws_buffer = b\<rparr> = Some (Inr (), c') \<and>
           outbox (ws_stream c') = outbox w @ [(True, d)]) \<and>
         (\<exists>c'. WsConnection_write lib d \<lparr>ws_stream = w, ws_buffer = b\<rparr> = Some (Inr (), c') \<and>
           outbox (ws_stream c') = outbox w @ [(mode w, d)])"
proof -
  from send_message [OF assms, of d] obtain w1 where w1: "ws_write lib d w = Some (Inr (), w1)"
    "outbox w1 = outbox w @ [(mode w, d)]" by blast
  have "up (ws_set_binary lib True w)" using assms by (simp add: set_binary)
  from send_message [OF this, of d] obtain w2 where "ws_write lib d (ws_set_binary lib True w) = Some (Inr (), w2)"
    "outbox w2 = outbox w @ [(True, d)]" by (auto simp: set_binary)
  with w1 show ?thesis
    by (simp add: WssConnection_write_def WsConnection_write_def on_stream_def io_zoom_def)
qed

lemma read_text_frame:
  assumes "up w" "inbox w = (False, d) # ms"
  shows "\<exists>c'. WsConnection_read lib n \<lparr>ws_stream = w, ws_buffer = []\<rparr>
    = Some (throw_error ''ws only accept binary'', c')"
proof -
  from next_message [OF assms] obtain w' where "ws_read lib w = Some (Inr (False, d), w')" by blast
  then show ?thesis
    by (simp add: WsConnection_read_def ws_read_binary_def on_stream_def io_zoom_def io_bind_def)
qed

end

section \<open>Both classes keep the contracts of a connection\<close>

sublocale message_ports \<subseteq> ws_exact: exact_reader "WsConnection lib"
  by (unfold_locales, unfold WsConnection_def connection.simps WsConnection_write_def WsConnection_close_def)
    (rule ws_exact ws_read_safe ws_read_exactly_safe safe_on_stream [OF ws_safe(2)] safe_on_stream [OF ws_safe(3)]; assumption)+

sublocale message_ports \<subseteq> wss_exact: exact_reader "WssConnection lib"
  by (unfold_locales, unfold WssConnection_def connection.simps WssConnection_reads_like_Ws WsConnection_close_def)
    (rule ws_exact ws_read_safe ws_read_exactly_safe wss_write_safe safe_on_stream [OF ws_safe(3)]; assumption)+

sublocale message_stream \<subseteq> ws_con: byte_peer "WsConnection lib" ws_incoming ws_outgoing ws_live ws_pieces
  by (unfold_locales, unfold WsConnection_def connection.simps WsConnection_write_def WsConnection_close_def)
    (rule ws_read_exactly_enough ws_read_exactly_short ws_read_some ws_read_none ws_write_drop_frame on_stream_close; assumption)+

sublocale message_stream \<subseteq> wss_con: byte_peer "WssConnection lib" ws_incoming ws_outgoing ws_live ws_pieces
  by (unfold_locales, unfold WssConnection_def connection.simps WssConnection_reads_like_Ws WsConnection_close_def)
    (rule ws_read_exactly_enough ws_read_exactly_short ws_read_some ws_read_none wss_write_drop_frame on_stream_close; assumption)+

context honest_messages
begin

definition ws_up :: "'w ws_connection \<Rightarrow> bool" where
  "ws_up c \<longleftrightarrow> up (ws_stream c)"

lemma binary_done:
  assumes "ws_up c" "ws_read_binary lib c = Some (Inr p, c')"
  shows "ws_buffer c' = ws_buffer c \<and> concat (map snd (inbox (ws_stream c))) = p @ concat (map snd (inbox (ws_stream c'))) \<and>
    ws_outgoing c' = ws_outgoing c \<and> ws_up c'"
  using assms message_done [of "ws_stream c"]
  by (auto simp: ws_read_binary_def on_stream_def io_zoom_def io_bind_eq_Some ws_up_def ws_outgoing_def
      split: option.splits if_splits)

lemma binary_failed:
  assumes "ws_up c" "ws_read_binary lib c = Some (Inl f, c')"
  shows "ws_buffer c' = ws_buffer c \<and> suffix (inbox (ws_stream c')) (inbox (ws_stream c)) \<and>
    ws_outgoing c' = ws_outgoing c \<and> ws_up c'"
proof -
  from assms(2) consider "on_stream (ws_read lib) c = Some (Inl f, c')"
    | m where "on_stream (ws_read lib) c = Some (Inr m, c')"
    unfolding ws_read_binary_def by (auto simp: io_bind_eq_Some split: if_splits)
  then show ?thesis
  proof cases
    case 1
    then show ?thesis using message_failed [of "ws_stream c"] assms(1)
      by (auto simp: on_stream_def io_zoom_def ws_up_def ws_outgoing_def split: option.splits)
  next
    case (2 m)
    then obtain w where w: "ws_read lib (ws_stream c) = Some (Inr m, w)" "c' = c\<lparr>ws_stream := w\<rparr>"
      by (auto simp: on_stream_def io_zoom_def split: option.splits)
    from message_done [OF _ w(1)] assms(1) show ?thesis
      by (simp add: w(2) ws_up_def ws_outgoing_def suffix_Cons)
  qed
qed

lemma fill_some_done:
  assumes "ws_fill lb n c = Some y" "fst y = Inr u" "ws_up c" "lb = lib"
  shows "ws_incoming (snd y) = ws_incoming c \<and> ws_outgoing (snd y) = ws_outgoing c \<and> ws_up (snd y)"
  using assms
proof (induction rule: ws_fill.raw_induct [rotated, consumes 1, case_names step])
  case (step fill lb n c y)
  show ?case
  proof (cases "length (ws_buffer c) < n")
    case True
    with step(2,3) obtain p c1 where p: "ws_read_binary lb c = Some (Inr p, c1)"
      "fill lb n (c1\<lparr>ws_buffer := ws_buffer c1 @ p\<rparr>) = Some y"
      by (cases y) (auto simp: io_bind_eq_Some)
    from binary_done [OF step(4) p(1) [unfolded step(5)]] show ?thesis
      using step(1) [OF p(2) step(3) _ step(5)] by (simp add: ws_incoming_def ws_outgoing_def ws_up_def)
  next
    case False
    with step(2,4) show ?thesis by auto
  qed
qed

lemma read_exactly_faithful:
  assumes "ws_up c" "WsConnection_read_exactly lib n c = Some (Inr d, c')"
  shows "ws_incoming c = d @ ws_incoming c' \<and> ws_outgoing c' = ws_outgoing c \<and> ws_up c'"
proof -
  obtain c1 where c1: "ws_fill lib n c = Some (Inr (), c1)" "d = take n (ws_buffer c1)"
    "c' = c1\<lparr>ws_buffer := drop n (ws_buffer c1)\<rparr>"
    using assms(2) by (auto simp: WsConnection_read_exactly_def ws_take_def)
  have "ws_incoming c = d @ ws_incoming c'" "ws_outgoing c' = ws_outgoing c1" "ws_up c' = ws_up c1"
    if "ws_incoming c1 = ws_incoming c"
    unfolding that [symmetric] by (simp_all add: c1(2,3) ws_incoming_def ws_outgoing_def ws_up_def)
  with fill_some_done [OF c1(1) _ assms(1)] show ?thesis by auto
qed

lemma read_faithful:
  "ws_up c \<Longrightarrow> WsConnection_read lib n c = Some (Inr d, c') \<Longrightarrow>
   ws_incoming c = d @ ws_incoming c' \<and> ws_outgoing c' = ws_outgoing c \<and> ws_up c'"
  using binary_done [of c d c']
  by (auto simp: WsConnection_read_def ws_incoming_def ws_outgoing_def ws_up_def split: if_splits)

lemma read_failing:
  "ws_up c \<Longrightarrow> WsConnection_read lib n c = Some (Inl f, c') \<Longrightarrow>
   suffix (ws_incoming c') (ws_incoming c) \<and> ws_outgoing c' = ws_outgoing c \<and> ws_up c'"
  using binary_failed [of c f c']
  by (auto simp: WsConnection_read_def ws_incoming_def suffix_def split: if_splits)

lemma write_faithful:
  "ws_up c \<Longrightarrow> on_stream (ws_write lib d) c = Some (Inr (), c') \<Longrightarrow>
   ws_incoming c' = ws_incoming c \<and> ws_outgoing c' = ws_outgoing c @ d \<and> ws_up c'"
  using send_done [of "ws_stream c" d]
  by (auto simp: on_stream_def io_zoom_def ws_incoming_def ws_outgoing_def ws_up_def split: option.splits)

lemma write_failing:
  "ws_up c \<Longrightarrow> on_stream (ws_write lib d) c = Some (Inl f, c') \<Longrightarrow>
   ws_incoming c' = ws_incoming c \<and> (\<exists>d'. prefix d' d \<and> ws_outgoing c' = ws_outgoing c @ d') \<and> ws_up c'"
  using send_failed [of "ws_stream c" d]
  by (auto simp: on_stream_def io_zoom_def ws_incoming_def ws_outgoing_def ws_up_def split: option.splits)

text \<open>The mode of the frames does not matter to the bytes.\<close>

lemma binary_mode_views:
  "ws_incoming (c\<lparr>ws_stream := ws_set_binary lib b (ws_stream c)\<rparr>) = ws_incoming c"
  "ws_outgoing (c\<lparr>ws_stream := ws_set_binary lib b (ws_stream c)\<rparr>) = ws_outgoing c"
  "ws_up (c\<lparr>ws_stream := ws_set_binary lib b (ws_stream c)\<rparr>) = ws_up c"
  by (simp_all add: ws_incoming_def ws_outgoing_def ws_up_def set_binary)

lemmas wss_write_faithful =
  write_faithful [of "c\<lparr>ws_stream := ws_set_binary lib True (ws_stream c)\<rparr>" for c, unfolded binary_mode_views]

lemmas wss_write_failing =
  write_failing [of "c\<lparr>ws_stream := ws_set_binary lib True (ws_stream c)\<rparr>" for c, unfolded binary_mode_views]

end

sublocale honest_messages \<subseteq> ws_honest: honest_peer "WsConnection lib" ws_incoming ws_outgoing ws_up
  by (unfold_locales, unfold WsConnection_def connection.simps WsConnection_write_def)
    (rule read_exactly_faithful read_faithful read_failing write_faithful write_failing; assumption)+

sublocale honest_messages \<subseteq> wss_honest: honest_peer "WssConnection lib" ws_incoming ws_outgoing ws_up
  by (unfold_locales, unfold WssConnection_def connection.simps WssConnection_reads_like_Ws WssConnection_write_def Let_def)
    (rule read_exactly_faithful read_faithful read_failing wss_write_faithful wss_write_failing; assumption)+

section \<open>A scripted message stream\<close>

record ws_script =
  wss_in :: "(bool \<times> bytes) list"
  wss_out :: "(bool \<times> bytes) list"
  wss_mode :: bool

definition ws_script_read :: "(ws_script, bool \<times> bytes) io" where
  "ws_script_read s =
     (case wss_in s of [] \<Rightarrow> None | m # ms \<Rightarrow> Some (Inr m, s\<lparr>wss_in := ms\<rparr>))"

definition ws_script_lib :: "ws_script ws_lib" where
  "ws_script_lib =
     \<lparr>ws_read = ws_script_read, ws_set_binary = (\<lambda>b s. s\<lparr>wss_mode := b\<rparr>),
      ws_write = (\<lambda>d s. Some (Inr (), s\<lparr>wss_out := wss_out s @ [(wss_mode s, d)]\<rparr>)),
      ws_close = io_return ()\<rparr>"

interpretation scripted_ws: message_stream ws_script_lib wss_in wss_out wss_mode "\<lambda>s. True"
proof
  show "io_safe (ws_read ws_script_lib)"
    by (rule io_safeI) (auto simp: ws_script_lib_def ws_script_read_def split: list.splits)
qed (auto simp: ws_script_lib_def ws_script_read_def io_safe_def)

text \<open>One that breaks: it fails at a \<open>None\<close>, and when it has sent \<open>fws_room\<close> messages.\<close>

record flaky_ws =
  fws_in :: "(bool \<times> bytes) option list"
  fws_out :: "(bool \<times> bytes) list"
  fws_mode :: bool
  fws_room :: nat

fun messages_until :: "(bool \<times> bytes) option list \<Rightarrow> (bool \<times> bytes) list" where
  "messages_until (Some m # ms) = m # messages_until ms"
| "messages_until _ = []"

definition flaky_ws_read :: "(flaky_ws, bool \<times> bytes) io" where
  "flaky_ws_read s =
     (case fws_in s of
        Some m # ms \<Rightarrow> Some (Inr m, s\<lparr>fws_in := ms\<rparr>)
      | _ \<Rightarrow> Some (Inl (Raised (System_Error Eof)), s\<lparr>fws_in := []\<rparr>))"

definition flaky_ws_write :: "bytes \<Rightarrow> (flaky_ws, unit) io" where
  "flaky_ws_write d s =
     (case fws_room s of
        0 \<Rightarrow> Some (Inl (Raised (System_Error Eof)), s)
      | Suc k \<Rightarrow> Some (Inr (), s\<lparr>fws_out := fws_out s @ [(fws_mode s, d)], fws_room := k\<rparr>))"

definition flaky_ws_lib :: "flaky_ws ws_lib" where
  "flaky_ws_lib =
     \<lparr>ws_read = flaky_ws_read, ws_set_binary = (\<lambda>b s. s\<lparr>fws_mode := b\<rparr>), ws_write = flaky_ws_write, ws_close = io_return ()\<rparr>"

interpretation broken_ws: honest_messages flaky_ws_lib "\<lambda>s. messages_until (fws_in s)" fws_out fws_mode "\<lambda>s. True"
proof
  fix w m w' f d
  show "io_safe (ws_read flaky_ws_lib)" "io_safe (ws_write flaky_ws_lib d)"
    by (auto simp: flaky_ws_lib_def flaky_ws_read_def flaky_ws_write_def split: list.splits option.splits nat.splits
        intro!: io_safeI)
  show "ws_read flaky_ws_lib w = Some (Inr m, w') \<Longrightarrow>
      messages_until (fws_in w) = m # messages_until (fws_in w') \<and> fws_out w' = fws_out w \<and> True"
    by (auto simp: flaky_ws_lib_def flaky_ws_read_def split: list.splits option.splits)
  show "ws_read flaky_ws_lib w = Some (Inl f, w') \<Longrightarrow>
      suffix (messages_until (fws_in w')) (messages_until (fws_in w)) \<and> fws_out w' = fws_out w \<and> True"
    by (auto simp: flaky_ws_lib_def flaky_ws_read_def split: list.splits option.splits)
qed (auto simp: flaky_ws_lib_def flaky_ws_write_def io_safe_def split: nat.splits)

section \<open>Properties\<close>

text \<open>C29: over WebSocket, \<^verbatim>\<open>read_exactly\<close> returns the next \<open>n\<close> bytes of the
  concatenated payloads and keeps the rest for later, wherever the message boundaries are; it ends
  whenever the pending messages hold enough bytes.\<close>

theorem ws_read_exactly_ignores_boundaries:
  assumes "message_stream lib inbox outbox mode up" "up w" "list_all fst (inbox w)"
    and "n \<le> length (b @ concat (map snd (inbox w)))"
  shows "\<exists>c'. WsConnection_read_exactly lib n \<lparr>ws_stream = w, ws_buffer = b\<rparr>
      = Some (Inr (take n (b @ concat (map snd (inbox w)))), c') \<and>
    ws_buffer c' @ concat (map snd (inbox (ws_stream c'))) = drop n (b @ concat (map snd (inbox w)))"
  using message_stream.ws_read_exactly_enough [OF assms(1), unfolded message_ports.ws_incoming_def [OF message_stream.axioms(1) [OF assms(1)]]
      message_ports.ws_live_def [OF message_stream.axioms(1) [OF assms(1)]], of "\<lparr>ws_stream = w, ws_buffer = b\<rparr>" n]
    assms(2,3,4)
  by simp blast

definition sample_frames :: ws_script where
  "sample_frames = \<lparr>wss_in = [(True, [2]), (True, []), (True, [3, 4, 5])], wss_out = [], wss_mode = False\<rparr>"

theorem ws_read_exactly_ignores_boundaries_witness:
  "\<exists>c'. WsConnection_read_exactly ws_script_lib 3 \<lparr>ws_stream = sample_frames, ws_buffer = [1]\<rparr>
      = Some (Inr [1, 2, 3], c') \<and>
    ws_buffer c' @ concat (map snd (wss_in (ws_stream c'))) = [4, 5]"
  using ws_read_exactly_ignores_boundaries [OF scripted_ws.message_stream_axioms, of sample_frames 3 "[1]"]
  by (simp add: sample_frames_def)

text \<open>The TLS class sends every write as one binary message, whatever the stream's mode was; the
  plain class leaves the mode alone, and a reader of either class refuses a message that is not binary.\<close>

theorem ws_frame_modes:
  assumes "message_stream lib inbox outbox mode up" "up w"
  shows "(\<exists>c'. WssConnection_write lib d \<lparr>ws_stream = w, ws_buffer = b\<rparr> = Some (Inr (), c') \<and>
           outbox (ws_stream c') = outbox w @ [(True, d)]) \<and>
         (\<exists>c'. WsConnection_write lib d \<lparr>ws_stream = w, ws_buffer = b\<rparr> = Some (Inr (), c') \<and>
           outbox (ws_stream c') = outbox w @ [(mode w, d)]) \<and>
         (inbox w = (False, d) # ms \<longrightarrow>
           (\<exists>c'. WssConnection_read lib n \<lparr>ws_stream = w, ws_buffer = []\<rparr>
             = Some (throw_error ''ws only accept binary'', c')))"
  using message_stream.send_frames [OF assms, of d b] message_stream.read_text_frame [OF assms, of d ms n]
  by (simp add: WssConnection_reads_like_Ws)

theorem ws_frame_modes_witness:
  "\<exists>c'. WsConnection_write ws_script_lib [7] \<lparr>ws_stream = sample_frames, ws_buffer = []\<rparr> = Some (Inr (), c') \<and>
     wss_out (ws_stream c') = [(False, [7])]"
  using ws_frame_modes [OF scripted_ws.message_stream_axioms, where w = sample_frames and d = "[7]" and b = "[]"]
  by (simp add: sample_frames_def)

end
