(* ===== verification/Conn_Object.thy ===== *)
theory Conn_Object
  imports Ws_Connection
begin

text \<open>
  A connection behind \<^verbatim>\<open>std::unique_ptr<Connection>\<close>: an object of one of the four classes, and the virtual
  functions of \<^verbatim>\<open>connections/connection.hpp\<close>, which call those of its class. \<open>'s\<close> is the state of a TCP or TLS
  stream, \<open>'w\<close> that of a WebSocket stream. If the library keeps the contract of each layer, the object keeps that of a
  connection, whichever class it has.
\<close>

section \<open>Objects and virtual calls\<close>

datatype ('s, 'w) conn_object =
    Tcp_Conn 's
  | Tls_Conn 's
  | Ws_Conn "'w ws_connection"
  | Wss_Conn "'w ws_connection"

record ('s, 'w) conn_lib =
  cl_tcp :: "'s stream_lib"
  cl_tls :: "'s ssl_stream_lib"
  cl_ws :: "'w ws_lib"
  cl_wss :: "'w ws_lib"

text \<open>The constructors of the WebSocket classes: nothing is buffered yet.\<close>

definition WsConnection_new :: "'w \<Rightarrow> 'w ws_connection" where
  "WsConnection_new ws = \<lparr>ws_stream = ws, ws_buffer = []\<rparr>"

definition WssConnection_new :: "'w \<Rightarrow> 'w ws_connection" where
  "WssConnection_new ws = \<lparr>ws_stream = ws, ws_buffer = []\<rparr>"

text \<open>A call that leaves the object in its class.\<close>

definition io_in :: "('p \<Rightarrow> 'o) \<Rightarrow> ('p, 'a) io \<Rightarrow> 'p \<Rightarrow> ('a result \<times> 'o) option" where
  "io_in obj m p = (case m p of None \<Rightarrow> None | Some (r, p') \<Rightarrow> Some (r, obj p'))"

fun Connection_read :: "('s, 'w) conn_lib \<Rightarrow> nat \<Rightarrow> (('s, 'w) conn_object, bytes) io" where
  "Connection_read L n (Tcp_Conn s) = io_in Tcp_Conn (conn_read (TcpConnection (cl_tcp L)) n) s"
| "Connection_read L n (Tls_Conn s) = io_in Tls_Conn (conn_read (TlsConnection (cl_tls L)) n) s"
| "Connection_read L n (Ws_Conn c) = io_in Ws_Conn (conn_read (WsConnection (cl_ws L)) n) c"
| "Connection_read L n (Wss_Conn c) = io_in Wss_Conn (conn_read (WssConnection (cl_wss L)) n) c"

fun Connection_read_exactly :: "('s, 'w) conn_lib \<Rightarrow> nat \<Rightarrow> (('s, 'w) conn_object, bytes) io" where
  "Connection_read_exactly L n (Tcp_Conn s) = io_in Tcp_Conn (conn_read_exactly (TcpConnection (cl_tcp L)) n) s"
| "Connection_read_exactly L n (Tls_Conn s) = io_in Tls_Conn (conn_read_exactly (TlsConnection (cl_tls L)) n) s"
| "Connection_read_exactly L n (Ws_Conn c) = io_in Ws_Conn (conn_read_exactly (WsConnection (cl_ws L)) n) c"
| "Connection_read_exactly L n (Wss_Conn c) = io_in Wss_Conn (conn_read_exactly (WssConnection (cl_wss L)) n) c"

fun Connection_write :: "('s, 'w) conn_lib \<Rightarrow> bytes \<Rightarrow> (('s, 'w) conn_object, unit) io" where
  "Connection_write L d (Tcp_Conn s) = io_in Tcp_Conn (conn_write (TcpConnection (cl_tcp L)) d) s"
| "Connection_write L d (Tls_Conn s) = io_in Tls_Conn (conn_write (TlsConnection (cl_tls L)) d) s"
| "Connection_write L d (Ws_Conn c) = io_in Ws_Conn (conn_write (WsConnection (cl_ws L)) d) c"
| "Connection_write L d (Wss_Conn c) = io_in Wss_Conn (conn_write (WssConnection (cl_wss L)) d) c"

fun Connection_close :: "('s, 'w) conn_lib \<Rightarrow> (('s, 'w) conn_object, unit) io" where
  "Connection_close L (Tcp_Conn s) = io_in Tcp_Conn (conn_close (TcpConnection (cl_tcp L))) s"
| "Connection_close L (Tls_Conn s) = io_in Tls_Conn (conn_close (TlsConnection (cl_tls L))) s"
| "Connection_close L (Ws_Conn c) = io_in Ws_Conn (conn_close (WsConnection (cl_ws L))) c"
| "Connection_close L (Wss_Conn c) = io_in Wss_Conn (conn_close (WssConnection (cl_wss L))) c"

definition Object_connection :: "('s, 'w) conn_lib \<Rightarrow> ('s, 'w) conn_object connection" where
  "Object_connection L =
     \<lparr>conn_read = Connection_read L, conn_read_exactly = Connection_read_exactly L,
      conn_write = Connection_write L, conn_close = Connection_close L\<rparr>"

lemma Object_connection_simps [simp]:
  "conn_read (Object_connection L) = Connection_read L"
  "conn_read_exactly (Object_connection L) = Connection_read_exactly L"
  "conn_write (Object_connection L) = Connection_write L"
  "conn_close (Object_connection L) = Connection_close L"
  by (simp_all add: Object_connection_def)

lemma io_in_eq_Some: "io_in obj m p = Some (r, x) \<longleftrightarrow> (\<exists>p'. m p = Some (r, p') \<and> x = obj p')"
  by (auto simp: io_in_def split: option.splits)

section \<open>The contract of the library's layers\<close>

text \<open>\<open>avail\<close>, \<open>sent\<close>, \<open>up\<close> view a byte stream, \<open>inbox\<close> to \<open>ready\<close> a message stream.\<close>

fun object_incoming ::
  "('s \<Rightarrow> bytes) \<Rightarrow> ('w \<Rightarrow> (bool \<times> bytes) list) \<Rightarrow> ('s, 'w) conn_object \<Rightarrow> bytes" where
  "object_incoming avail inbox (Tcp_Conn s) = avail s"
| "object_incoming avail inbox (Tls_Conn s) = avail s"
| "object_incoming avail inbox (Ws_Conn c) = ws_buffer c @ concat (map snd (inbox (ws_stream c)))"
| "object_incoming avail inbox (Wss_Conn c) = ws_buffer c @ concat (map snd (inbox (ws_stream c)))"

fun object_outgoing ::
  "('s \<Rightarrow> bytes) \<Rightarrow> ('w \<Rightarrow> (bool \<times> bytes) list) \<Rightarrow> ('s, 'w) conn_object \<Rightarrow> bytes" where
  "object_outgoing sent outbox (Tcp_Conn s) = sent s"
| "object_outgoing sent outbox (Tls_Conn s) = sent s"
| "object_outgoing sent outbox (Ws_Conn c) = concat (map snd (outbox (ws_stream c)))"
| "object_outgoing sent outbox (Wss_Conn c) = concat (map snd (outbox (ws_stream c)))"

fun object_live :: "('s \<Rightarrow> bool) \<Rightarrow> ('w \<Rightarrow> bool) \<Rightarrow> ('s, 'w) conn_object \<Rightarrow> bool" where
  "object_live up ready (Tcp_Conn s) = up s"
| "object_live up ready (Tls_Conn s) = up s"
| "object_live up ready (Ws_Conn c) = ready (ws_stream c)"
| "object_live up ready (Wss_Conn c) = ready (ws_stream c)"

locale safe_library =
  tcp: sized_stream "cl_tcp L" + tls: sized_ssl_stream "cl_tls L" +
  ws: message_ports "cl_ws L" inbox outbox mode ready + wss: message_ports "cl_wss L" inbox outbox mode ready
  for L :: "('s, 'w) conn_lib" and inbox outbox mode ready
begin

lemmas object_safe =
  tcp.tcp_exact.read_safe [THEN io_safeD] tcp.tcp_exact.read_exactly_safe [THEN io_safeD]
  tcp.tcp_exact.write_safe [THEN io_safeD] tcp.tcp_exact.close_safe [THEN io_safeD]
  tls.tls_exact.read_safe [THEN io_safeD] tls.tls_exact.read_exactly_safe [THEN io_safeD]
  tls.tls_exact.write_safe [THEN io_safeD] tls.tls_exact.close_safe [THEN io_safeD]
  ws.ws_exact.read_safe [THEN io_safeD] ws.ws_exact.read_exactly_safe [THEN io_safeD]
  ws.ws_exact.write_safe [THEN io_safeD] ws.ws_exact.close_safe [THEN io_safeD]
  wss.wss_exact.read_safe [THEN io_safeD] wss.wss_exact.read_exactly_safe [THEN io_safeD]
  wss.wss_exact.write_safe [THEN io_safeD] wss.wss_exact.close_safe [THEN io_safeD]

lemmas object_exact = tcp.tcp_exact.exact tls.tls_exact.exact ws.ws_exact.exact wss.wss_exact.exact

lemma object_calls_safe:
  "io_safe (Connection_read L n)" "io_safe (Connection_read_exactly L n)" "io_safe (Connection_write L d)"
  "io_safe (Connection_close L)"
  by (rule io_safeI, rename_tac s r s', case_tac s; auto simp: io_in_eq_Some dest: object_safe)+

lemma object_reads_exactly: "Connection_read_exactly L n c = Some (Inr d, c') \<Longrightarrow> length d = n"
  by (cases c) (auto simp: io_in_eq_Some dest: object_exact)

end

sublocale safe_library \<subseteq> object_exact: exact_reader "Object_connection L"
  by (unfold_locales, unfold Object_connection_simps) (rule object_calls_safe object_reads_exactly; assumption)+

locale honest_library =
  tcp: honest_stream "cl_tcp L" avail sent up + tls: honest_ssl_stream "cl_tls L" avail sent up +
  ws: honest_messages "cl_ws L" inbox outbox mode ready + wss: honest_messages "cl_wss L" inbox outbox mode ready
  for L :: "('s, 'w) conn_lib" and avail sent up inbox outbox mode ready

sublocale honest_library \<subseteq> safe_library L inbox outbox mode ready
  by unfold_locales

context honest_library
begin

text \<open>With the call as the first premise, which tells the classes apart.\<close>

lemmas object_read_exactly_done =
  tcp.tcp_honest.read_exactly_done [rotated] tls.tls_honest.read_exactly_done [rotated]
  ws.ws_honest.read_exactly_done [rotated] wss.wss_honest.read_exactly_done [rotated]

lemmas object_read_done =
  tcp.tcp_honest.read_done [rotated 2] tls.tls_honest.read_done [rotated 2]
  ws.ws_honest.read_done [rotated 2] wss.wss_honest.read_done [rotated 2]

lemmas object_write_done =
  tcp.tcp_honest.write_done [rotated] tls.tls_honest.write_done [rotated]
  ws.ws_honest.write_done [rotated] wss.wss_honest.write_done [rotated]

lemmas object_read_failed =
  tcp.tcp_honest.read_failed [rotated] tls.tls_honest.read_failed [rotated]
  ws.ws_honest.read_failed [rotated] wss.wss_honest.read_failed [rotated]

lemmas object_write_failed =
  tcp.tcp_honest.write_failed [rotated] tls.tls_honest.write_failed [rotated]
  ws.ws_honest.write_failed [rotated] wss.wss_honest.write_failed [rotated]

lemmas object_views = ws.ws_incoming_def ws.ws_outgoing_def ws.ws_up_def

end

sublocale honest_library \<subseteq> object: honest_peer "Object_connection L" "object_incoming avail inbox"
    "object_outgoing sent outbox" "object_live up ready"
proof
  fix c c' :: "('s, 'w) conn_object" and n d f
  assume live: "object_live up ready c"
  show "object_incoming avail inbox c = d @ object_incoming avail inbox c' \<and>
      object_outgoing sent outbox c' = object_outgoing sent outbox c \<and> object_live up ready c'"
    if "conn_read_exactly (Object_connection L) n c = Some (Inr d, c')"
    by (insert that live, (cases c; clarsimp simp: io_in_eq_Some; drule object_read_exactly_done; simp add: object_views))
  show "object_incoming avail inbox c = d @ object_incoming avail inbox c' \<and>
      object_outgoing sent outbox c' = object_outgoing sent outbox c \<and> object_live up ready c'"
    if "0 < n" "conn_read (Object_connection L) n c = Some (Inr d, c')"
    by (insert that live, (cases c; clarsimp simp: io_in_eq_Some; drule object_read_done; simp add: object_views))
  show "object_incoming avail inbox c' = object_incoming avail inbox c \<and>
      object_outgoing sent outbox c' = object_outgoing sent outbox c @ d \<and> object_live up ready c'"
    if "conn_write (Object_connection L) d c = Some (Inr (), c')"
    by (insert that live, (cases c; clarsimp simp: io_in_eq_Some; drule object_write_done; simp add: object_views))
  show "suffix (object_incoming avail inbox c') (object_incoming avail inbox c) \<and>
      object_outgoing sent outbox c' = object_outgoing sent outbox c \<and> object_live up ready c'"
    if "conn_read (Object_connection L) n c = Some (Inl f, c')"
    by (insert that live, (cases c; clarsimp simp: io_in_eq_Some; drule object_read_failed; simp add: object_views))
  show "object_incoming avail inbox c' = object_incoming avail inbox c \<and>
      (\<exists>d'. prefix d' d \<and> object_outgoing sent outbox c' = object_outgoing sent outbox c @ d') \<and> object_live up ready c'"
    if "conn_write (Object_connection L) d c = Some (Inl f, c')"
    by (insert that live, (cases c; clarsimp simp: io_in_eq_Some; drule object_write_failed; simp add: object_views))
qed

text \<open>The breaking peers of all layers as one library.\<close>

definition flaky_conn_lib :: "(flaky, flaky_ws) conn_lib" where
  "flaky_conn_lib =
     \<lparr>cl_tcp = stream_lib.truncate flaky_lib, cl_tls = flaky_lib, cl_ws = flaky_ws_lib, cl_wss = flaky_ws_lib\<rparr>"

interpretation broken_library: honest_library flaky_conn_lib "\<lambda>s. until_reset (flaky_in s)" flaky_out "\<lambda>s. True"
    "\<lambda>s. messages_until (fws_in s)" fws_out fws_mode "\<lambda>s. True"
proof (rule honest_library.intro, unfold flaky_conn_lib_def conn_lib.simps)
  have fields: "lib_read_some (stream_lib.truncate flaky_lib) = lib_read_some flaky_lib"
    "lib_read_full (stream_lib.truncate flaky_lib) = lib_read_full flaky_lib"
    "lib_write_all (stream_lib.truncate flaky_lib) = lib_write_all flaky_lib"
    "lib_close (stream_lib.truncate flaky_lib) = lib_close flaky_lib"
    by (simp_all add: stream_lib.truncate_def)
  show "honest_stream (stream_lib.truncate flaky_lib) (\<lambda>s. until_reset (flaky_in s)) flaky_out (\<lambda>s. True)"
    using broken.honest_stream_axioms
    unfolding honest_stream_def honest_stream_axioms_def sized_stream_def fields .
  show "honest_ssl_stream flaky_lib (\<lambda>s. until_reset (flaky_in s)) flaky_out (\<lambda>s. True)"
    by (rule broken.honest_ssl_stream_axioms)
qed (rule broken_ws.honest_messages_axioms)+

end
