(* ===== verification/Transport.thy ===== *)
theory Transport
  imports Tls_Context Address Conn_Object
begin

text \<open>
  \<^verbatim>\<open>transports/*\<close>: how an outbound reaches its server: plain TCP, TLS, or a
  WebSocket over TLS. The sockets and the handshakes are the library's: a record of its
  operations over its stream state. Both TLS classes own a context, which they set to verify nothing;
  the \<^verbatim>\<open>insecure\<close> flag they are built with is stored and not read.
\<close>

record tls_transport =
  tls_serverName :: string
  tls_insecure :: bool
  tls_ctx :: tls_context

record wss_transport =
  wss_host :: string
  wss_path :: string
  wss_serverName :: string
  wss_insecure :: bool
  wss_ctx :: tls_context

definition TlsTransport_new :: "string \<Rightarrow> bool \<Rightarrow> tls_transport" where
  "TlsTransport_new serverName insecure =
     (let ctx = tls_client_context;
          ctx = ctx\<lparr>ctx_verify := Verify_None\<rparr>;
          ctx = ctx\<lparr>ctx_default_paths := True\<rparr>
      in \<lparr>tls_serverName = serverName, tls_insecure = insecure, tls_ctx = ctx\<rparr>)"

definition WssTransport_new :: "string \<Rightarrow> string \<Rightarrow> string \<Rightarrow> bool \<Rightarrow> wss_transport" where
  "WssTransport_new host path serverName insecure =
     (let ctx = tls_client_context;
          ctx = ctx\<lparr>ctx_verify := Verify_None\<rparr>;
          ctx = ctx\<lparr>ctx_default_paths := True\<rparr>
      in \<lparr>wss_host = host, wss_path = path, wss_serverName = serverName, wss_insecure = insecure, wss_ctx = ctx\<rparr>)"

datatype transport = Tcp_Transport | Tls_Transport tls_transport | Wss_Transport wss_transport

text \<open>\<^verbatim>\<open>dial\<close> is \<^verbatim>\<open>connect_address\<close> of \<^verbatim>\<open>Tcp_Client\<close>; a WebSocket stream is laid over a TLS one.\<close>

record ('s, 'w) client_lib =
  dial :: "address \<Rightarrow> 's awaited"
  set_hostname :: "string \<Rightarrow> 's \<Rightarrow> 's option"
  tls_handshake :: "tls_context \<Rightarrow> 's \<Rightarrow> 's awaited"
  ws_over :: "'s \<Rightarrow> 'w"
  ws_handshake :: "string \<Rightarrow> string \<Rightarrow> 'w \<Rightarrow> 'w awaited"

definition TcpTransport_connect :: "('s, 'w) client_lib \<Rightarrow> address \<Rightarrow> ('s, 'w) conn_object awaited" where
  "TcpTransport_connect lib a = async_bind (dial lib a) (\<lambda>s. Some (Inr (Tcp_Conn s)))"

definition TlsTransport_connect :: "('s, 'w) client_lib \<Rightarrow> tls_transport \<Rightarrow> address \<Rightarrow> ('s, 'w) conn_object awaited" where
  "TlsTransport_connect lib t a =
     async_bind (dial lib a) (\<lambda>s.
       case set_hostname lib (tls_serverName t) s of
         None \<Rightarrow> Some (throw_error ''fail to set tls hostname'')
       | Some s \<Rightarrow> async_bind (tls_handshake lib (tls_ctx t) s) (\<lambda>s. Some (Inr (Tls_Conn s))))"

definition WssTransport_connect :: "('s, 'w) client_lib \<Rightarrow> wss_transport \<Rightarrow> address \<Rightarrow> ('s, 'w) conn_object awaited" where
  "WssTransport_connect lib t a =
     async_bind (dial lib a) (\<lambda>s.
       case set_hostname lib (wss_serverName t) s of
         None \<Rightarrow> Some (throw_error ''fail to set tls hostname'')
       | Some s \<Rightarrow>
           async_bind (tls_handshake lib (wss_ctx t) s) (\<lambda>s.
           async_bind (ws_handshake lib (wss_host t) (wss_path t) (ws_over lib s)) (\<lambda>ws.
           Some (Inr (Wss_Conn (WssConnection_new ws))))))"

text \<open>The virtual \<^verbatim>\<open>Transport::connect\<close>.\<close>

fun Transport_connect :: "('s, 'w) client_lib \<Rightarrow> transport \<Rightarrow> address \<Rightarrow> ('s, 'w) conn_object awaited" where
  "Transport_connect lib Tcp_Transport a = TcpTransport_connect lib a"
| "Transport_connect lib (Tls_Transport t) a = TlsTransport_connect lib t a"
| "Transport_connect lib (Wss_Transport t) a = WssTransport_connect lib t a"

text \<open>The contexts the constructors set up.\<close>

lemma transport_contexts:
  "tls_ctx (TlsTransport_new sn ins) = \<lparr>ctx_verify = Verify_None, ctx_default_paths = True\<rparr>"
  "wss_ctx (WssTransport_new h p sn ins) = \<lparr>ctx_verify = Verify_None, ctx_default_paths = True\<rparr>"
  by (simp_all add: TlsTransport_new_def WssTransport_new_def tls_client_context_def)

section \<open>Properties\<close>

text \<open>No transport verifies its peer: whatever \<^verbatim>\<open>insecure\<close> is configured to be, the
  connection is made in the same way, with a handshake whose context verifies nothing.\<close>

theorem transports_never_verify:
  "Transport_connect lib (Tls_Transport (TlsTransport_new sn ins)) a =
     Transport_connect (lib\<lparr>tls_handshake := (\<lambda>ctx. tls_handshake lib (ctx\<lparr>ctx_verify := Verify_None\<rparr>))\<rparr>)
       (Tls_Transport (TlsTransport_new sn (\<not> ins))) a \<and>
   Transport_connect lib (Wss_Transport (WssTransport_new h p sn ins)) a =
     Transport_connect (lib\<lparr>tls_handshake := (\<lambda>ctx. tls_handshake lib (ctx\<lparr>ctx_verify := Verify_None\<rparr>))\<rparr>)
       (Wss_Transport (WssTransport_new h p sn (\<not> ins))) a"
  by (simp add: TlsTransport_connect_def WssTransport_connect_def TlsTransport_new_def WssTransport_new_def
      tls_client_context_def Let_def cong: option.case_cong)

text \<open>A TLS connection is returned exactly when the address was reached, the host name set before
  the handshake and the handshake done; a WebSocket one when its own handshake, for the configured host and
  path, followed; every failure on the way is passed on and nothing later is tried.\<close>

theorem transport_stages:
  "(Transport_connect lib (Tls_Transport t) a = Some (Inr c) \<longleftrightarrow>
     (\<exists>s s1 s2. dial lib a = Some (Inr s) \<and> set_hostname lib (tls_serverName t) s = Some s1 \<and>
        tls_handshake lib (tls_ctx t) s1 = Some (Inr s2) \<and> c = Tls_Conn s2)) \<and>
   (Transport_connect lib (Wss_Transport w) a = Some (Inr c) \<longleftrightarrow>
     (\<exists>s s1 s2 ws. dial lib a = Some (Inr s) \<and> set_hostname lib (wss_serverName w) s = Some s1 \<and>
        tls_handshake lib (wss_ctx w) s1 = Some (Inr s2) \<and> ws_handshake lib (wss_host w) (wss_path w) (ws_over lib s2) = Some (Inr ws) \<and>
        c = Wss_Conn \<lparr>ws_stream = ws, ws_buffer = []\<rparr>))"
  by (auto simp: TlsTransport_connect_def WssTransport_connect_def WssConnection_new_def async_bind_eq_Inr split: option.splits)

end
