(* ===== verification/Socks5.thy ===== *)
theory Socks5
  imports Connection Address Bytes
begin

text \<open>
  The SOCKS5 half of \<^verbatim>\<open>inbounds/mixed.cpp\<close>: \<^verbatim>\<open>handleSocks5_\<close>, cut at the
  end of the method negotiation. The handler runs on its own connection; what it hands to
  \<^verbatim>\<open>sessions_.put\<close> is its result. The grammar of a request (\<open>socks_request\<close>) is
  what an accepted session is compared with.
\<close>

section \<open>The handler\<close>

datatype handled = Accepted address bytes | Dropped

definition socks5_auth :: "'c connection \<Rightarrow> user_pass list \<Rightarrow> bytes \<Rightarrow> ('c, bool) io" where
  "socks5_auth con users data =
     (if users = [] then
        (if 0 \<in> set data then io_bind (conn_write con [5, 0]) (\<lambda>_. io_return True)
         else io_bind (conn_write con [5, 0xff]) (\<lambda>_. io_bind (conn_close con) (\<lambda>_. io_return False)))
      else
        io_bind (conn_write con [5, 2]) (\<lambda>_.
        io_bind (conn_read_exactly con 2) (\<lambda>data.
        io_bind (io_lift (vec_at data 0)) (\<lambda>d0.
        if d0 \<noteq> 1 then io_throw ''fail to auth'' else
        io_bind (io_lift (vec_at data 1)) (\<lambda>ulen.
        io_bind (conn_read_exactly con (unat ulen)) (\<lambda>data.
        let name = string_of_bytes data in
        io_bind (conn_read_exactly con 1) (\<lambda>data.
        io_bind (io_lift (vec_at data 1)) (\<lambda>plen.
        io_bind (conn_read_exactly con (unat plen)) (\<lambda>data.
        let passwd = string_of_bytes data in
        if \<lparr>username = name, password = passwd\<rparr> \<in> set users
        then io_bind (conn_write con [1, 0]) (\<lambda>_. io_return True)
        else io_bind (conn_write con [1, 1]) (\<lambda>_.
             io_bind (conn_close con) (\<lambda>_. io_return False)))))))))))"

definition socks5_address :: "'c connection \<Rightarrow> u8 \<Rightarrow> ('c, host) io" where
  "socks5_address con atyp =
     (if atyp = 1 then
        io_bind (conn_read_exactly con 4) (\<lambda>data.
        io_bind (io_lift (vec_at data 0)) (\<lambda>d0. io_bind (io_lift (vec_at data 1)) (\<lambda>d1.
        io_bind (io_lift (vec_at data 2)) (\<lambda>d2. io_bind (io_lift (vec_at data 3)) (\<lambda>d3.
        io_return (Ip (IpV4 d0 d1 d2 d3)))))))
      else if atyp = 3 then
        io_bind (conn_read_exactly con 1) (\<lambda>data.
        io_bind (io_lift (vec_at data 0)) (\<lambda>len.
        io_bind (conn_read_exactly con (unat len)) (\<lambda>data.
        io_return (Domain (string_of_bytes data)))))
      else if atyp = 4 then
        io_bind (conn_read_exactly con 16) (\<lambda>data.
        io_bind (io_lift (map_res (vec_at data) [0..<16])) (\<lambda>bs.
        io_return (Ip (IpV6 bs))))
      else io_throw ''atyp error'')"

definition socks5_request :: "'c connection \<Rightarrow> ('c, handled) io" where
  "socks5_request con =
     io_bind (conn_read_exactly con 4) (\<lambda>data.
     io_bind (io_lift (vec_at data 0)) (\<lambda>version.
     if version \<noteq> 5 then io_throw ''socks5 version error'' else
     io_bind (io_lift (vec_at data 1)) (\<lambda>cmd.
     if cmd \<noteq> 1 then io_throw ''cmd error'' else
     io_bind (io_lift (vec_at data 3)) (\<lambda>atyp.
     io_bind (socks5_address con atyp) (\<lambda>h.
     io_bind (conn_read_exactly con 2) (\<lambda>data.
     io_bind (io_lift (read_u16 data 0)) (\<lambda>port.
     let address = \<lparr>addr_host = h, addr_port = port\<rparr> in
     io_bind (conn_write con [5, 0, 0, 1, 0, 0, 0, 0, 0, 0]) (\<lambda>_.
     io_bind (conn_read con 4096) (\<lambda>data.
     io_return (Accepted address data))))))))))"

definition handleSocks5 :: "'c connection \<Rightarrow> user_pass list \<Rightarrow> ('c, handled) io" where
  "handleSocks5 con users =
     io_bind (conn_read_exactly con 1) (\<lambda>data.
     io_bind (io_lift (vec_at data 0)) (\<lambda>nmethods.
     io_bind (conn_read_exactly con (unat nmethods)) (\<lambda>data.
     io_bind (socks5_auth con users data) (\<lambda>go_on.
     if \<not> go_on then io_return Dropped else socks5_request con))))"

section \<open>The protocol\<close>

text \<open>RFC 1928: the client's greeting behind the version byte, and a CONNECT request.\<close>

fun socks_host :: "host \<Rightarrow> bytes" where
  "socks_host (Domain d) = 3 # of_nat (length d) # bytes_of_string d"
| "socks_host (Ip (IpV4 a b c d)) = [1, a, b, c, d]"
| "socks_host (Ip (IpV6 bs)) = 4 # bs"

fun wf_socks_host :: "host \<Rightarrow> bool" where
  "wf_socks_host (Domain d) = (length d < 256)"
| "wf_socks_host (Ip v) = wf_ip v"

definition socks_greeting :: "bytes \<Rightarrow> bytes" where
  "socks_greeting methods = of_nat (length methods) # methods"

definition socks_request :: "u8 \<Rightarrow> address \<Rightarrow> bytes" where
  "socks_request rsv a = [5, 1, rsv] @ socks_host (addr_host a) @ be16 (addr_port a)"

definition socks_reply :: bytes where
  "socks_reply = [5, 0, 0, 1, 0, 0, 0, 0, 0, 0]"

section \<open>Safety without users\<close>

lemma map_res_vec_at: "length bs = n \<Longrightarrow> map_res (vec_at bs) [0..<n] = Inr bs"
proof -
  assume "length bs = n"
  then have "map_res (vec_at bs) [0..<n] = Inr (map (\<lambda>i. bs ! i) [0..<n])"
    by (intro map_res_total) simp
  also have "map (\<lambda>i. bs ! i) [0..<n] = bs" using \<open>length bs = n\<close> map_nth by blast
  finally show ?thesis .
qed

context exact_reader
begin

lemma safe_after_read:
  assumes "\<And>d. length d = n \<Longrightarrow> io_safe (f d)"
  shows "io_safe (io_bind (conn_read_exactly con n) f)"
  using assms exact by (blast intro: io_safe_bind read_exactly_safe)

lemma safe_at:
  assumes "i < length d" "io_safe (f (d ! i))"
  shows "io_safe (io_bind (io_lift (vec_at d i)) f)"
proof -
  have "io_bind (io_lift (vec_at d i)) f = f (d ! i)"
    using assms(1) by (simp add: fun_eq_iff)
  then show ?thesis using assms(2) by simp
qed

lemma socks5_auth_safe: "io_safe (socks5_auth con [] methods)"
  unfolding socks5_auth_def by (auto intro!: io_safe_bind write_safe close_safe)

lemma socks5_address_safe: "io_safe (socks5_address con atyp)"
  unfolding socks5_address_def
  by (auto simp: map_res_vec_at intro!: safe_after_read safe_at io_safe_bind)

lemma socks5_request_safe: "io_safe (socks5_request con)"
  unfolding socks5_request_def Let_def
  by (intro safe_after_read safe_at)
    (auto simp: read_never_ub intro!: safe_after_read safe_at io_safe_bind socks5_address_safe write_safe read_safe)

lemma handleSocks5_safe: "io_safe (handleSocks5 con [])"
  unfolding handleSocks5_def
  by (auto intro!: safe_after_read safe_at io_safe_bind socks5_auth_safe socks5_request_safe)

text \<open>
  With users configured the password is never read: the length is taken at index 1 of a
  one-byte vector.
\<close>

lemma second_of_one:
  "conn_read_exactly con (Suc 0) c = Some (Inr d, c') \<Longrightarrow> vec_at d (Suc 0) = undefined_behaviour Out_Of_Bounds"
  using exact [of "Suc 0"] by simp

lemma socks5_auth_never:
  assumes "users \<noteq> []" "socks5_auth con users data c = Some (r, c')"
  shows "\<exists>e. r = Inl e"
  using assms unfolding socks5_auth_def
  by (auto simp: io_bind_eq_Some Let_def dest: second_of_one split: if_splits)

lemma handleSocks5_users:
  assumes "users \<noteq> []" "handleSocks5 con users c = Some (r, c')"
  shows "\<exists>e. r = Inl e"
  using assms unfolding handleSocks5_def
  by (auto simp: io_bind_eq_Some dest: socks5_auth_never)

end

section \<open>Accepting requests\<close>

context byte_peer
begin

lemma read_then:
  assumes "live c" "incoming c = d @ rest" "length d = n"
  obtains c' where "conn_read_exactly con n c = Some (Inr d, c')" "incoming c' = rest"
    "outgoing c' = outgoing c" "live c'"
  using read_exactly_prefix [OF assms(1,2)] assms(3) by blast

lemma socks5_address_ok:
  assumes "live c" "wf_socks_host h" "incoming c = tl (socks_host h) @ rest"
  shows "\<exists>c'. socks5_address con (hd (socks_host h)) c = Some (Inr h, c') \<and>
    incoming c' = rest \<and> outgoing c' = outgoing c \<and> live c'"
proof (cases h rule: socks_host.cases)
  case (1 d)
  have "incoming c = [of_nat (length d)] @ (bytes_of_string d @ rest)" using assms(3) 1 by simp
  from read_then [OF assms(1) this, of 1] obtain c1 where
    c1: "conn_read_exactly con 1 c = Some (Inr [of_nat (length d)], c1)"
      "incoming c1 = bytes_of_string d @ rest" "outgoing c1 = outgoing c" "live c1"
    by auto
  from read_then [OF c1(4,2), of "length d"] obtain c2 where
    c2: "conn_read_exactly con (length d) c1 = Some (Inr (bytes_of_string d), c2)"
      "incoming c2 = rest" "outgoing c2 = outgoing c1" "live c2"
    by auto
  have "unat (of_nat (length d) :: u8) = length d" using assms(2) 1 by (simp add: unat_of_nat_u8)
  then show ?thesis using 1 c1 c2 by (simp add: socks5_address_def)
next
  case (2 x y z w)
  have "incoming c = [x, y, z, w] @ rest" using assms(3) 2 by simp
  from read_then [OF assms(1) this, of 4] obtain c1 where
    "conn_read_exactly con 4 c = Some (Inr [x, y, z, w], c1)"
    "incoming c1 = rest" "outgoing c1 = outgoing c" "live c1"
    by auto
  then show ?thesis using 2 by (simp add: socks5_address_def)
next
  case (3 bs)
  then have bs: "length bs = 16" "incoming c = bs @ rest" using assms by simp_all
  from read_then [OF assms(1) bs(2,1)] obtain c1 where
    "conn_read_exactly con 16 c = Some (Inr bs, c1)"
    "incoming c1 = rest" "outgoing c1 = outgoing c" "live c1"
    by auto
  then show ?thesis using 3 bs(1) by (simp add: socks5_address_def map_res_vec_at)
qed

text \<open>The request, up to the read of the first data.\<close>

lemma socks5_request_ok:
  assumes "live c" "wf_socks_host (addr_host a)" "incoming c = socks_request rsv a @ rest"
  shows "\<exists>c'. socks5_request con c = io_bind (conn_read con 4096) (\<lambda>data. io_return (Accepted a data)) c' \<and>
    incoming c' = rest \<and> outgoing c' = outgoing c @ socks_reply \<and> live c'"
proof -
  let ?h = "addr_host a" and ?p = "addr_port a"
  have cons: "socks_host ?h = hd (socks_host ?h) # tl (socks_host ?h)"
    by (cases ?h rule: socks_host.cases) simp_all
  have "incoming c = [5, 1, rsv, hd (socks_host ?h)] @ (tl (socks_host ?h) @ be16 ?p @ rest)"
    using assms(3) by (subst (asm) socks_request_def, subst (asm) cons) simp
  from read_then [OF assms(1) this, of 4] obtain c1 where
    c1: "conn_read_exactly con 4 c = Some (Inr [5, 1, rsv, hd (socks_host ?h)], c1)"
      "incoming c1 = tl (socks_host ?h) @ be16 ?p @ rest" "outgoing c1 = outgoing c" "live c1"
    by auto
  from socks5_address_ok [OF c1(4) assms(2) c1(2)] obtain c2 where
    c2: "socks5_address con (hd (socks_host ?h)) c1 = Some (Inr ?h, c2)"
      "incoming c2 = be16 ?p @ rest" "outgoing c2 = outgoing c1" "live c2"
    by blast
  from read_then [OF c2(4,2), of 2] obtain c3 where
    c3: "conn_read_exactly con 2 c2 = Some (Inr (be16 ?p), c3)"
      "incoming c3 = rest" "outgoing c3 = outgoing c2" "live c3"
    by auto
  from write_obtain [OF c3(4), of socks_reply] obtain c4 where
    c4: "conn_write con socks_reply c3 = Some (Inr (), c4)" "incoming c4 = incoming c3"
      "outgoing c4 = outgoing c3 @ socks_reply" "live c4"
    by blast
  have port: "read_u16 (be16 ?p) 0 = Inr ?p" using read_u16_be16 [of "[]" ?p "[]"] by simp
  have same: "\<lparr>addr_host = ?h, addr_port = ?p\<rparr> = a" by (cases a) simp
  have "socks5_request con c = io_bind (conn_read con 4096) (\<lambda>data. io_return (Accepted a data)) c4"
    using c4(1) [unfolded socks_reply_def]
    by (simp add: socks5_request_def c1(1) c2(1) c3(1) port same Let_def)
  then show ?thesis using c1 c2 c3 c4 by auto
qed

lemma handleSocks5_methods:
  assumes "live c" "length methods < 256" "incoming c = socks_greeting methods @ rest"
  obtains c1 where "handleSocks5 con users c =
      io_bind (socks5_auth con users methods) (\<lambda>go_on. if \<not> go_on then io_return Dropped else socks5_request con) c1"
    "incoming c1 = rest" "outgoing c1 = outgoing c" "live c1"
proof -
  have "incoming c = [of_nat (length methods)] @ (methods @ rest)" using assms(3) by (simp add: socks_greeting_def)
  from read_then [OF assms(1) this, of 1] obtain c1 where
    c1: "conn_read_exactly con 1 c = Some (Inr [of_nat (length methods)], c1)"
      "incoming c1 = methods @ rest" "outgoing c1 = outgoing c" "live c1"
    by auto
  from read_then [OF c1(4,2), of "length methods"] obtain c2 where
    c2: "conn_read_exactly con (length methods) c1 = Some (Inr methods, c2)"
      "incoming c2 = rest" "outgoing c2 = outgoing c1" "live c2"
    by auto
  have len: "unat (of_nat (length methods) :: u8) = length methods"
    by (rule unat_of_nat_u8 [OF assms(2)])
  show ?thesis
  proof (rule that)
    show "handleSocks5 con users c = io_bind (socks5_auth con users methods)
        (\<lambda>go_on. if \<not> go_on then io_return Dropped else socks5_request con) c2"
      using c1(1) c2(1) by (simp add: handleSocks5_def len)
  qed (use c1 c2 in simp_all)
qed

lemma handleSocks5_accepts:
  assumes "live c" "length methods < 256" "0 \<in> set methods" "wf_socks_host (addr_host a)"
    and "incoming c = socks_greeting methods @ socks_request rsv a @ rest"
  shows "\<exists>c'. handleSocks5 con [] c = io_bind (conn_read con 4096) (\<lambda>data. io_return (Accepted a data)) c' \<and>
    incoming c' = rest \<and> outgoing c' = outgoing c @ [5, 0] @ socks_reply \<and> live c'"
proof -
  from handleSocks5_methods [OF assms(1,2,5)] obtain c1 where
    c1: "handleSocks5 con [] c = io_bind (socks5_auth con [] methods)
        (\<lambda>go_on. if \<not> go_on then io_return Dropped else socks5_request con) c1"
      "incoming c1 = socks_request rsv a @ rest" "outgoing c1 = outgoing c" "live c1" .
  from write_obtain [OF c1(4), of "[5, 0]"] obtain c2 where
    c2: "conn_write con [5, 0] c1 = Some (Inr (), c2)" "incoming c2 = incoming c1"
      "outgoing c2 = outgoing c1 @ [5, 0]" "live c2"
    by blast
  from socks5_request_ok [OF c2(4) assms(4)] c1 c2 show ?thesis
    using assms(3) by (auto simp: socks5_auth_def io_bind_assoc)
qed

lemma handleSocks5_refuses:
  assumes "live c" "length methods < 256" "0 \<notin> set methods"
    and "incoming c = socks_greeting methods @ rest"
  shows "\<exists>r c'. handleSocks5 con [] c = Some (r, c') \<and> outgoing c' = outgoing c @ [5, 0xff] \<and>
    (r = Inr Dropped \<or> (\<exists>e. r = Inl e))"
proof -
  from handleSocks5_methods [OF assms(1,2,4)] obtain c1 where
    c1: "handleSocks5 con [] c = io_bind (socks5_auth con [] methods)
        (\<lambda>go_on. if \<not> go_on then io_return Dropped else socks5_request con) c1"
      "incoming c1 = rest" "outgoing c1 = outgoing c" "live c1" .
  from write_obtain [OF c1(4), of "[5, 0xff]"] obtain c2 where
    c2: "conn_write con [5, 0xff] c1 = Some (Inr (), c2)"
      "outgoing c2 = outgoing c1 @ [5, 0xff]" "live c2"
    by blast
  from close_ends [OF c2(3)] obtain r c3 where c3: "conn_close con c2 = Some (r, c3)" "outgoing c3 = outgoing c2"
    by blast
  then show ?thesis
    using c1 c2 assms(3) by (cases r) (auto simp: socks5_auth_def io_bind_assoc)
qed

text \<open>With users configured, a well-formed login runs into the out-of-range index.\<close>

lemma handleSocks5_login_ub:
  assumes "live c" "length methods < 256" "length name < 256" "users \<noteq> []"
    and "incoming c = socks_greeting methods @ [1, of_nat (length name)] @ name @ [x] @ rest"
  shows "\<exists>c'. handleSocks5 con users c = Some (undefined_behaviour Out_Of_Bounds, c') \<and>
    outgoing c' = outgoing c @ [5, 2]"
proof -
  from handleSocks5_methods [OF assms(1,2,5)] obtain c1 where
    c1: "handleSocks5 con users c = io_bind (socks5_auth con users methods)
        (\<lambda>go_on. if \<not> go_on then io_return Dropped else socks5_request con) c1"
      "incoming c1 = [1, of_nat (length name)] @ name @ [x] @ rest" "outgoing c1 = outgoing c" "live c1" .
  from write_obtain [OF c1(4), of "[5, 2]"] obtain c2 where
    c2: "conn_write con [5, 2] c1 = Some (Inr (), c2)" "incoming c2 = incoming c1"
      "outgoing c2 = outgoing c1 @ [5, 2]" "live c2"
    by blast
  from read_then [OF c2(4) c2(2) [unfolded c1(2)], of 2] obtain c3 where
    c3: "conn_read_exactly con 2 c2 = Some (Inr [1, of_nat (length name)], c3)"
      "incoming c3 = name @ [x] @ rest" "outgoing c3 = outgoing c2" "live c3"
    by auto
  from read_then [OF c3(4,2), of "length name"] obtain c4 where
    c4: "conn_read_exactly con (length name) c3 = Some (Inr name, c4)"
      "incoming c4 = [x] @ rest" "outgoing c4 = outgoing c3" "live c4"
    by auto
  from read_then [OF c4(4,2), of 1] obtain c5 where
    c5: "conn_read_exactly con (Suc 0) c4 = Some (Inr [x], c5)" "outgoing c5 = outgoing c4"
    by auto
  have "unat (of_nat (length name) :: u8) = length name" by (rule unat_of_nat_u8 [OF assms(3)])
  then show ?thesis
    using assms(4) c1 c2 c3 c4 c5 by (simp add: socks5_auth_def)
qed

end

section \<open>What was accepted\<close>

context faithful_peer
begin

text \<open>A session is accepted only from such a request.\<close>

lemma read_list:
  assumes "live c" "conn_read_exactly con n c = Some (Inr d, c')"
  shows "incoming c = d @ incoming c' \<and> length d = n \<and> outgoing c' = outgoing c \<and> live c'"
  using read_exactly_inv [OF assms] by simp

lemma list4: "length d = 4 \<Longrightarrow> d = [d ! 0, d ! 1, d ! 2, d ! 3]"
  by (cases d; cases "tl d"; cases "tl (tl d)"; cases "tl (tl (tl d))") auto

lemma socks5_address_sound:
  assumes "live c" "socks5_address con atyp c = Some (Inr h, c')"
  shows "incoming c = tl (socks_host h) @ incoming c' \<and> atyp = hd (socks_host h) \<and> wf_socks_host h \<and>
    outgoing c' = outgoing c \<and> live c'"
proof -
  consider "atyp = 1" | "atyp = 3" | "atyp = 4"
    using assms(2) by (auto simp: socks5_address_def split: if_splits)
  then show ?thesis
  proof cases
    case 1
    then obtain d where d: "conn_read_exactly con 4 c = Some (Inr d, c')"
        "h = Ip (IpV4 (d ! 0) (d ! 1) (d ! 2) (d ! 3))"
      using assms(2) by (auto simp: socks5_address_def vec_at_Inr_iff)
    from read_list [OF assms(1) d(1)] list4 [of d] show ?thesis using d(2) 1 by simp
  next
    case 2
    then obtain l c1 d where d: "conn_read_exactly con 1 c = Some (Inr l, c1)" "0 < length l"
        "conn_read_exactly con (unat (l ! 0)) c1 = Some (Inr d, c')" "h = Domain (string_of_bytes d)"
      using assms(2) by (auto simp: socks5_address_def vec_at_Inr_iff)
    from read_list [OF assms(1) d(1)] have l: "incoming c = l @ incoming c1" "length l = 1"
      "outgoing c1 = outgoing c" "live c1" by simp_all
    from read_list [OF l(4) d(3)] have k: "incoming c1 = d @ incoming c'" "length d = unat (l ! 0)"
      "outgoing c' = outgoing c1" "live c'" by simp_all
    obtain x where x: "l = [x]" using l(2) by (cases l) auto
    with k(2) have "of_nat (length d) = x" "length d < 256" by simp_all
    then show ?thesis using l(1,3) k d(4) 2 x by simp
  next
    case 3
    then obtain d bs where d: "conn_read_exactly con 16 c = Some (Inr d, c')"
        "map_res (vec_at d) [0..<16] = Inr bs" "h = Ip (IpV6 bs)"
      using assms(2) by (auto simp: socks5_address_def)
    from read_list [OF assms(1) d(1)] d(2,3) 3 show ?thesis
      by (simp add: map_res_vec_at)
  qed
qed

lemma socks5_request_sound:
  assumes "live c" "socks5_request con c = Some (Inr (Accepted a d), c')"
  shows "\<exists>rsv. incoming c = socks_request rsv a @ d @ incoming c' \<and> wf_socks_host (addr_host a) \<and>
    outgoing c' = outgoing c @ socks_reply \<and> live c'"
proof -
  from assms(2) obtain h4 c1 h c2 p2 c3 c4 p where st:
    "conn_read_exactly con 4 c = Some (Inr h4, c1)" "h4 ! 0 = 5" "h4 ! 1 = 1"
    "socks5_address con (h4 ! 3) c1 = Some (Inr h, c2)"
    "conn_read_exactly con 2 c2 = Some (Inr p2, c3)" "read_u16 p2 0 = Inr p"
    "conn_write con socks_reply c3 = Some (Inr (), c4)" "conn_read con 4096 c4 = Some (Inr d, c')"
    "a = \<lparr>addr_host = h, addr_port = p\<rparr>"
    by (auto simp: socks5_request_def socks_reply_def vec_at_Inr_iff Let_def split: if_splits)
  from read_list [OF assms(1) st(1)] have r1: "incoming c = h4 @ incoming c1" "length h4 = 4"
    "outgoing c1 = outgoing c" "live c1" by simp_all
  from socks5_address_sound [OF r1(4) st(4)] have r2: "incoming c1 = tl (socks_host h) @ incoming c2"
    "h4 ! 3 = hd (socks_host h)" "wf_socks_host h" "outgoing c2 = outgoing c1" "live c2" by simp_all
  from read_list [OF r2(5) st(5)] have r3: "incoming c2 = p2 @ incoming c3" "length p2 = 2"
    "outgoing c3 = outgoing c2" "live c3" by simp_all
  from write_inv [OF r3(4) st(7)] have r4: "incoming c4 = incoming c3"
    "outgoing c4 = outgoing c3 @ socks_reply" "live c4" by simp_all
  from read_inv [OF r4(3) st(8)] have r5: "incoming c4 = d @ incoming c'" "outgoing c' = outgoing c4" "live c'"
    by simp_all
  have p2: "p2 = be16 p"
  proof -
    obtain x y where "p2 = [x, y]" using r3(2) by (cases p2; cases "tl p2") auto
    with st(6) show ?thesis by (auto simp: read_u16_eq be16_def)
  qed
  have "h4 = [5, 1, h4 ! 2, hd (socks_host h)]" using list4 [OF r1(2)] st(2,3) r2(2) by simp
  moreover have "socks_host h = hd (socks_host h) # tl (socks_host h)" by (cases h rule: socks_host.cases) simp_all
  ultimately have "incoming c = socks_request (h4 ! 2) a @ d @ incoming c'"
    using r1 r2 r3 r4 r5 p2 st(9) unfolding socks_request_def
    by (metis (no_types, lifting) address.select_convs(1,2) append_Cons append_assoc append_Nil)
  then show ?thesis using r2 r3 r4 r5 r1 st(9) by auto
qed

lemma handleSocks5_sound:
  assumes "live c" "handleSocks5 con users c = Some (Inr (Accepted a d), c')"
  shows "users = [] \<and> (\<exists>methods rsv. incoming c = socks_greeting methods @ socks_request rsv a @ d @ incoming c' \<and>
    0 \<in> set methods \<and> length methods < 256 \<and> wf_socks_host (addr_host a) \<and>
    outgoing c' = outgoing c @ [5, 0] @ socks_reply) \<and> live c'"
proof -
  have users: "users = []" using handleSocks5_users assms(2) by blast
  with assms(2) obtain n c1 methods c2 c3 where st:
    "conn_read_exactly con 1 c = Some (Inr n, c1)" "0 < length n"
    "conn_read_exactly con (unat (n ! 0)) c1 = Some (Inr methods, c2)" "0 \<in> set methods"
    "conn_write con [5, 0] c2 = Some (Inr (), c3)" "socks5_request con c3 = Some (Inr (Accepted a d), c')"
    by (auto simp: handleSocks5_def socks5_auth_def vec_at_Inr_iff split: if_splits)
  from read_list [OF assms(1) st(1)] have r1: "incoming c = n @ incoming c1" "length n = 1"
    "outgoing c1 = outgoing c" "live c1" by simp_all
  from read_list [OF r1(4) st(3)] have r2: "incoming c1 = methods @ incoming c2" "length methods = unat (n ! 0)"
    "outgoing c2 = outgoing c1" "live c2" by simp_all
  from write_inv [OF r2(4) st(5)] have r3: "incoming c3 = incoming c2" "outgoing c3 = outgoing c2 @ [5, 0]"
    "live c3" by simp_all
  have "n = [n ! 0]" using r1(2) by (cases n) auto
  moreover have "of_nat (length methods) = n ! 0" using r2(2) by simp
  ultimately have "incoming c = socks_greeting methods @ incoming c3"
    using r1(1) r2(1) r3(1) by (metis append_Cons append_Nil socks_greeting_def)
  moreover obtain rsv where "incoming c3 = socks_request rsv a @ d @ incoming c'"
      "wf_socks_host (addr_host a)" "outgoing c' = outgoing c3 @ socks_reply" "live c'"
    using socks5_request_sound [OF r3(3) st(6)] by blast
  moreover have "length methods < 256" by (simp add: r2(2))
  ultimately show ?thesis
    using users st(4) r1(3) r2(3) r3(2) by (intro conjI exI [of _ methods] exI [of _ rsv]) simp_all
qed

end

section \<open>Properties\<close>

text \<open>C30: without users, on any connection that keeps the contract, every SOCKS5 CONNECT request
  whose greeting offers method 0 is answered and accepted with exactly the requested address, for
  domains, IPv4 and IPv6; the handler then reads the first data from right behind the request.\<close>

theorem socks5_accepts_request:
  assumes "byte_peer con incoming outgoing live pieces" "live c"
    and "length methods < 256" "0 \<in> set methods" "wf_socks_host (addr_host a)"
    and "incoming c = socks_greeting methods @ socks_request rsv a @ rest"
  shows "\<exists>c'. handleSocks5 con [] c = io_bind (conn_read con 4096) (\<lambda>data. io_return (Accepted a data)) c' \<and>
    incoming c' = rest \<and> outgoing c' = outgoing c @ [5, 0] @ socks_reply \<and> live c'"
  by (rule byte_peer.handleSocks5_accepts [OF assms])

definition sample_client :: script where
  "sample_client =
     \<lparr>script_in = [[1], [0, 5, 1], [0, 3, 4, 0x61, 0x2E], [0x69, 0x6F, 1, 0xBB], [0x16, 3, 1]],
      script_out = [], script_eof = True\<rparr>"

definition sample_destination :: address where
  "sample_destination = \<lparr>addr_host = Domain ''a.io'', addr_port = 443\<rparr>"

lemma sample_client_input:
  "script_up sample_client"
  "concat (script_in sample_client) = socks_greeting [0] @ socks_request 0 sample_destination @ [0x16, 3, 1]"
  by (simp_all add: sample_client_def script_up_def socks_greeting_def socks_request_def sample_destination_def
      byte_of_char_def be16_def hi8_def lo8_def)

theorem socks5_accepts_request_witness:
  "\<exists>c'. handleSocks5 (TcpConnection script_lib) [] sample_client =
     io_bind (conn_read (TcpConnection script_lib) 4096) (\<lambda>data. io_return (Accepted sample_destination data)) c' \<and>
     concat (script_in c') = [0x16, 3, 1] \<and> script_out c' = [5, 0] @ socks_reply"
  using socks5_accepts_request [OF scripted.tcp_con.byte_peer_axioms sample_client_input(1) _ _ _
      sample_client_input(2)]
  by (force simp: sample_destination_def sample_client_def)

text \<open>A session is accepted only when no users are configured and the bytes consumed are a
  greeting that offers method 0, a CONNECT request for exactly the accepted address, and the first data;
  the replies written are exactly the two of the protocol.\<close>

theorem socks5_session_sound:
  assumes "faithful_peer con incoming outgoing live" "live c"
    and "handleSocks5 con users c = Some (Inr (Accepted a d), c')"
  shows "users = [] \<and> (\<exists>methods rsv.
      incoming c = socks_greeting methods @ socks_request rsv a @ d @ incoming c' \<and> 0 \<in> set methods \<and>
      length methods < 256 \<and> wf_socks_host (addr_host a) \<and> outgoing c' = outgoing c @ [5, 0] @ socks_reply)"
  using faithful_peer.handleSocks5_sound [OF assms] by blast

lemma run_sample_client:
  "handleSocks5 (TcpConnection script_lib) [] sample_client =
     Some (Inr (Accepted sample_destination [0x16, 3, 1]),
       \<lparr>script_in = [], script_out = [5, 0, 5, 0, 0, 1, 0, 0, 0, 0, 0, 0], script_eof = True\<rparr>)"
  by code_simp

theorem socks5_session_sound_witness:
  "\<exists>methods rsv. concat (script_in sample_client) =
     socks_greeting methods @ socks_request rsv sample_destination @ [0x16, 3, 1]"
  using socks5_session_sound [OF scripted.tcp_con.faithful_peer_axioms sample_client_input(1) run_sample_client]
  by auto

text \<open>A greeting that does not offer method 0 is refused with \<^verbatim>\<open>05 ff\<close>, and no session is
  created.\<close>

theorem socks5_refuses_methods:
  assumes "byte_peer con incoming outgoing live pieces" "live c" "length methods < 256" "0 \<notin> set methods"
    and "incoming c = socks_greeting methods @ rest"
  shows "\<exists>r c'. handleSocks5 con [] c = Some (r, c') \<and> outgoing c' = outgoing c @ [5, 0xff] \<and>
    (r = Inr Dropped \<or> (\<exists>e. r = Inl e))"
  by (rule byte_peer.handleSocks5_refuses [OF assms])

theorem socks5_refuses_methods_witness:
  "\<exists>r c'. handleSocks5 (TcpConnection script_lib) []
      \<lparr>script_in = [[2, 1, 2]], script_out = [], script_eof = True\<rparr> = Some (r, c') \<and> script_out c' = [5, 0xff]"
  using socks5_refuses_methods [OF scripted.tcp_con.byte_peer_axioms,
      of "\<lparr>script_in = [[2, 1, 2]], script_out = [], script_eof = True\<rparr>" "[1, 2]" "[]"]
  by (force simp: script_up_def socks_greeting_def)

text \<open>C40: with users configured no client can log in: whatever it sends, the handler never ends with a
  session or a refusal, and a well-formed login makes it index a one-byte vector at 1.\<close>

theorem socks5_login_impossible:
  assumes "byte_peer con incoming outgoing live pieces" "users \<noteq> []"
  shows "handleSocks5 con users c \<noteq> Some (Inr h, c') \<and>
    (live c \<longrightarrow> length methods < 256 \<longrightarrow> length name < 256 \<longrightarrow>
     incoming c = socks_greeting methods @ [1, of_nat (length name)] @ name @ [x] @ rest \<longrightarrow>
     (\<exists>c'. handleSocks5 con users c = Some (undefined_behaviour Out_Of_Bounds, c')))"
proof (intro conjI impI)
  show "handleSocks5 con users c \<noteq> Some (Inr h, c')"
    using exact_reader.handleSocks5_users [OF byte_peer.axioms(1) [OF assms(1)] assms(2), of c "Inr h" c'] by auto
  show "\<exists>c'. handleSocks5 con users c = Some (undefined_behaviour Out_Of_Bounds, c')"
    if "live c" "length methods < 256" "length name < 256"
      "incoming c = socks_greeting methods @ [1, of_nat (length name)] @ name @ [x] @ rest"
    using byte_peer.handleSocks5_login_ub [OF assms(1) that(1-3) assms(2) that(4)] by blast
qed

theorem socks5_login_impossible_witness:
  "\<exists>c'. handleSocks5 (TcpConnection script_lib) [\<lparr>username = ''u'', password = ''p''\<rparr>]
      \<lparr>script_in = [[1, 2, 1, 1, 0x75, 1, 0x70]], script_out = [], script_eof = True\<rparr>
    = Some (undefined_behaviour Out_Of_Bounds, c')"
proof -
  let ?c = "\<lparr>script_in = [[1, 2, 1, 1, 0x75, 1, 0x70]], script_out = [], script_eof = True\<rparr> :: script"
  have "concat (script_in ?c) = socks_greeting [2] @ [1, of_nat (length [0x75 :: u8])] @ [0x75] @ [1] @ [0x70]"
    by (simp add: socks_greeting_def)
  moreover have "script_up ?c" by (simp add: script_up_def)
  moreover have "[\<lparr>username = ''u'', password = ''p''\<rparr>] \<noteq> []" by simp
  ultimately show ?thesis
    using socks5_login_impossible [OF scripted.tcp_con.byte_peer_axioms, of "[\<lparr>username = ''u'', password = ''p''\<rparr>]"
        ?c _ _ "[2]" "[0x75]" 1 "[0x70]"]
    by simp
qed

end
