(* ===== verification/Http_Inbound.thy ===== *)
theory Http_Inbound
  imports Socks5
begin

text \<open>
  The HTTP half of \<^verbatim>\<open>inbounds/mixed.cpp\<close>: \<^verbatim>\<open>handleHttp_\<close>, cut at its two
  reading loops. The loops end only when the text they look for has arrived. Parsing of
  the target is the URL library's, a parameter (\<open>None\<close> where it reports an error), and
  so is \<^verbatim>\<open>ip::make_address\<close>. \<open>bytes_of_string\<close> and \<open>string_of_bytes\<close> are the
  conversions between \<^verbatim>\<open>std::string\<close> and \<^verbatim>\<open>bytes\<close> by iterator ranges.
\<close>

section \<open>The handler\<close>

record url =
  url_host :: string
  url_port_number :: u16
  url_path :: string

type_synonym parse_url = "string \<Rightarrow> url option"

definition crlf :: string where
  "crlf = [CHR 0x0D, CHR 0x0A]"

definition header_end :: string where
  "header_end = crlf @ crlf"

partial_function (option) http_first_line ::
  "'c connection \<Rightarrow> string \<Rightarrow> 'c \<Rightarrow> ((string \<times> string) result \<times> 'c) option" where
  "http_first_line con buffer c =
     io_bind (conn_read con 4096) (\<lambda>data c'.
       let buffer = buffer @ string_of_bytes data
       in case str_find buffer crlf 0 of
            Some pos \<Rightarrow> Some (Inr (take pos buffer, drop (pos + 2) buffer), c')
          | None \<Rightarrow> http_first_line con buffer c') c"

text \<open>\<^verbatim>\<open>iss >> method >> target >> version\<close>\<close>

definition request_words :: "string \<Rightarrow> string \<times> string \<times> string" where
  "request_words line =
     (let (m, r1) = extract_word line; (t, r2) = extract_word r1; (v, r3) = extract_word r2
      in (m, t, v))"

definition host_of :: "make_address \<Rightarrow> string \<Rightarrow> host" where
  "host_of mk h = (case mk h of None \<Rightarrow> Domain h | Some ip \<Rightarrow> Ip ip)"

partial_function (option) http_skip_headers ::
  "'c connection \<Rightarrow> string \<Rightarrow> 'c \<Rightarrow> (string result \<times> 'c) option" where
  "http_skip_headers con buffer c =
     (case str_find buffer header_end 0 of
        Some pos \<Rightarrow> Some (Inr (drop (pos + 4) buffer), c)
      | None \<Rightarrow>
          io_bind (conn_read con 4096) (\<lambda>data c'.
            http_skip_headers con (buffer @ string_of_bytes data) c') c)"

definition connect_response :: string where
  "connect_response = ''HTTP/1.1 200 Connection Established'' @ header_end"

definition http_connect :: "'c connection \<Rightarrow> address \<Rightarrow> string \<Rightarrow> ('c, handled) io" where
  "http_connect con a buffer =
     (let a = (if addr_port a = 0 then a\<lparr>addr_port := 443\<rparr> else a)
      in io_bind (http_skip_headers con buffer) (\<lambda>buffer.
         io_bind (conn_write con (bytes_of_string connect_response)) (\<lambda>_.
         io_bind (conn_read con 4096) (\<lambda>data.
         io_return (Accepted a data)))))"

definition http_forward :: "'c connection \<Rightarrow> address \<Rightarrow> string \<Rightarrow> string \<Rightarrow> string \<Rightarrow> string \<Rightarrow> ('c, handled) io" where
  "http_forward con a method path version buffer =
     (let a = (if addr_port a = 0 then a\<lparr>addr_port := 80\<rparr> else a);
          firstLine = method @ '' '' @ path @ '' '' @ version @ crlf;
          firstData = bytes_of_string firstLine
      in if buffer = [] then
           io_bind (conn_read con 4096) (\<lambda>data. io_return (Accepted a (firstData @ data)))
         else io_return (Accepted a (firstData @ bytes_of_string buffer)))"

definition handleHttp :: "parse_url \<Rightarrow> make_address \<Rightarrow> 'c connection \<Rightarrow> u8 \<Rightarrow> ('c, handled) io" where
  "handleHttp parse_uri mk con firstByte =
     io_bind (http_first_line con [char_of_byte firstByte]) (\<lambda>(firstLine, buffer).
     let (method, target, version) = request_words firstLine in
     case parse_uri target of
       None \<Rightarrow> io_throw ''invalid url''
     | Some url \<Rightarrow>
         (let a = \<lparr>addr_host = host_of mk (url_host url), addr_port = url_port_number url\<rparr>
          in if method = ''CONNECT'' then http_connect con a buffer
             else http_forward con a method (url_path url) version buffer))"

section \<open>Searching a growing buffer\<close>

lemma find_in_fits: "find_in needle hay = Some i \<Longrightarrow> i + length needle \<le> length hay"
  using find_in_SomeD by fastforce

lemma prefix_of_front:
  "length needle \<le> length xs \<Longrightarrow> prefix needle (xs @ ys) \<Longrightarrow> prefix needle xs"
  by (metis prefix_length_prefix prefixI)

lemma find_in_mono: "find_in needle xs = Some i \<Longrightarrow> find_in needle (xs @ ys) = Some i"
proof (induction xs arbitrary: i)
  case Nil
  then show ?case by (cases ys) (auto split: if_splits)
next
  case (Cons x xs)
  show ?case
  proof (cases "prefix needle (x # xs)")
    case True
    then have "prefix needle ((x # xs) @ ys)" by (rule prefix_prefix)
    with True Cons.prems show ?thesis by simp
  next
    case False
    then obtain j where j: "find_in needle xs = Some j" "i = Suc j" using Cons.prems by auto
    then have "length needle \<le> length (x # xs)" using find_in_fits [OF j(1)] by simp
    with False have "\<not> prefix needle ((x # xs) @ ys)" using prefix_of_front by blast
    with j Cons.IH show ?thesis by simp
  qed
qed

lemma str_find_0: "str_find hay needle 0 = find_in needle hay"
  by (cases "find_in needle hay") (simp_all add: str_find_def)

text \<open>The address of a target, with the default port of its scheme.\<close>

definition with_port :: "u16 \<Rightarrow> address \<Rightarrow> address" where
  "with_port p a = (if addr_port a = 0 then a\<lparr>addr_port := p\<rparr> else a)"

section \<open>What was accepted\<close>

text \<open>A loop that returned has found what it looks for, first in all that arrives, and nothing is lost in between.\<close>

context faithful_peer
begin

lemma http_first_line_sound_some:
  assumes "http_first_line cn buffer c = Some y" "fst y = Inr (line, pre)" "cn = con" "live c"
  shows "\<exists>pos. find_in crlf (buffer @ string_of_bytes (incoming c)) = Some pos \<and>
    line = take pos (buffer @ string_of_bytes (incoming c)) \<and>
    drop (pos + 2) (buffer @ string_of_bytes (incoming c)) = pre @ string_of_bytes (incoming (snd y)) \<and>
    outgoing (snd y) = outgoing c \<and> live (snd y)"
  using assms
proof (induction rule: http_first_line.raw_induct [rotated, consumes 1, case_names step])
  case (step loop cn buffer c y)
  then obtain d c1 where d: "conn_read con 4096 c = Some (Inr d, c1)"
      "(let buffer = buffer @ string_of_bytes d
        in case str_find buffer crlf 0 of
             Some pos \<Rightarrow> Some (Inr (take pos buffer, drop (pos + 2) buffer), c1)
           | None \<Rightarrow> loop con buffer c1) = Some y"
    by (cases y) (auto simp: io_bind_eq_Some)
  let ?b = "buffer @ string_of_bytes d"
  from read_inv [OF step(5) d(1)] have r: "incoming c = d @ incoming c1" "outgoing c1 = outgoing c" "live c1" by simp_all
  have all: "buffer @ string_of_bytes (incoming c) = ?b @ string_of_bytes (incoming c1)" by (simp add: r(1))
  show ?case
  proof (cases "find_in crlf ?b")
    case None
    then have "loop con ?b c1 = Some y" using d(2) by (simp add: str_find_0)
    from step(1) [OF this step(3) refl r(3)] show ?thesis by (simp only: all r(2))
  next
    case (Some pos)
    then have y: "y = (Inr (take pos ?b, drop (pos + 2) ?b), c1)" using d(2) by (simp add: str_find_0 Let_def)
    moreover have "pos + 2 \<le> length ?b" using find_in_fits [OF Some] by (simp add: crlf_def)
    ultimately show ?thesis
      using step(3) r(2,3) find_in_mono [OF Some, of "string_of_bytes (incoming c1)"] unfolding all by simp
  qed
qed

lemma http_skip_headers_sound_some:
  assumes "http_skip_headers cn buffer c = Some y" "fst y = Inr lost" "cn = con" "live c"
  shows "\<exists>pos. find_in header_end (buffer @ string_of_bytes (incoming c)) = Some pos \<and>
    drop (pos + 4) (buffer @ string_of_bytes (incoming c)) = lost @ string_of_bytes (incoming (snd y)) \<and>
    outgoing (snd y) = outgoing c \<and> live (snd y)"
  using assms
proof (induction rule: http_skip_headers.raw_induct [rotated, consumes 1, case_names step])
  case (step loop cn buffer c y)
  show ?case
  proof (cases "find_in header_end buffer")
    case (Some pos)
    then have "y = (Inr (drop (pos + 4) buffer), c)" using step(2) by (simp add: str_find_0)
    moreover have "pos + 4 \<le> length buffer" using find_in_fits [OF Some] by (simp add: header_end_def crlf_def)
    ultimately show ?thesis
      using step(3,5) find_in_mono [OF Some, of "string_of_bytes (incoming c)"] by simp
  next
    case None
    then obtain d c1 where d: "conn_read con 4096 c = Some (Inr d, c1)" "loop con (buffer @ string_of_bytes d) c1 = Some y"
      using step(2,3,4) by (cases y) (auto simp: str_find_0 io_bind_eq_Some)
    from read_inv [OF step(5) d(1)] have r: "incoming c = d @ incoming c1" "outgoing c1 = outgoing c" "live c1" by simp_all
    from step(1) [OF d(2) step(3) refl r(3)] show ?thesis by (simp add: r(1,2))
  qed
qed

lemma http_skip_headers_found:
  "http_skip_headers con buffer c = Some (Inr s, c') \<Longrightarrow> live c \<Longrightarrow>
   find_in header_end (buffer @ string_of_bytes (incoming c)) \<noteq> None"
  by (auto dest: http_skip_headers_sound_some)

lemma http_connect_sound:
  assumes "live c" "http_connect con a pre c = Some (Inr h, c')"
  shows "\<exists>hpos lost d. h = Accepted (with_port 443 a) d \<and>
    find_in header_end (pre @ string_of_bytes (incoming c)) = Some hpos \<and>
    drop (hpos + 4) (pre @ string_of_bytes (incoming c)) = lost @ string_of_bytes (d @ incoming c') \<and>
    outgoing c' = outgoing c @ bytes_of_string connect_response \<and> live c'"
proof -
  from assms(2) obtain lost c1 c2 d where st: "http_skip_headers con pre c = Some (Inr lost, c1)"
    "conn_write con (bytes_of_string connect_response) c1 = Some (Inr (), c2)"
    "conn_read con 4096 c2 = Some (Inr d, c')" "h = Accepted (with_port 443 a) d"
    by (auto simp: http_connect_def with_port_def Let_def)
  from http_skip_headers_sound_some [OF st(1) _ refl assms(1)] obtain hpos where
    r1: "find_in header_end (pre @ string_of_bytes (incoming c)) = Some hpos"
      "drop (hpos + 4) (pre @ string_of_bytes (incoming c)) = lost @ string_of_bytes (incoming c1)"
      "outgoing c1 = outgoing c" "live c1"
    by auto
  from write_inv [OF r1(4) st(2)] have r2: "incoming c2 = incoming c1"
    "outgoing c2 = outgoing c1 @ bytes_of_string connect_response" "live c2" by simp_all
  from read_inv [OF r2(3) st(3)] have r3: "incoming c2 = d @ incoming c'" "outgoing c' = outgoing c2" "live c'" by simp_all
  show ?thesis using st(4) r1 r2 r3 by (intro exI [of _ hpos] exI [of _ lost] exI [of _ d]) simp
qed

lemma http_forward_sound:
  assumes "live c" "http_forward con a m path v pre c = Some (Inr h, c')"
  shows "\<exists>e. h = Accepted (with_port 80 a) (bytes_of_string (m @ '' '' @ path @ '' '' @ v @ crlf) @ e) \<and>
    bytes_of_string pre @ incoming c = e @ incoming c' \<and> outgoing c' = outgoing c \<and> live c'"
proof (cases "pre = []")
  case True
  with assms(2) obtain d where "conn_read con 4096 c = Some (Inr d, c')"
    "h = Accepted (with_port 80 a) (bytes_of_string (m @ '' '' @ path @ '' '' @ v @ crlf) @ d)"
    by (auto simp: http_forward_def with_port_def Let_def)
  with read_inv [OF assms(1) this(1)] True show ?thesis by simp
next
  case False
  with assms show ?thesis by (simp add: http_forward_def with_port_def Let_def)
qed

text \<open>\<open>text\<close> is the whole input from the first byte on, \<open>pos\<close> the end of its first line.\<close>

lemma handleHttp_line_sound:
  fixes fb c
  defines "text \<equiv> char_of_byte fb # string_of_bytes (incoming c)"
  assumes "live c" "handleHttp parse_uri mk con fb c = Some (Inr h, c')"
  shows "\<exists>pos m t v u pre c1. find_in crlf text = Some pos \<and> request_words (take pos text) = (m, t, v) \<and>
    parse_uri t = Some u \<and> drop (pos + 2) text = pre @ string_of_bytes (incoming c1) \<and>
    outgoing c1 = outgoing c \<and> live c1 \<and>
    (let a = \<lparr>addr_host = host_of mk (url_host u), addr_port = url_port_number u\<rparr>
     in if m = ''CONNECT'' then http_connect con a pre else http_forward con a m (url_path u) v pre) c1 = Some (Inr h, c')"
proof -
  from assms(3) obtain line pre c1 where l: "http_first_line con [char_of_byte fb] c = Some (Inr (line, pre), c1)"
    and k: "(let (method, target, version) = request_words line in
      case parse_uri target of
        None \<Rightarrow> io_throw ''invalid url''
      | Some url \<Rightarrow>
          (let a = \<lparr>addr_host = host_of mk (url_host url), addr_port = url_port_number url\<rparr>
           in if method = ''CONNECT'' then http_connect con a pre
              else http_forward con a method (url_path url) version pre)) c1 = Some (Inr h, c')"
    unfolding handleHttp_def by (auto elim!: io_bind_InrE)
  obtain m t v where w: "request_words line = (m, t, v)" by (cases "request_words line")
  from http_first_line_sound_some [OF l _ refl assms(2)] obtain pos where
    "find_in crlf text = Some pos" "line = take pos text" "drop (pos + 2) text = pre @ string_of_bytes (incoming c1)"
    "outgoing c1 = outgoing c" "live c1"
    unfolding text_def by auto
  moreover obtain u where "parse_uri t = Some u" using k w by (cases "parse_uri t") simp_all
  ultimately show ?thesis using k w by (intro exI conjI) (assumption | simp)+
qed

end

section \<open>The loops on a peer that sends what they wait for\<close>

text \<open>Searching in all that will arrive gives the result, whatever pieces it arrives in.\<close>

context byte_peer
begin

lemma http_first_line_returns:
  assumes "live c" "find_in crlf (buffer @ string_of_bytes (incoming c)) = Some pos" "find_in crlf buffer = None"
  shows "\<exists>c1 pre. http_first_line con buffer c =
      Some (Inr (take pos (buffer @ string_of_bytes (incoming c)), pre), c1) \<and>
    drop (pos + 2) (buffer @ string_of_bytes (incoming c)) = pre @ string_of_bytes (incoming c1) \<and>
    outgoing c1 = outgoing c \<and> live c1"
  using assms
proof (induction "pieces c" arbitrary: c buffer rule: less_induct)
  case less
  have "incoming c \<noteq> []" using less.prems(2,3) by auto
  from read_obtain [OF less.prems(1) this, of 4096] obtain d c1 where
    r: "conn_read con 4096 c = Some (Inr d, c1)" "incoming c = d @ incoming c1" "pieces c1 < pieces c"
      "outgoing c1 = outgoing c" "live c1"
    by auto
  let ?b = "buffer @ string_of_bytes d"
  have all: "buffer @ string_of_bytes (incoming c) = ?b @ string_of_bytes (incoming c1)"
    by (simp add: r(2))
  show ?case
  proof (cases "find_in crlf ?b")
    case None
    then have "http_first_line con buffer c = http_first_line con ?b c1"
      by (subst http_first_line.simps) (simp add: r(1) Let_def str_find_0)
    moreover note less.hyps [OF r(3) r(5) less.prems(2) [unfolded all] None]
    ultimately show ?thesis using r(4) all by simp
  next
    case (Some pos')
    then have "pos' = pos" using find_in_mono [OF Some, of "string_of_bytes (incoming c1)"] less.prems(2) all by simp
    moreover have "http_first_line con buffer c = Some (Inr (take pos' ?b, drop (pos' + 2) ?b), c1)"
      by (subst http_first_line.simps) (simp add: r(1) Let_def str_find_0 Some)
    moreover have "pos' + 2 \<le> length ?b" using find_in_fits [OF Some] by (simp add: crlf_def)
    ultimately show ?thesis using r(4,5) unfolding all by simp
  qed
qed

lemma http_skip_headers_returns:
  assumes "live c" "find_in header_end (buffer @ string_of_bytes (incoming c)) = Some pos"
  shows "\<exists>c1 lost. http_skip_headers con buffer c = Some (Inr lost, c1) \<and>
    drop (pos + 4) (buffer @ string_of_bytes (incoming c)) = lost @ string_of_bytes (incoming c1) \<and>
    outgoing c1 = outgoing c \<and> live c1"
  using assms
proof (induction "pieces c" arbitrary: c buffer rule: less_induct)
  case less
  show ?case
  proof (cases "find_in header_end buffer")
    case (Some pos')
    then have "pos' = pos" using find_in_mono [OF Some, of "string_of_bytes (incoming c)"] less.prems(2) by simp
    moreover have "http_skip_headers con buffer c = Some (Inr (drop (pos' + 4) buffer), c)"
      by (subst http_skip_headers.simps) (simp add: str_find_0 Some)
    moreover have "pos' + 4 \<le> length buffer"
      using find_in_fits [OF Some] by (simp add: header_end_def crlf_def)
    ultimately show ?thesis using less.prems(1) by simp
  next
    case None
    have "incoming c \<noteq> []" using less.prems(2) None by auto
    from read_obtain [OF less.prems(1) this, of 4096] obtain d c1 where
      r: "conn_read con 4096 c = Some (Inr d, c1)" "incoming c = d @ incoming c1" "pieces c1 < pieces c"
        "outgoing c1 = outgoing c" "live c1"
      by auto
    let ?b = "buffer @ string_of_bytes d"
    have all: "buffer @ string_of_bytes (incoming c) = ?b @ string_of_bytes (incoming c1)"
      by (simp add: r(2))
    have "http_skip_headers con buffer c = http_skip_headers con ?b c1"
      by (subst http_skip_headers.simps) (simp add: r(1) str_find_0 None)
    moreover note less.hyps [OF r(3) r(5) less.prems(2) [unfolded all]]
    ultimately show ?thesis using r(4) all by simp
  qed
qed

section \<open>The handler on a request\<close>

text \<open>\<open>text\<close> is the whole input from the first byte on, \<open>pos\<close> the end of its first line.\<close>

lemma handleHttp_line:
  fixes fb c
  defines "text \<equiv> char_of_byte fb # string_of_bytes (incoming c)"
  assumes "live c" "find_in crlf text = Some pos" "request_words (take pos text) = (m, t, v)"
    and "parse_uri t = Some u"
  shows "\<exists>pre c1. handleHttp parse_uri mk con fb c =
      (let a = \<lparr>addr_host = host_of mk (url_host u), addr_port = url_port_number u\<rparr>
       in if m = ''CONNECT'' then http_connect con a pre
          else http_forward con a m (url_path u) v pre) c1 \<and>
    drop (pos + 2) text = pre @ string_of_bytes (incoming c1) \<and> outgoing c1 = outgoing c \<and> live c1"
proof -
  have "find_in crlf [char_of_byte fb] = None"
    by (simp add: crlf_def)
  from http_first_line_returns [OF assms(2) _ this, of pos] assms(3) obtain pre c1 where
    "http_first_line con [char_of_byte fb] c = Some (Inr (take pos text, pre), c1)"
    "drop (pos + 2) text = pre @ string_of_bytes (incoming c1)" "outgoing c1 = outgoing c" "live c1"
    unfolding text_def by auto
  then show ?thesis
    using assms(4,5) by (simp add: handleHttp_def) blast
qed

lemma http_connect_returns:
  assumes "live c" "find_in header_end (pre @ string_of_bytes (incoming c)) = Some hpos"
  shows "\<exists>lost c1. http_connect con a pre c =
      io_bind (conn_read con 4096) (\<lambda>data. io_return (Accepted (with_port 443 a) data)) c1 \<and>
    drop (hpos + 4) (pre @ string_of_bytes (incoming c)) = lost @ string_of_bytes (incoming c1) \<and>
    outgoing c1 = outgoing c @ bytes_of_string connect_response \<and> live c1"
proof -
  from http_skip_headers_returns [OF assms] obtain c1 lost where
    c1: "http_skip_headers con pre c = Some (Inr lost, c1)"
      "drop (hpos + 4) (pre @ string_of_bytes (incoming c)) = lost @ string_of_bytes (incoming c1)"
      "outgoing c1 = outgoing c" "live c1"
    by blast
  from write_obtain [OF c1(4), of "bytes_of_string connect_response"] obtain c2 where
    c2: "conn_write con (bytes_of_string connect_response) c1 = Some (Inr (), c2)" "incoming c2 = incoming c1"
      "outgoing c2 = outgoing c1 @ bytes_of_string connect_response" "live c2"
    by blast
  then show ?thesis
    using c1 by (intro exI [of _ lost] exI [of _ c2]) (simp add: http_connect_def with_port_def Let_def)
qed

lemma http_connect_found:
  "http_connect con a pre c = Some (Inr h, c') \<Longrightarrow> live c \<Longrightarrow>
   find_in header_end (pre @ string_of_bytes (incoming c)) \<noteq> None"
  by (auto simp: http_connect_def Let_def dest!: http_skip_headers_found)

lemma http_forward_returns:
  assumes "live c" "pre @ string_of_bytes (incoming c) \<noteq> []"
  shows "\<exists>d c1. http_forward con a m path v pre c =
      Some (Inr (Accepted (with_port 80 a)
        (bytes_of_string (m @ '' '' @ path @ '' '' @ v @ crlf) @ bytes_of_string d)), c1) \<and>
    pre @ string_of_bytes (incoming c) = d @ string_of_bytes (incoming c1) \<and> outgoing c1 = outgoing c \<and> live c1"
proof (cases "pre = []")
  case True
  with assms(2) have "incoming c \<noteq> []" by simp
  from read_obtain [OF assms(1) this, of 4096] obtain d c1 where
    "conn_read con 4096 c = Some (Inr d, c1)" "incoming c = d @ incoming c1" "pieces c1 < pieces c"
    "outgoing c1 = outgoing c" "live c1"
    by auto
  with True show ?thesis
    by (intro exI [of _ "string_of_bytes d"] exI [of _ c1])
      (simp add: http_forward_def with_port_def Let_def)
next
  case False
  with assms(1) show ?thesis
    by (intro exI [of _ pre] exI [of _ c]) (simp add: http_forward_def with_port_def Let_def)
qed

end

section \<open>Memory safety\<close>

context exact_reader
begin

lemma http_first_line_safe_some:
  assumes "http_first_line cn buffer c = Some y" "cn = con"
  shows "no_ub (fst y)"
  using assms
proof (induction rule: http_first_line.raw_induct [rotated, consumes 1, case_names step])
  case (step loop cn buffer c y)
  then obtain r c1 where r: "conn_read con 4096 c = Some (r, c1)" by (auto simp: io_bind_def split: option.splits)
  then have nr: "no_ub r" by (rule io_safeD [OF read_safe])
  show ?case
  proof (cases r)
    case (Inl e)
    then have "y = (Inl e, c1)" using step(2,3) r by (simp add: Let_def)
    then show ?thesis using nr Inl by (simp add: no_ub_Inl_cong)
  next
    case (Inr d)
    then show ?thesis
      using step(2,3) r step(1) by (auto simp: Let_def split: option.splits)
  qed
qed

lemma http_skip_headers_safe_some:
  assumes "http_skip_headers cn buffer c = Some y" "cn = con"
  shows "no_ub (fst y)"
  using assms
proof (induction rule: http_skip_headers.raw_induct [rotated, consumes 1, case_names step])
  case (step loop cn buffer c y)
  show ?case
  proof (cases "str_find buffer header_end 0")
    case None
    then obtain r c1 where r: "conn_read con 4096 c = Some (r, c1)"
      using step(2,3) by (auto simp: io_bind_def split: option.splits)
    then have nr: "no_ub r" by (rule io_safeD [OF read_safe])
    show ?thesis
    proof (cases r)
      case (Inl e)
      then have "y = (Inl e, c1)" using step(2,3) r None by simp
      then show ?thesis using nr Inl by (simp add: no_ub_Inl_cong)
    next
      case (Inr d)
      then show ?thesis using step(2,3) r step(1) None by auto
    qed
  next
    case (Some pos)
    with step(2) show ?thesis by auto
  qed
qed

lemma http_first_line_safe: "io_safe (http_first_line con buffer)"
  by (rule io_safeI) (auto dest: http_first_line_safe_some)

lemma http_skip_headers_safe: "io_safe (http_skip_headers con buffer)"
  by (rule io_safeI) (auto dest: http_skip_headers_safe_some)

lemma handleHttp_safe: "io_safe (handleHttp parse_uri mk con fb)"
  unfolding handleHttp_def http_connect_def http_forward_def Let_def
  by (auto intro!: io_safe_bind http_first_line_safe http_skip_headers_safe write_safe read_safe
      split: prod.splits option.splits)

end

section \<open>Properties\<close>

text \<open>The whole input of the handler: the byte already read and what is still to come.\<close>

definition http_text :: "u8 \<Rightarrow> bytes \<Rightarrow> string" where
  "http_text fb bs = char_of_byte fb # string_of_bytes bs"



definition crlf_bytes :: bytes where
  "crlf_bytes = [0x0D, 0x0A]"

definition connect_client :: script where
  "connect_client =
     \<lparr>script_in = [bytes_of_string ''ONNECT h'', bytes_of_string '' HTTP/1.1'' @ [0x0D], [0x0A],
        bytes_of_string ''A: b'' @ crlf_bytes @ crlf_bytes, [0x16, 3]],
      script_out = [], script_eof = False\<rparr>"

definition host_only :: parse_url where
  "host_only t = Some \<lparr>url_host = t, url_port_number = 0, url_path = ''/''\<rparr>"

lemma connect_client_text:
  "script_up connect_client"
  "find_in crlf (http_text 0x43 (concat (script_in connect_client))) = Some 18"
  "request_words (take 18 (http_text 0x43 (concat (script_in connect_client))))
     = (''CONNECT'', ''h'', ''HTTP/1.1'')"
  "find_in header_end (drop (18 + 2) (http_text 0x43 (concat (script_in connect_client)))) = Some 4"
  by code_simp+



definition bare_connect_client :: script where
  "bare_connect_client =
     \<lparr>script_in = [bytes_of_string (''ONNECT h HTTP/1.1'' @ crlf @ crlf)], script_out = [], script_eof = False\<rparr>"

lemma bare_connect_text:
  "script_up bare_connect_client"
  "find_in crlf (http_text 0x43 (concat (script_in bare_connect_client))) = Some 18"
  "request_words (take 18 (http_text 0x43 (concat (script_in bare_connect_client)))) = (''CONNECT'', ''h'', ''HTTP/1.1'')"
  "drop (18 + 2) (http_text 0x43 (concat (script_in bare_connect_client))) = crlf"
  by code_simp+


text \<open>A request of any other method is accepted with its first line rewritten to the path of the
  target and the (http_text fb (incoming c)) behind that line passed on unchanged, however it is cut into pieces; the
  port is 80 when the target has none.\<close>

theorem http_forward_accepted:
  assumes peer: "byte_peer con incoming outgoing live pieces" and "live c"
    and "find_in crlf (http_text fb (incoming c)) = Some pos" "request_words (take pos (http_text fb (incoming c))) = (m, t, v)" "m \<noteq> ''CONNECT''"
    and "parse_uri t = Some u" "drop (pos + 2) (http_text fb (incoming c)) \<noteq> []"
  shows "\<exists>d c'. handleHttp parse_uri mk con fb c =
      Some (Inr (Accepted (with_port 80 \<lparr>addr_host = host_of mk (url_host u), addr_port = url_port_number u\<rparr>)
        (bytes_of_string (m @ '' '' @ url_path u @ '' '' @ v @ crlf) @ bytes_of_string d)), c') \<and>
    drop (pos + 2) (http_text fb (incoming c)) = d @ string_of_bytes (incoming c') \<and> outgoing c' = outgoing c \<and> live c'"
proof -
  let ?a = "\<lparr>addr_host = host_of mk (url_host u), addr_port = url_port_number u\<rparr>"
  from byte_peer.handleHttp_line [OF peer, of c fb pos m t v parse_uri u mk] assms(2-)
  obtain pre c1 where c1: "handleHttp parse_uri mk con fb c = http_forward con ?a m (url_path u) v pre c1"
    "drop (pos + 2) (http_text fb (incoming c)) = pre @ string_of_bytes (incoming c1)" "outgoing c1 = outgoing c" "live c1"
    by (auto simp: Let_def http_text_def)
  from byte_peer.http_forward_returns [OF peer c1(4) assms(7) [unfolded c1(2)], of ?a m "url_path u" v]
  show ?thesis unfolding c1(1,2) c1(3) [symmetric] .
qed

definition get_client :: script where
  "get_client =
     \<lparr>script_in = [bytes_of_string ''ET h HTTP/1.1'' @ [0x0D], 0x0A # bytes_of_string ''A: b'' @ crlf_bytes @ crlf_bytes],
      script_out = [], script_eof = False\<rparr>"

lemma get_client_text:
  "script_up get_client"
  "find_in crlf (http_text 0x47 (concat (script_in get_client))) = Some 14"
  "request_words (take 14 (http_text 0x47 (concat (script_in get_client))))
     = (''GET'', ''h'', ''HTTP/1.1'')"
  "drop (14 + 2) (http_text 0x47 (concat (script_in get_client))) \<noteq> []"
  by code_simp+

theorem http_forward_accepted_witness:
  "\<exists>d c'. handleHttp host_only (\<lambda>s. None) (TcpConnection script_lib) 0x47 get_client =
     Some (Inr (Accepted \<lparr>addr_host = Domain ''h'', addr_port = 80\<rparr>
       (bytes_of_string (''GET'' @ '' '' @ ''/'' @ '' '' @ ''HTTP/1.1'' @ crlf) @ bytes_of_string d)), c')"
  using http_forward_accepted [OF scripted.tcp_con.byte_peer_axioms get_client_text(1,2,3), of host_only _ "\<lambda>s. None"]
    get_client_text(4)
  by (simp add: host_only_def host_of_def with_port_def) blast

end
