(* ===== verification/Listener.thy ===== *)
theory Listener
  imports Async_Queue Log
begin

text \<open>
  \<^verbatim>\<open>listeners/listener.*\<close>, \<^verbatim>\<open>listeners/tcp.*\<close> and \<^verbatim>\<open>listeners/ws.*\<close>.
  A listener puts every connection it accepts into its queue and \<^verbatim>\<open>session()\<close> takes them
  out. What the acceptor delivers is a list of events: a socket, or the error that ends the
  accepting loop (closing the acceptor aborts the pending accept).
\<close>

section \<open>Accepting\<close>

datatype 's accept_event = Socket 's | Accept_Failed exn

text \<open>The base class, and the two classes derived from it; \<open>lst_acceptor\<close> says whether an acceptor is there and open.\<close>

record 's listener =
  lst_sessions :: "'s async_queue"

record ('e, 's) tcp_listener = "'s listener" +
  tcl_endpoint :: 'e
  tcl_acceptor :: "bool option"

record ('e, 's) ws_listener = "'s listener" +
  wsl_endpoint :: 'e
  wsl_acceptor :: "bool option"
  wsl_path :: string

definition TcpListener_new :: "'e \<Rightarrow> ('e, 's) tcp_listener" where
  "TcpListener_new ep = \<lparr>lst_sessions = new_queue, tcl_endpoint = ep, tcl_acceptor = None\<rparr>"

definition WsListener_new :: "'e \<Rightarrow> string \<Rightarrow> ('e, 's) ws_listener" where
  "WsListener_new ep path = \<lparr>lst_sessions = new_queue, wsl_endpoint = ep, wsl_acceptor = None, wsl_path = path\<rparr>"

text \<open>\<^verbatim>\<open>Listener::session\<close>\<close>

definition Listener_session :: "('s, 'm) listener_scheme \<Rightarrow> 's get_result \<times> ('s, 'm) listener_scheme" where
  "Listener_session l =
     (let (r, q) = AsyncQueue_get (lst_sessions l) in (r, l\<lparr>lst_sessions := q\<rparr>))"

definition listener_put :: "('s, 'm) listener_scheme \<Rightarrow> 's \<Rightarrow> ('s, 'm) listener_scheme" where
  "listener_put l s = l\<lparr>lst_sessions := AsyncQueue_put (lst_sessions l) s\<rparr>"

text \<open>
  \<^verbatim>\<open>TcpListener::mainWork_\<close>: opening the acceptor may throw (\<open>bind\<close>); then one
  \<^verbatim>\<open>put\<close> per socket. \<open>con\<close> wraps a socket into the connection object. The second
  result is the exception that ended the loop, \<open>None\<close> while it waits for more.
\<close>

fun tcp_accept_loop :: "('s \<Rightarrow> 'c) \<Rightarrow> ('e, 'c) tcp_listener \<Rightarrow> 's accept_event list \<Rightarrow> ('e, 'c) tcp_listener \<times> exn option" where
  "tcp_accept_loop con l [] = (l, None)"
| "tcp_accept_loop con l (Socket s # es) = tcp_accept_loop con (listener_put l (con s)) es"
| "tcp_accept_loop con l (Accept_Failed e # es) = (l, Some e)"

definition TcpListener_mainWork ::
  "messages \<Rightarrow> ('e \<Rightarrow> exn option) \<Rightarrow> ('s \<Rightarrow> 'c) \<Rightarrow> ('e, 'c) tcp_listener \<Rightarrow> 's accept_event list \<Rightarrow>
   ('e, 'c) tcp_listener \<times> string list" where
  "TcpListener_mainWork ms bind con l es =
     (case bind (tcl_endpoint l) of
        Some e \<Rightarrow> (l, log_error ms ''tcp listen main work'' e)
      | None \<Rightarrow>
          (case tcp_accept_loop con (l\<lparr>tcl_acceptor := Some True\<rparr>) es of
             (l', None) \<Rightarrow> (l', [])
           | (l', Some e) \<Rightarrow> (l', log_error ms ''tcp listen main work'' e)))"

definition TcpListener_close :: "('e, 's) tcp_listener \<Rightarrow> ('e, 's) tcp_listener" where
  "TcpListener_close l =
     (if tcl_acceptor l \<noteq> None then l\<lparr>tcl_acceptor := Some False\<rparr> else l)"

section \<open>WebSocket upgrades\<close>

text \<open>
  \<^verbatim>\<open>WsListener\<close>: every socket is handed to its own coroutine, which reads an HTTP
  request (\<open>read_request\<close>, its target), compares the target and accepts the upgrade.
\<close>

record ('s, 'w) ws_upgrade =
  read_request :: "'s \<Rightarrow> (string \<times> 's) result"
  accept_upgrade :: "'s \<Rightarrow> 'w result"

definition ws_handle_body :: "('s, 'w) ws_upgrade \<Rightarrow> string \<Rightarrow> 's \<Rightarrow> 'w result" where
  "ws_handle_body lib path socket =
     bind_res (read_request lib socket) (\<lambda>(target, ws).
       if target \<noteq> path then throw_error (''error path '' @ target)
       else accept_upgrade lib ws)"

definition WsListener_handle ::
  "messages \<Rightarrow> ('s, 'w) ws_upgrade \<Rightarrow> ('w \<Rightarrow> 'c) \<Rightarrow> ('e, 'c) ws_listener \<Rightarrow> 's \<Rightarrow>
   (('e, 'c) ws_listener \<times> string list) result" where
  "WsListener_handle ms lib con l socket =
     (case ws_handle_body lib (wsl_path l) socket of
        Inr ws \<Rightarrow> Inr (listener_put l (con ws), [])
      | Inl (Raised e) \<Rightarrow> Inr (l, log_error ms ''ws handle'' e)
      | Inl (UB k) \<Rightarrow> Inl (UB k))"

text \<open>\<^verbatim>\<open>WsListener::mainWork_\<close> spawns the handlers in accept order.\<close>

fun ws_accept_loop :: "'s accept_event list \<Rightarrow> 's list \<times> exn option" where
  "ws_accept_loop [] = ([], None)"
| "ws_accept_loop (Socket s # es) = (let (ss, e) = ws_accept_loop es in (s # ss, e))"
| "ws_accept_loop (Accept_Failed e # es) = ([], Some e)"

definition WsListener_mainWork ::
  "messages \<Rightarrow> ('e \<Rightarrow> exn option) \<Rightarrow> ('e, 'c) ws_listener \<Rightarrow> 's accept_event list \<Rightarrow>
   ('e, 'c) ws_listener \<times> 's list \<times> string list" where
  "WsListener_mainWork ms bind l es =
     (case bind (wsl_endpoint l) of
        Some e \<Rightarrow> (l, [], log_error ms ''ws listen main work'' e)
      | None \<Rightarrow>
          (let l' = l\<lparr>wsl_acceptor := Some True\<rparr>; (ss, err) = ws_accept_loop es
           in (l', ss, case err of None \<Rightarrow> [] | Some e \<Rightarrow> log_error ms ''ws listen main work'' e)))"

definition WsListener_close :: "('e, 's) ws_listener \<Rightarrow> ('e, 's) ws_listener" where
  "WsListener_close l =
     (if wsl_acceptor l \<noteq> None then l\<lparr>wsl_acceptor := Some False\<rparr> else l)"

section \<open>Behind a pointer to the base class\<close>

datatype ('e, 's) listener_obj = Tcp_Listener "('e, 's) tcp_listener" | Ws_Listener "('e, 's) ws_listener"

text \<open>\<^verbatim>\<open>session()\<close> is the function of the base class, \<^verbatim>\<open>close()\<close> is virtual.\<close>

fun listener_session :: "('e, 's) listener_obj \<Rightarrow> 's get_result \<times> ('e, 's) listener_obj" where
  "listener_session (Tcp_Listener l) = (let (r, l') = Listener_session l in (r, Tcp_Listener l'))"
| "listener_session (Ws_Listener l) = (let (r, l') = Listener_session l in (r, Ws_Listener l'))"

fun listener_close :: "('e, 's) listener_obj \<Rightarrow> ('e, 's) listener_obj" where
  "listener_close (Tcp_Listener l) = Tcp_Listener (TcpListener_close l)"
| "listener_close (Ws_Listener l) = Ws_Listener (WsListener_close l)"

fun listener_queue :: "('e, 's) listener_obj \<Rightarrow> 's async_queue" where
  "listener_queue (Tcp_Listener l) = lst_sessions l"
| "listener_queue (Ws_Listener l) = lst_sessions l"

fun with_queue :: "('e, 's) listener_obj \<Rightarrow> 's async_queue \<Rightarrow> ('e, 's) listener_obj" where
  "with_queue (Tcp_Listener l) q = Tcp_Listener (l\<lparr>lst_sessions := q\<rparr>)"
| "with_queue (Ws_Listener l) q = Ws_Listener (l\<lparr>lst_sessions := q\<rparr>)"

lemma listener_queue_with [simp]: "listener_queue (with_queue l q) = q"
  by (cases l) simp_all

lemma listener_session_queue:
  "listener_session l = (let (r, q) = AsyncQueue_get (listener_queue l) in (r, with_queue l q))"
  by (cases l) (simp_all add: Listener_session_def split_beta Let_def)

section \<open>What a listener delivers\<close>

fun accepted :: "'s accept_event list \<Rightarrow> 's list" where
  "accepted [] = []"
| "accepted (Socket s # es) = s # accepted es"
| "accepted (Accept_Failed e # es) = []"

lemma tcp_accept_loop_sessions:
  "lst_sessions (fst (tcp_accept_loop con l es)) = snd (run_queue (lst_sessions l) (map (\<lambda>s. Put (con s)) (accepted es)))"
  by (induction con l es rule: tcp_accept_loop.induct) (simp_all add: listener_put_def)

lemma ws_accept_loop_accepted: "fst (ws_accept_loop es) = accepted es"
  by (induction es rule: accepted.induct) (auto split: prod.splits)

text \<open>\<open>n\<close> calls of \<^verbatim>\<open>session()\<close> one after another.\<close>

fun take_sessions :: "nat \<Rightarrow> ('s, 'm) listener_scheme \<Rightarrow> 's get_result list \<times> ('s, 'm) listener_scheme" where
  "take_sessions 0 l = ([], l)"
| "take_sessions (Suc n) l =
     (let (r, l') = Listener_session l; (rs, l'') = take_sessions n l' in (r # rs, l''))"

lemma take_sessions_queue:
  "take_sessions n l =
     (let (rs, q) = run_queue (lst_sessions l) (replicate n Get) in (rs, l\<lparr>lst_sessions := q\<rparr>))"
  by (induction n arbitrary: l) (auto simp: Listener_session_def Let_def split: prod.splits)

section \<open>Properties\<close>

text \<open>A TCP listener hands out the connections it accepted, each once, in the order they were
  accepted, up to the error that ended the accepting loop; a further \<^verbatim>\<open>session()\<close> waits.\<close>

theorem tcp_listener_sessions_in_order:
  "TcpListener_mainWork ms bind con (TcpListener_new ep) es = (l, logs) \<Longrightarrow> bind ep = None \<Longrightarrow>
   take_sessions n l = (rs, l') \<Longrightarrow> k < n \<Longrightarrow>
   get_outcome (lst_sessions l') (rs ! k) =
     (if k < length (accepted es) then Some (Inr (con (accepted es ! k))) else None)"
proof -
  assume run: "TcpListener_mainWork ms bind con (TcpListener_new ep) es = (l, logs)" and b: "bind ep = None"
    and rs: "take_sessions n l = (rs, l')" and k: "k < n"
  let ?ops = "map (\<lambda>s. Put (con s)) (accepted es) @ replicate n Get"
  have l: "lst_sessions l = snd (run_queue new_queue (map (\<lambda>s. Put (con s)) (accepted es)))"
    using run b tcp_accept_loop_sessions [of con "TcpListener_new ep\<lparr>tcl_acceptor := Some True\<rparr>" es]
    by (auto simp: TcpListener_mainWork_def TcpListener_new_def split: prod.splits option.splits)
  have "run_queue new_queue ?ops = (rs, lst_sessions l')"
    using rs fst_run_puts [of new_queue con "accepted es"]
    by (auto simp: run_queue_append take_sessions_queue l split: prod.splits)
  then show ?thesis
    using channel.kth_get [of ?ops rs "lst_sessions l'" k] k by (simp add: run_queue_exec)
qed

definition no_messages :: messages where
  "no_messages = \<lparr>code_message = (\<lambda>c. ''''), exn_what = (\<lambda>e. '''')\<rparr>"

definition sample_accepts :: "nat accept_event list" where
  "sample_accepts = [Socket 7, Socket 8, Accept_Failed (System_Error Operation_Aborted)]"

lemma run_sample_accepts:
  "TcpListener_mainWork no_messages (\<lambda>e. None) id (TcpListener_new ()) sample_accepts =
     (fst (TcpListener_mainWork no_messages (\<lambda>e. None) id (TcpListener_new ()) sample_accepts), [])"
  "take_sessions 3 (fst (TcpListener_mainWork no_messages (\<lambda>e. None) id (TcpListener_new ()) sample_accepts)) =
     ([Got 7, Got 8, Suspended 0],
      snd (take_sessions 3 (fst (TcpListener_mainWork no_messages (\<lambda>e. None) id (TcpListener_new ()) sample_accepts))))"
  by code_simp+

theorem tcp_listener_sessions_in_order_witness:
  "get_outcome (lst_sessions (snd (take_sessions 3
      (fst (TcpListener_mainWork no_messages (\<lambda>e. None) id (TcpListener_new ()) sample_accepts))))) (Got 8) = Some (Inr 8)"
  using tcp_listener_sessions_in_order [OF run_sample_accepts(1) refl run_sample_accepts(2), of 1]
  by (simp add: sample_accepts_def)

text \<open>The WebSocket listener queues a connection exactly for the sockets whose request names the
  configured path and whose upgrade succeeds; any other request leaves the queue as it was and is logged.\<close>

theorem ws_listener_checks_path:
  "WsListener_handle ms lib con l socket = Inr (l', logs) \<Longrightarrow>
   (\<exists>s' ws. read_request lib socket = Inr (wsl_path l, s') \<and> accept_upgrade lib s' = Inr ws \<and>
      l' = listener_put l (con ws) \<and> logs = []) \<or>
   (l' = l \<and> (\<exists>e. ws_handle_body lib (wsl_path l) socket = Inl (Raised e) \<and> logs = log_error ms ''ws handle'' e))"
  by (auto simp: WsListener_handle_def ws_handle_body_def split: sum.splits fault.splits if_splits)

definition sample_upgrade :: "(nat, nat) ws_upgrade" where
  "sample_upgrade = \<lparr>read_request = (\<lambda>s. Inr (''/ws'', s)), accept_upgrade = (\<lambda>s. Inr (s + 1))\<rparr>"

lemma run_sample_upgrade:
  "WsListener_handle no_messages sample_upgrade id (WsListener_new () ''/ws'') 4 =
     Inr (listener_put (WsListener_new () ''/ws'') 5, [])"
  by (simp add: WsListener_handle_def ws_handle_body_def sample_upgrade_def WsListener_new_def)

theorem ws_listener_checks_path_witness:
  "\<exists>s'. read_request sample_upgrade 4 = Inr (''/ws'', s')"
  using ws_listener_checks_path [OF run_sample_upgrade]
  by (auto simp: listener_put_def WsListener_new_def AsyncQueue_put_def new_queue_def)

end
