(* ===== verification/Mixed_Inbound.thy ===== *)
theory Mixed_Inbound
  imports Http_Inbound Listener Ws_Connection
begin

text \<open>
  \<^verbatim>\<open>inbounds/inbound.*\<close>, \<^verbatim>\<open>inbounds/mixed.*\<close> and
  \<^verbatim>\<open>tcp/session.hpp\<close>: an inbound handles every connection of its listener in a
  coroutine of its own, which ends in at most one session put into the inbound's queue.
  The sessions of concurrent handlers enter the queue in the order the handlers finish.
\<close>

section \<open>Sessions\<close>

record 'c in_tcp_session =
  in_conn :: 'c
  in_address :: address
  in_firstData :: bytes

record out_tcp_session =
  out_address :: address
  out_firstData :: bytes

record 'c mixed_inbound =
  inb_users :: "user_pass list"
  inb_uuids :: "bytes list"
  inb_sessions :: "'c in_tcp_session async_queue"

definition new_inbound :: "user_pass list \<Rightarrow> bytes list \<Rightarrow> 'c mixed_inbound" where
  "new_inbound users uuids = \<lparr>inb_users = users, inb_uuids = uuids, inb_sessions = new_queue\<rparr>"

text \<open>\<^verbatim>\<open>Inbound::session\<close>\<close>

definition Inbound_session :: "'c mixed_inbound \<Rightarrow> 'c in_tcp_session get_result \<times> 'c mixed_inbound" where
  "Inbound_session ib =
     (let (r, q) = AsyncQueue_get (inb_sessions ib) in (r, ib\<lparr>inb_sessions := q\<rparr>))"

section \<open>Handling a connection\<close>

definition MixedInbound_handle ::
  "parse_url \<Rightarrow> make_address \<Rightarrow> 'c connection \<Rightarrow> user_pass list \<Rightarrow> ('c, handled) io" where
  "MixedInbound_handle parse_uri mk con users =
     io_bind (conn_read_exactly con 1) (\<lambda>data.
     io_bind (io_lift (vec_at data 0)) (\<lambda>d0.
     if d0 = 5 then handleSocks5 con users
     else handleHttp parse_uri mk con d0))"

text \<open>
  The handler as a detached coroutine: \<^verbatim>\<open>sessions_.put\<close> of what it accepted. An
  exception ends it without a trace, as nothing waits for it.
\<close>

definition MixedInbound_serve ::
  "parse_url \<Rightarrow> make_address \<Rightarrow> 'c connection \<Rightarrow> 'c mixed_inbound \<Rightarrow> 'c \<Rightarrow> 'c mixed_inbound" where
  "MixedInbound_serve parse_uri mk con ib c =
     (case MixedInbound_handle parse_uri mk con (inb_users ib) c of
        Some (Inr (Accepted a d), c') \<Rightarrow>
          ib\<lparr>inb_sessions := AsyncQueue_put (inb_sessions ib)
             \<lparr>in_conn = c', in_address = a, in_firstData = d\<rparr>\<rparr>
      | _ \<Rightarrow> ib)"

text \<open>
  The inbound at work: connections whose handlers finish, and calls of
  \<^verbatim>\<open>session()\<close>, in the order in which they happen.
\<close>

datatype 'c inbound_event = Served 'c | Session_Call

fun run_inbound ::
  "parse_url \<Rightarrow> make_address \<Rightarrow> 'c connection \<Rightarrow> 'c mixed_inbound \<Rightarrow> 'c inbound_event list \<Rightarrow>
   'c in_tcp_session get_result list \<times> 'c mixed_inbound" where
  "run_inbound parse_uri mk con ib [] = ([], ib)"
| "run_inbound parse_uri mk con ib (Served c # es) =
     run_inbound parse_uri mk con (MixedInbound_serve parse_uri mk con ib c) es"
| "run_inbound parse_uri mk con ib (Session_Call # es) =
     (let (r, ib') = Inbound_session ib; (rs, ib'') = run_inbound parse_uri mk con ib' es in (r # rs, ib''))"

text \<open>
  The inbound with the listener it owns. \<open>MixedInbound_mainWork\<close> is \<^verbatim>\<open>mainWork_\<close>
  for at most \<open>n\<close> rounds: take a connection of the listener and spawn its handler, here run
  to its end before the next one starts; it stops where \<^verbatim>\<open>session()\<close> suspends.
\<close>

record ('e, 'c) built_inbound =
  bi_listener :: "('e, 'c) listener_obj"
  bi_inbound :: "'c mixed_inbound"

fun MixedInbound_mainWork ::
  "parse_url \<Rightarrow> make_address \<Rightarrow> 'c connection \<Rightarrow> nat \<Rightarrow> ('e, 'c) built_inbound \<Rightarrow> ('e, 'c) built_inbound" where
  "MixedInbound_mainWork parse_uri mk con 0 bi = bi"
| "MixedInbound_mainWork parse_uri mk con (Suc n) bi =
     (case listener_session (bi_listener bi) of
        (Got c, l) \<Rightarrow>
          MixedInbound_mainWork parse_uri mk con n
            (bi\<lparr>bi_listener := l, bi_inbound := MixedInbound_serve parse_uri mk con (bi_inbound bi) c\<rparr>)
      | (Suspended w, l) \<Rightarrow> bi\<lparr>bi_listener := l\<rparr>)"

definition MixedInbound_close :: "('e, 'c) built_inbound \<Rightarrow> ('e, 'c) built_inbound" where
  "MixedInbound_close bi = bi\<lparr>bi_listener := listener_close (bi_listener bi)\<rparr>"

section \<open>What the queue receives\<close>

text \<open>The session a connection yields, if any, and the puts and gets of a run.\<close>

definition session_of ::
  "parse_url \<Rightarrow> make_address \<Rightarrow> 'c connection \<Rightarrow> user_pass list \<Rightarrow> 'c \<Rightarrow> 'c in_tcp_session list" where
  "session_of parse_uri mk con users c =
     (case MixedInbound_handle parse_uri mk con users c of
        Some (Inr (Accepted a d), c') \<Rightarrow> [\<lparr>in_conn = c', in_address = a, in_firstData = d\<rparr>]
      | _ \<Rightarrow> [])"

fun inbound_ops :: "('c \<Rightarrow> 's list) \<Rightarrow> 'c inbound_event list \<Rightarrow> 's channel_op list" where
  "inbound_ops f [] = []"
| "inbound_ops f (Served c # es) = map Put (f c) @ inbound_ops f es"
| "inbound_ops f (Session_Call # es) = Get # inbound_ops f es"

fun served_sessions :: "('c \<Rightarrow> 's list) \<Rightarrow> 'c inbound_event list \<Rightarrow> 's list" where
  "served_sessions f [] = []"
| "served_sessions f (Served c # es) = f c @ served_sessions f es"
| "served_sessions f (Session_Call # es) = served_sessions f es"

fun session_calls :: "'c inbound_event list \<Rightarrow> nat" where
  "session_calls [] = 0"
| "session_calls (Served c # es) = session_calls es"
| "session_calls (Session_Call # es) = Suc (session_calls es)"

lemma puts_of_map_Put: "puts_of (map Put xs) = xs" "gets_of (map Put xs) = 0"
  by (induction xs) simp_all

lemma inbound_ops_counts:
  "puts_of (inbound_ops f es) = served_sessions f es"
  "gets_of (inbound_ops f es) = session_calls es"
  by (induction f es rule: inbound_ops.induct) (simp_all add: puts_of_map_Put)

lemma serve_session_of:
  "MixedInbound_serve parse_uri mk con ib c =
     ib\<lparr>inb_sessions := snd (run_queue (inb_sessions ib) (map Put (session_of parse_uri mk con (inb_users ib) c)))\<rparr>"
  by (auto simp: MixedInbound_serve_def session_of_def split: option.splits sum.splits handled.splits)

lemma run_queue_puts: "run_queue q (map Put xs @ ops) = run_queue (snd (run_queue q (map Put xs))) ops"
  by (induction xs arbitrary: q) simp_all

lemma run_inbound_queue:
  "run_inbound parse_uri mk con ib es =
     (let (ts, q) = run_queue (inb_sessions ib) (inbound_ops (session_of parse_uri mk con (inb_users ib)) es)
      in (ts, ib\<lparr>inb_sessions := q\<rparr>))"
proof (induction es arbitrary: ib)
  case Nil
  then show ?case by simp
next
  case (Cons e es)
  then show ?case
    by (cases e) (auto simp: serve_session_of run_queue_puts Inbound_session_def Let_def split: prod.splits)
qed

lemma serve_no_waiters:
  "get_waiters (inb_sessions ib) = [] \<Longrightarrow>
   MixedInbound_serve parse_uri mk con ib c =
     ib\<lparr>inb_sessions := (inb_sessions ib)\<lparr>queue_items := queue_items (inb_sessions ib) @
       session_of parse_uri mk con (inb_users ib) c\<rparr>\<rparr>"
  by (auto simp: MixedInbound_serve_def session_of_def put_no_waiter split: option.splits sum.splits handled.splits)

lemma mainWork_drains:
  "queue_items (listener_queue (bi_listener bi)) = cs \<Longrightarrow> length cs \<le> n \<Longrightarrow>
   get_waiters (inb_sessions (bi_inbound bi)) = [] \<Longrightarrow>
   queue_items (inb_sessions (bi_inbound (MixedInbound_mainWork parse_uri mk con n bi))) =
     queue_items (inb_sessions (bi_inbound bi)) @
     concat (map (session_of parse_uri mk con (inb_users (bi_inbound bi))) cs)"
proof (induction cs arbitrary: n bi)
  case Nil
  then show ?case by (cases n) (simp_all add: listener_session_queue AsyncQueue_get_def Let_def)
next
  case (Cons c cs)
  then obtain m where n: "n = Suc m" by (cases n) auto
  let ?l = "bi_listener bi"
  let ?bi = "bi\<lparr>bi_listener := with_queue ?l ((listener_queue ?l)\<lparr>queue_items := cs\<rparr>),
    bi_inbound := MixedInbound_serve parse_uri mk con (bi_inbound bi) c\<rparr>"
  have "MixedInbound_mainWork parse_uri mk con n bi = MixedInbound_mainWork parse_uri mk con m ?bi"
    using Cons.prems(1) by (simp add: n listener_session_queue AsyncQueue_get_def)
  moreover have "queue_items (inb_sessions (bi_inbound (MixedInbound_mainWork parse_uri mk con m ?bi))) =
      queue_items (inb_sessions (bi_inbound ?bi)) @
      concat (map (session_of parse_uri mk con (inb_users (bi_inbound ?bi))) cs)"
    using Cons.prems by (intro Cons.IH) (simp_all add: n serve_no_waiters)
  ultimately show ?case using Cons.prems(3) by (simp add: serve_no_waiters)
qed

lemma accept_loop_items:
  "get_waiters (lst_sessions l) = [] \<Longrightarrow>
   queue_items (lst_sessions (fst (tcp_accept_loop con l es))) = queue_items (lst_sessions l) @ map con (accepted es)"
  by (induction con l es rule: tcp_accept_loop.induct) (simp_all add: listener_put_def put_no_waiter)

context exact_reader
begin

lemma MixedInbound_handle_safe: "io_safe (MixedInbound_handle parse_uri mk con [])"
  unfolding MixedInbound_handle_def
  by (auto intro!: safe_after_read safe_at handleSocks5_safe handleHttp_safe)

end

section \<open>What a client asked for\<close>

text \<open>
  The three protocols of the port, as relations between all the bytes \<open>input\<close> a client sends, the address it asks
  for, the bytes it sends through to that address, and the answer it expects before anything else. Of a CONNECT
  request the bytes that arrived together with the end of its header are lost.
\<close>

definition socks_asked :: "bytes \<Rightarrow> address \<Rightarrow> bytes \<Rightarrow> bytes \<Rightarrow> bool" where
  "socks_asked input a payload reply \<longleftrightarrow>
     (\<exists>methods rsv. 0 \<in> set methods \<and> length methods < 256 \<and>
        input = 5 # socks_greeting methods @ socks_request rsv a @ payload) \<and>
     wf_socks_host (addr_host a) \<and> reply = [5, 0] @ socks_reply"

definition http_target :: "parse_url \<Rightarrow> make_address \<Rightarrow> u16 \<Rightarrow> string \<Rightarrow> url \<Rightarrow> address \<Rightarrow> bool" where
  "http_target parse_uri mk default_port t u a \<longleftrightarrow>
     parse_uri t = Some u \<and>
     a = with_port default_port \<lparr>addr_host = host_of mk (url_host u), addr_port = url_port_number u\<rparr>"

definition connect_asked :: "parse_url \<Rightarrow> make_address \<Rightarrow> bytes \<Rightarrow> address \<Rightarrow> bytes \<Rightarrow> bytes \<Rightarrow> bool" where
  "connect_asked parse_uri mk input a payload reply \<longleftrightarrow>
     (\<exists>pos t v u hpos lost. find_in crlf (string_of_bytes input) = Some pos \<and>
        request_words (take pos (string_of_bytes input)) = (''CONNECT'', t, v) \<and> http_target parse_uri mk 443 t u a \<and>
        find_in header_end (drop (pos + 2) (string_of_bytes input)) = Some hpos \<and>
        drop (pos + 2 + (hpos + 4)) input = lost @ payload) \<and>
     reply = bytes_of_string connect_response"

definition forward_asked :: "parse_url \<Rightarrow> make_address \<Rightarrow> bytes \<Rightarrow> address \<Rightarrow> bytes \<Rightarrow> bytes \<Rightarrow> bool" where
  "forward_asked parse_uri mk input a payload reply \<longleftrightarrow>
     (\<exists>pos m t v u. find_in crlf (string_of_bytes input) = Some pos \<and>
        request_words (take pos (string_of_bytes input)) = (m, t, v) \<and> m \<noteq> ''CONNECT'' \<and> http_target parse_uri mk 80 t u a \<and>
        payload = bytes_of_string (m @ '' '' @ url_path u @ '' '' @ v @ crlf) @ drop (pos + 2) input) \<and>
     reply = []"

definition client_asked :: "parse_url \<Rightarrow> make_address \<Rightarrow> bytes \<Rightarrow> address \<Rightarrow> bytes \<Rightarrow> bytes \<Rightarrow> bool" where
  "client_asked parse_uri mk input a payload reply \<longleftrightarrow>
     (if take 1 input = [5] then socks_asked input a payload reply
      else connect_asked parse_uri mk input a payload reply \<or> forward_asked parse_uri mk input a payload reply)"

context faithful_peer
begin

lemma handleHttp_asked:
  assumes "live c" "handleHttp parse_uri mk con fb c = Some (Inr (Accepted a d), c')"
  shows "\<exists>reply. (connect_asked parse_uri mk (fb # incoming c) a (d @ incoming c') reply \<or>
      forward_asked parse_uri mk (fb # incoming c) a (d @ incoming c') reply) \<and>
    outgoing c' = outgoing c @ reply \<and> live c'"
proof -
  let ?text = "string_of_bytes (fb # incoming c)"
  from handleHttp_line_sound [OF assms] obtain pos m t v u pre c1 where
    l: "find_in crlf ?text = Some pos" "request_words (take pos ?text) = (m, t, v)" "parse_uri t = Some u"
      "drop (pos + 2) ?text = pre @ string_of_bytes (incoming c1)" "outgoing c1 = outgoing c" "live c1"
    and h: "(let a = \<lparr>addr_host = host_of mk (url_host u), addr_port = url_port_number u\<rparr>
      in if m = ''CONNECT'' then http_connect con a pre else http_forward con a m (url_path u) v pre) c1 =
        Some (Inr (Accepted a d), c')"
    by auto
  have rest: "drop (pos + 2) (fb # incoming c) = bytes_of_string pre @ incoming c1"
    using arg_cong [where f = bytes_of_string, OF l(4)] by (simp add: drop_map [symmetric] del: drop_Suc_Cons list.map)
  show ?thesis
  proof (cases "m = ''CONNECT''")
    case True
    with h http_connect_sound [OF l(6)] obtain hpos lost where
      "a = with_port 443 \<lparr>addr_host = host_of mk (url_host u), addr_port = url_port_number u\<rparr>"
      "find_in header_end (drop (pos + 2) ?text) = Some hpos"
      "drop (hpos + 4) (drop (pos + 2) ?text) = lost @ string_of_bytes (d @ incoming c')"
      "outgoing c' = outgoing c1 @ bytes_of_string connect_response" "live c'"
      unfolding l(4) Let_def by fastforce
    moreover from arg_cong [where f = bytes_of_string, OF this(3)]
    have "drop (pos + 2 + (hpos + 4)) (fb # incoming c) = bytes_of_string lost @ d @ incoming c'"
      by (simp add: add.commute drop_map [symmetric] del: drop_Suc_Cons list.map)
    ultimately show ?thesis using l True
      by (intro exI [of _ "bytes_of_string connect_response"]) (auto simp: connect_asked_def http_target_def)
  next
    case False
    with h http_forward_sound [OF l(6)] obtain e where
      "a = with_port 80 \<lparr>addr_host = host_of mk (url_host u), addr_port = url_port_number u\<rparr>"
      "d = bytes_of_string (m @ '' '' @ url_path u @ '' '' @ v @ crlf) @ e"
      "bytes_of_string pre @ incoming c1 = e @ incoming c'" "outgoing c' = outgoing c1" "live c'"
      unfolding Let_def by fastforce
    then show ?thesis using l False rest
      by (intro exI [of _ "[]"]) (auto simp: forward_asked_def http_target_def)
  qed
qed

lemma MixedInbound_handle_asked:
  assumes "live c" "MixedInbound_handle parse_uri mk con users c = Some (Inr (Accepted a d), c')"
  shows "\<exists>reply. client_asked parse_uri mk (incoming c) a (d @ incoming c') reply \<and>
    outgoing c' = outgoing c @ reply \<and> live c'"
proof -
  from assms(2) obtain x c1 where x: "conn_read_exactly con 1 c = Some (Inr x, c1)" "0 < length x"
    "(if x ! 0 = 5 then handleSocks5 con users else handleHttp parse_uri mk con (x ! 0)) c1 = Some (Inr (Accepted a d), c')"
    by (auto simp: MixedInbound_handle_def vec_at_Inr_iff)
  from read_list [OF assms(1) x(1)] have c1: "incoming c = x @ incoming c1" "length x = 1" "outgoing c1 = outgoing c" "live c1"
    by simp_all
  then obtain fb where fb: "x = [fb]" by (cases x) auto
  show ?thesis
  proof (cases "fb = 5")
    case True
    with x(3) fb have "handleSocks5 con users c1 = Some (Inr (Accepted a d), c')" by simp
    from handleSocks5_sound [OF c1(4) this] show ?thesis
      using c1 fb True by (intro exI [of _ "[5, 0] @ socks_reply"]) (auto simp: client_asked_def socks_asked_def)
  next
    case False
    with x(3) fb have "handleHttp parse_uri mk con fb c1 = Some (Inr (Accepted a d), c')" by simp
    from handleHttp_asked [OF c1(4) this] show ?thesis
      using c1 fb False by (auto simp: client_asked_def)
  qed
qed

end

section \<open>Properties\<close>

text \<open>The \<open>k\<close>-th call of \<^verbatim>\<open>session()\<close> on an inbound receives the session of
  the \<open>k\<close>-th connection that yielded one, with its address and first data, whatever the
  interleaving of handlers and calls; connections that yield none leave no gap.\<close>

theorem inbound_sessions_in_order:
  "run_inbound parse_uri mk con (new_inbound users uuids) es = (ts, ib) \<Longrightarrow> k < session_calls es \<Longrightarrow>
   get_outcome (inb_sessions ib) (ts ! k) =
     (let ss = served_sessions (session_of parse_uri mk con users) es
      in if k < length ss then Some (Inr (ss ! k)) else None)"
  using channel.kth_get [of "inbound_ops (session_of parse_uri mk con users) es" ts "inb_sessions ib" k]
  by (auto simp: run_inbound_queue new_inbound_def run_queue_exec inbound_ops_counts Let_def split: prod.splits)

definition socks_script :: script where
  "socks_script = \<lparr>script_in = [[5, 1, 0, 5, 1, 0, 1, 1, 2, 3, 4, 0, 80], [9]], script_out = [], script_eof = True\<rparr>"

definition bad_script :: script where
  "bad_script = \<lparr>script_in = [[5, 1, 2]], script_out = [], script_eof = True\<rparr>"

definition sample_events :: "script inbound_event list" where
  "sample_events = [Session_Call, Served bad_script, Served socks_script]"

lemma run_sample_events:
  "run_inbound host_only (\<lambda>s. None) (TcpConnection script_lib) (new_inbound [] []) sample_events =
     ([Suspended 0], snd (run_inbound host_only (\<lambda>s. None) (TcpConnection script_lib) (new_inbound [] []) sample_events))"
  by code_simp

lemma sample_sessions:
  "served_sessions (session_of host_only (\<lambda>s. None) (TcpConnection script_lib) []) sample_events =
     [\<lparr>in_conn = \<lparr>script_in = [], script_out = [5, 0] @ socks_reply, script_eof = True\<rparr>,
       in_address = \<lparr>addr_host = Ip (IpV4 1 2 3 4), addr_port = 80\<rparr>, in_firstData = [9]\<rparr>]"
  by code_simp

theorem inbound_sessions_in_order_witness:
  "get_outcome (inb_sessions (snd (run_inbound host_only (\<lambda>s. None) (TcpConnection script_lib)
      (new_inbound [] []) sample_events))) (Suspended 0) =
   Some (Inr \<lparr>in_conn = \<lparr>script_in = [], script_out = [5, 0] @ socks_reply, script_eof = True\<rparr>,
       in_address = \<lparr>addr_host = Ip (IpV4 1 2 3 4), addr_port = 80\<rparr>, in_firstData = [9]\<rparr>)"
  using inbound_sessions_in_order [OF run_sample_events, of 0]
  by (simp add: sample_sessions) (simp add: sample_events_def)

text \<open>C35: an inbound without users, which is every inbound the program builds, handles any bytes on any
  connection without undefined behaviour.\<close>

theorem mixed_inbound_safe:
  "exact_reader con \<Longrightarrow> io_safe (MixedInbound_handle parse_uri mk con [])"
  by (rule exact_reader.MixedInbound_handle_safe)

theorem mixed_inbound_safe_witness:
  "io_safe (MixedInbound_handle host_only (\<lambda>s. None) (WsConnection ws_script_lib) [])"
  by (rule mixed_inbound_safe [OF scripted_ws.ws_exact.exact_reader_axioms])


definition sample_built :: "(nat, script) built_inbound" where
  "sample_built =
     \<lparr>bi_listener = Tcp_Listener (fst (TcpListener_mainWork no_messages (\<lambda>ep. None) id (TcpListener_new 0)
        [Socket bad_script, Socket socks_script])),
      bi_inbound = new_inbound [] []\<rparr>"



definition flaky_socks_client :: flaky where
  "flaky_socks_client = \<lparr>flaky_in = [Some [5, 1, 0, 5, 1, 0, 1, 1, 2, 3, 4], Some [0, 80, 9], Some [8], None, Some [7]],
     flaky_out = [], flaky_room = 20\<rparr>"

lemma flaky_socks_session:
  "MixedInbound_handle host_only (\<lambda>s. None) (TcpConnection flaky_lib) [] flaky_socks_client =
     Some (Inr (Accepted \<lparr>addr_host = Ip (IpV4 1 2 3 4), addr_port = 80\<rparr> [9, 8]),
       \<lparr>flaky_in = [None], flaky_out = [5, 0] @ socks_reply, flaky_room = 8\<rparr>)"
  by code_simp


end
