(* ===== verification/Outbound.thy ===== *)
theory Outbound
  imports Transport Mixed_Inbound
begin

text \<open>
  \<^verbatim>\<open>outbounds/*\<close>: the direct outbound and VLESS. A connection returned by a
  transport is driven through its virtual functions (\<open>con\<close>). \<open>parse_vless\<close> reads a
  VLESS request the way the protocol lays it out; the request the code writes is compared
  with it.
\<close>

section \<open>The outbounds\<close>

definition DirectOutbound_connect ::
  "(address \<Rightarrow> 'c awaited) \<Rightarrow> 'c connection \<Rightarrow> out_tcp_session \<Rightarrow> 'c awaited" where
  "DirectOutbound_connect transport con session =
     async_bind (transport (out_address session)) (\<lambda>conn.
       run_on (conn_write con (out_firstData session)) conn)"

definition vless_request :: "bytes \<Rightarrow> out_tcp_session \<Rightarrow> bytes result" where
  "vless_request uuid session =
     (let requestData = [0] @ uuid @ [0, 1]
      in bind_res (write_u16 requestData (addr_port (out_address session)) (-1)) (\<lambda>requestData.
         bind_res (case addr_host (out_address session) of
             Domain v \<Rightarrow>
               (let domainData = bytes_of_string v
                in bind_res (write_u8 requestData 2 (-1)) (\<lambda>requestData.
                   bind_res (write_u8 requestData (of_nat (length v)) (-1)) (\<lambda>requestData.
                   Inr (requestData @ domainData))))
           | Ip v \<Rightarrow>
               (if is_v4 v then bind_res (write_u8 requestData 1 (-1)) (\<lambda>requestData. Inr (requestData @ ip_to_bytes v))
                else bind_res (write_u8 requestData 3 (-1)) (\<lambda>requestData. Inr (requestData @ ip_to_bytes v))))
         (\<lambda>requestData. Inr (requestData @ out_firstData session))))"

definition vless_handshake :: "'c connection \<Rightarrow> bytes \<Rightarrow> out_tcp_session \<Rightarrow> ('c, unit) io" where
  "vless_handshake con uuid session =
     io_bind (io_lift (vless_request uuid session)) (\<lambda>requestData.
     io_bind (conn_write con requestData) (\<lambda>_.
     io_bind (conn_read_exactly con 2) (\<lambda>data.
     io_bind (io_lift (vec_at data 0)) (\<lambda>d0.
     if d0 \<noteq> 0 then io_throw ''vless fail to handshake'' else
     io_bind (io_lift (vec_at data 1)) (\<lambda>d1.
     if d1 \<noteq> 0 then io_throw ''vless fail to handshake'' else io_return ())))))"

definition VlessOutbound_connect ::
  "(address \<Rightarrow> 'c awaited) \<Rightarrow> 'c connection \<Rightarrow> address \<Rightarrow> bytes \<Rightarrow> out_tcp_session \<Rightarrow> 'c awaited" where
  "VlessOutbound_connect transport con server uuid session =
     async_bind (transport server) (\<lambda>conn. run_on (vless_handshake con uuid session) conn)"

section \<open>The VLESS request\<close>

text \<open>Version 0, the user's id, no addons, command TCP, the port, the address by its type.\<close>

fun parse_vless_host :: "bytes \<Rightarrow> (host \<times> bytes) option" where
  "parse_vless_host (t # bs) =
     (if t = 1 then
        (case bs of a # b # c # d # rest \<Rightarrow> Some (Ip (IpV4 a b c d), rest) | _ \<Rightarrow> None)
      else if t = 2 then
        (case bs of
           n # rest \<Rightarrow> if unat n \<le> length rest
                       then Some (Domain (string_of_bytes (take (unat n) rest)), drop (unat n) rest) else None
         | [] \<Rightarrow> None)
      else if t = 3 then
        (if 16 \<le> length bs then Some (Ip (IpV6 (take 16 bs)), drop 16 bs) else None)
      else None)"
| "parse_vless_host [] = None"

definition parse_vless :: "bytes \<Rightarrow> (bytes \<times> address \<times> bytes) option" where
  "parse_vless bs =
     (if 21 \<le> length bs \<and> bs ! 0 = 0 \<and> bs ! 17 = 0 \<and> bs ! 18 = 1 then
        (case parse_vless_host (drop 21 bs) of
           None \<Rightarrow> None
         | Some (h, rest) \<Rightarrow>
             Some (slice 1 16 bs, \<lparr>addr_host = h, addr_port = join_u16 (bs ! 19) (bs ! 20)\<rparr>, rest))
      else None)"

fun vless_host :: "host \<Rightarrow> bytes" where
  "vless_host (Domain d) = 2 # of_nat (length d) # bytes_of_string d"
| "vless_host (Ip (IpV4 a b c d)) = [1, a, b, c, d]"
| "vless_host (Ip (IpV6 bs)) = 3 # bs"

lemma vless_request_eq:
  "vless_request uuid session =
     Inr ([0] @ uuid @ [0, 1] @ be16 (addr_port (out_address session)) @
          vless_host (addr_host (out_address session)) @ out_firstData session)"
  by (cases "addr_host (out_address session)" rule: vless_host.cases) (simp_all add: vless_request_def)

lemma parse_vless_layout:
  assumes "length uuid = 16"
  shows "parse_vless ([0] @ uuid @ [0, 1] @ be16 p @ body) =
    (case parse_vless_host body of None \<Rightarrow> None | Some (h, rest) \<Rightarrow> Some (uuid, \<lparr>addr_host = h, addr_port = p\<rparr>, rest))"
proof -
  let ?bs = "[0] @ uuid @ [0, 1] @ be16 p @ body"
  have port: "?bs ! 19 = hi8 p" "?bs ! 20 = lo8 p"
    using assms by (simp_all add: nth_append be16_def)
  have fields: "21 \<le> length ?bs \<and> ?bs ! 0 = 0 \<and> ?bs ! 17 = 0 \<and> ?bs ! 18 = 1"
    using assms by (simp add: nth_append be16_def)
  have parts: "drop 21 ?bs = body" "slice 1 16 ?bs = uuid"
    using assms by (simp_all add: slice_def be16_def)
  show ?thesis by (simp only: parse_vless_def fields port parts simp_thms if_True join_hi8_lo8)
qed

lemma parse_vless_host_encode:
  "wf_socks_host h \<Longrightarrow> parse_vless_host (vless_host h @ rest) = Some (h, rest)"
  by (cases h rule: vless_host.cases) (simp_all add: unat_of_nat_u8)

text \<open>The length byte of a domain is its length modulo 256.\<close>

lemma parse_vless_host_domain:
  "parse_vless_host (vless_host (Domain d) @ rest) =
     Some (Domain (take (length d mod 256) d), bytes_of_string (drop (length d mod 256) d) @ rest)"
proof -
  have "unat (of_nat (length d) :: u8) = length d mod 256"
    by (simp add: unsigned_of_nat take_bit_eq_mod)
  moreover have "length d mod 256 \<le> length d" by simp
  ultimately show ?thesis by (simp add: take_map drop_map)
qed

context byte_peer
begin

lemma vless_handshake_ok:
  assumes "live c" "incoming c = [0, 0] @ rest" "vless_request uuid session = Inr req"
  shows "\<exists>c'. vless_handshake con uuid session c = Some (Inr (), c') \<and> incoming c' = rest \<and>
    outgoing c' = outgoing c @ req \<and> live c'"
proof -
  from write_obtain [OF assms(1), of req] obtain c1 where
    c1: "conn_write con req c = Some (Inr (), c1)" "incoming c1 = incoming c" "outgoing c1 = outgoing c @ req" "live c1"
    by blast
  from read_then [OF c1(4) c1(2) [unfolded assms(2)], of 2] obtain c2 where
    "conn_read_exactly con 2 c1 = Some (Inr [0, 0], c2)" "incoming c2 = rest" "outgoing c2 = outgoing c1" "live c2"
    by auto
  then show ?thesis using c1 assms(3) by (simp add: vless_handshake_def)
qed

lemma vless_handshake_refused:
  assumes "live c" "incoming c = [x, y] @ rest" "x \<noteq> 0 \<or> y \<noteq> 0" "vless_request uuid session = Inr req"
  shows "\<exists>c'. vless_handshake con uuid session c = Some (throw_error ''vless fail to handshake'', c')"
proof -
  from write_obtain [OF assms(1), of req] obtain c1 where
    c1: "conn_write con req c = Some (Inr (), c1)" "incoming c1 = incoming c" "live c1"
    by blast
  from read_then [OF c1(3) c1(2) [unfolded assms(2)], of 2] obtain c2 where
    "conn_read_exactly con 2 c1 = Some (Inr [x, y], c2)"
    by auto
  then show ?thesis using c1 assms(3,4) by (auto simp: vless_handshake_def)
qed

end

text \<open>And backwards: a handshake that succeeded has sent the request and taken the two bytes of acceptance.\<close>

context faithful_peer
begin

lemma vless_handshake_sound:
  assumes "live c" "vless_handshake con uuid session c = Some (Inr u, c')"
  shows "\<exists>req. vless_request uuid session = Inr req \<and> incoming c = [0, 0] @ incoming c' \<and>
    outgoing c' = outgoing c @ req \<and> live c'"
proof -
  from assms(2) obtain req c1 d where st: "vless_request uuid session = Inr req"
    "conn_write con req c = Some (Inr (), c1)" "conn_read_exactly con 2 c1 = Some (Inr d, c')" "d ! 0 = 0" "d ! 1 = 0"
    by (auto simp: vless_handshake_def vec_at_Inr_iff split: if_splits elim!: io_bind_InrE)
  from write_inv [OF assms(1) st(2)] have w: "incoming c1 = incoming c" "outgoing c1 = outgoing c @ req" "live c1" by simp_all
  from read_exactly_inv [OF w(3) st(3)] have r: "incoming c1 = d @ incoming c'" "length d = 2" "outgoing c' = outgoing c1" "live c'"
    by simp_all
  have "d = [0, 0]" using r(2) st(4,5) by (cases d; cases "tl d") auto
  then show ?thesis using st(1) w r by simp
qed

lemma VlessOutbound_connect_sound:
  assumes "VlessOutbound_connect transport con server uuid session = Some (Inr c')"
    and "\<And>c. transport server = Some (Inr c) \<Longrightarrow> live c"
  shows "\<exists>c req. transport server = Some (Inr c) \<and> vless_request uuid session = Inr req \<and>
    incoming c = [0, 0] @ incoming c' \<and> outgoing c' = outgoing c @ req \<and> live c'"
proof -
  from assms(1) obtain c u where c: "transport server = Some (Inr c)" "vless_handshake con uuid session c = Some (Inr u, c')"
    by (auto simp: VlessOutbound_connect_def async_bind_eq_Inr run_on_eq_Inr)
  from vless_handshake_sound [OF assms(2) [OF c(1)] c(2)] c(1) show ?thesis by blast
qed

lemma DirectOutbound_connect_sound:
  assumes "DirectOutbound_connect transport con session = Some (Inr c')"
    and "\<And>c. transport (out_address session) = Some (Inr c) \<Longrightarrow> live c"
  shows "\<exists>c. transport (out_address session) = Some (Inr c) \<and> incoming c' = incoming c \<and>
    outgoing c' = outgoing c @ out_firstData session \<and> live c'"
proof -
  from assms(1) obtain c where c: "transport (out_address session) = Some (Inr c)"
    "conn_write con (out_firstData session) c = Some (Inr (), c')"
    by (auto simp: DirectOutbound_connect_def async_bind_eq_Inr run_on_eq_Inr)
  from write_inv [OF assms(2) [OF c(1)] c(2)] c(1) show ?thesis by blast
qed

end

section \<open>Properties\<close>


definition sample_session :: out_tcp_session where
  "sample_session = \<lparr>out_address = \<lparr>addr_host = Domain ''a.io'', addr_port = 443\<rparr>, out_firstData = [1, 2]\<rparr>"


text \<open>Of a domain of 256 bytes or more only the first length modulo 256 bytes reach the server as the
  domain; the others arrive in front of the payload.\<close>

theorem vless_long_domain_truncated:
  "length uuid = 16 \<Longrightarrow> out_address session = \<lparr>addr_host = Domain d, addr_port = p\<rparr> \<Longrightarrow>
   \<exists>req. vless_request uuid session = Inr req \<and>
     parse_vless req = Some (uuid, \<lparr>addr_host = Domain (take (length d mod 256) d), addr_port = p\<rparr>,
       bytes_of_string (drop (length d mod 256) d) @ out_firstData session)"
  using parse_vless_host_domain [of d "out_firstData session"]
  by (simp add: vless_request_eq parse_vless_layout [simplified] del: parse_vless_host.simps)

theorem vless_long_domain_truncated_witness:
  "\<exists>req. vless_request (replicate 16 7)
      \<lparr>out_address = \<lparr>addr_host = Domain (replicate 256 (CHR ''a'')), addr_port = 80\<rparr>, out_firstData = [9]\<rparr> = Inr req \<and>
    parse_vless req = Some (replicate 16 7, \<lparr>addr_host = Domain [], addr_port = 80\<rparr>,
      replicate 256 (byte_of_char (CHR ''a'')) @ [9])"
  using vless_long_domain_truncated [of "replicate 16 7"
      "\<lparr>out_address = \<lparr>addr_host = Domain (replicate 256 (CHR ''a'')), addr_port = 80\<rparr>, out_firstData = [9]\<rparr>"
      "replicate 256 (CHR ''a'')" 80]
  by (simp only: out_tcp_session.simps length_replicate mod_self take_0 drop_0 map_replicate)

text \<open>C39: over any transport and any connection that keeps the contract, the VLESS outbound returns the
  connection exactly behind a server answer of two zero bytes, having sent the request and nothing else;
  any other answer is an error.\<close>

theorem vless_connect_handshake:
  assumes "byte_peer con incoming outgoing live pieces" "live c" "transport server = Some (Inr c)"
    and "incoming c = [x, y] @ rest" "vless_request uuid session = Inr req"
  shows "if x = 0 \<and> y = 0
    then \<exists>c'. VlessOutbound_connect transport con server uuid session = Some (Inr c') \<and>
      incoming c' = rest \<and> outgoing c' = outgoing c @ req \<and> live c'
    else VlessOutbound_connect transport con server uuid session = Some (throw_error ''vless fail to handshake'')"
proof (cases "x = 0 \<and> y = 0")
  case True
  with byte_peer.vless_handshake_ok [OF assms(1,2) _ assms(5), of rest] assms(3,4) show ?thesis
    by (auto simp: VlessOutbound_connect_def)
next
  case False
  with byte_peer.vless_handshake_refused [OF assms(1,2,4) _ assms(5)] assms(3) show ?thesis
    by (auto simp: VlessOutbound_connect_def)
qed

definition vless_server :: script where
  "vless_server = \<lparr>script_in = [[0], [0, 9]], script_out = [], script_eof = True\<rparr>"

theorem vless_connect_handshake_witness:
  "\<exists>c'. VlessOutbound_connect (\<lambda>a. Some (Inr vless_server)) (TlsConnection script_lib)
      sample_destination (replicate 16 7) sample_session = Some (Inr c') \<and> concat (script_in c') = [9]"
proof -
  obtain req where "vless_request (replicate 16 7) sample_session = Inr req"
    by (simp add: vless_request_eq)
  then show ?thesis
    using vless_connect_handshake [OF scripted.tls_con.byte_peer_axioms, of vless_server
        "\<lambda>a. Some (Inr vless_server)" sample_destination 0 0 "[9]" "replicate 16 7" sample_session req]
    by (auto simp: vless_server_def script_up_def)
qed

text \<open>The direct outbound sends exactly the session's first data on the connection to the session's
  address, and reads nothing.\<close>

theorem direct_connect_sends_first_data:
  assumes "byte_peer con incoming outgoing live pieces" "live c"
    and "transport (out_address session) = Some (Inr c)"
  shows "\<exists>c'. DirectOutbound_connect transport con session = Some (Inr c') \<and> incoming c' = incoming c \<and>
    outgoing c' = outgoing c @ out_firstData session \<and> live c'"
  using byte_peer.write_all [OF assms(1,2), of "out_firstData session"] assms(3)
  by (auto simp: DirectOutbound_connect_def)

theorem direct_connect_sends_first_data_witness:
  "\<exists>c'. DirectOutbound_connect (\<lambda>a. Some (Inr vless_server)) (TcpConnection script_lib) sample_session = Some (Inr c') \<and>
     script_out c' = [1, 2]"
  using direct_connect_sends_first_data [OF scripted.tcp_con.byte_peer_axioms, of vless_server
      "\<lambda>a. Some (Inr vless_server)" sample_session]
  by (auto simp: vless_server_def script_up_def sample_session_def)

end
