(* ===== verification/Builder.thy ===== *)
theory Builder
  imports Config Dns_Center Outbound Umap
begin

text \<open>
  \<^verbatim>\<open>common/builder.*\<close> and \<^verbatim>\<open>utils/file.cpp\<close>: from a configuration to the
  router, the outbounds, the inbounds and the DNS center. What the builder takes from outside
  is one record (\<open>build_lib\<close>): the JSON library, the compiler of regular expressions, the
  parser of IP addresses and the files; a file that cannot be opened reads as empty. The
  smart pointers it returns are the values they own.
\<close>

record ('o, 'v) build_lib =
  bl_json :: "('o, 'v) json_lib"
  bl_parse :: "string \<Rightarrow> 'v result"
  bl_files :: "string \<Rightarrow> string option"
  bl_regex :: "string \<Rightarrow> regex result"
  bl_address :: make_address

definition readFile :: "('o, 'v) build_lib \<Rightarrow> string \<Rightarrow> string" where
  "readFile lib path = (case bl_files lib path of None \<Rightarrow> '''' | Some content \<Rightarrow> content)"

definition parse_document :: "('o, 'v) build_lib \<Rightarrow> string \<Rightarrow> 'o result" where
  "parse_document lib content = bind_res (bl_parse lib content) (as_object (bl_json lib))"

record builder =
  bd_config :: app_config
  bd_ruleSets :: "(string, rule list) umap"

section \<open>Rules and rule sets\<close>

definition buildDomainRule :: "('o, 'v) build_lib \<Rightarrow> domain_rule_config \<Rightarrow> domain_rule result" where
  "buildDomainRule lib c =
     bind_res (map_res (bl_regex lib) (dc_domainRegex c)) (\<lambda>regexs.
     Inr \<lparr>dr_domain = dc_domain c, dr_domainSuffix = dc_domainSuffix c,
          dr_domainKeyword = dc_domainKeyword c, dr_domainRegex = regexs\<rparr>)"

definition buildRule :: "('o, 'v) build_lib \<Rightarrow> rule_config \<Rightarrow> rule result" where
  "buildRule lib c =
     bind_res (map_res (parseCidr (bl_address lib)) (ru_cidr c)) (\<lambda>networks.
     bind_res (buildDomainRule lib (ru_domainRule c)) (\<lambda>dr.
     Inr \<lparr>domainRule = dr, cidr = networks\<rparr>))"

text \<open>The body of the loop of \<^verbatim>\<open>loadRuleSets\<close>, without its last assignment.\<close>

definition load_rule_set :: "('o, 'v) build_lib \<Rightarrow> rule_set_config \<Rightarrow> rule list result" where
  "load_rule_set lib item =
     (if rs_type item = ''local'' then
        (let content = readFile lib (rs_path item)
         in if rs_format item = ''source'' then
              bind_res (parse_document lib content) (\<lambda>obj.
              bind_res (getArray (bl_json lib) obj ''rules'') (\<lambda>rulesArray.
              parse_objects (bl_json lib)
                (\<lambda>i. bind_res (parseRuleConfig (bl_json lib) i) (buildRule lib)) rulesArray))
            else throw_error ''unsupport rule set format'')
      else throw_error ''unsupport rule set type'')"

fun loadRuleSets ::
  "('o, 'v) build_lib \<Rightarrow> rule_set_config list \<Rightarrow> (string, rule list) umap \<Rightarrow> (string, rule list) umap result" where
  "loadRuleSets lib [] ruleSets = Inr ruleSets"
| "loadRuleSets lib (item # items) ruleSets =
     bind_res (load_rule_set lib item) (\<lambda>rs. loadRuleSets lib items (umap_assign ruleSets (rs_tag item) rs))"

definition Builder_new :: "('o, 'v) build_lib \<Rightarrow> app_config \<Rightarrow> builder result" where
  "Builder_new lib config =
     bind_res (loadRuleSets lib (rc_ruleSets (ap_router config)) []) (\<lambda>ruleSets.
     Inr \<lparr>bd_config = config, bd_ruleSets = ruleSets\<rparr>)"

definition find_rule_set :: "builder \<Rightarrow> string \<Rightarrow> rule list result" where
  "find_rule_set b tag =
     (case umap_find (bd_ruleSets b) tag of None \<Rightarrow> throw_error ''fail to find rule set'' | Some rs \<Rightarrow> Inr rs)"

definition buildRouteRule :: "('o, 'v) build_lib \<Rightarrow> builder \<Rightarrow> route_rule_config \<Rightarrow> route_rule result" where
  "buildRouteRule lib b c =
     bind_res (buildRule lib (rr_rule c)) (\<lambda>r.
     bind_res (map_res (find_rule_set b) (rr_rule_set c)) (\<lambda>rss.
     Inr \<lparr>rules = r # concat rss, outbound = rr_outbound c\<rparr>))"

definition buildRouter :: "('o, 'v) build_lib \<Rightarrow> builder \<Rightarrow> router result" where
  "buildRouter lib b =
     bind_res (map_res (buildRouteRule lib b) (rc_rules (ap_router (bd_config b)))) (\<lambda>rs.
     Inr \<lparr>router_rules = rs, router_final = rc_final (ap_router (bd_config b))\<rparr>)"

section \<open>The DNS center\<close>

definition buildDnsServer :: "('o, 'v) build_lib \<Rightarrow> dns_server_config \<Rightarrow> dns_server result" where
  "buildDnsServer lib c =
     (if ds_type c = ''udp'' then
        bind_res (make_address_throw (bl_address lib) (ds_server c)) (\<lambda>ip.
        Inr (Udp_Dns_Server \<lparr>ep_address = ip, ep_port = ds_server_port c\<rparr>))
      else if ds_type c = ''https'' then
        bind_res (make_address_throw (bl_address lib) (ds_server c)) (\<lambda>ip.
        Inr (Https_Dns_Server
          (HttpsDnsServer_new \<lparr>ep_address = ip, ep_port = ds_server_port c\<rparr> (ds_host c) (ds_path c)
             (tc_serverName (ds_tls c)) (tc_insecure (ds_tls c)))))
      else throw_error ''unsupport dns server type'')"

fun build_servers ::
  "('o, 'v) build_lib \<Rightarrow> dns_server_config list \<Rightarrow> (string, dns_server) umap \<Rightarrow> (string, dns_server) umap result" where
  "build_servers lib [] servers = Inr servers"
| "build_servers lib (item # items) servers =
     bind_res (buildDnsServer lib item) (\<lambda>s. build_servers lib items (umap_emplace servers (ds_tag item) s))"

text \<open>The DNS rules of one configured rule: those of its rule sets, then its own.\<close>

definition build_dns_rules :: "('o, 'v) build_lib \<Rightarrow> builder \<Rightarrow> dns_rule_config \<Rightarrow> dns_rule list result" where
  "build_dns_rules lib b item =
     bind_res (map_res (find_rule_set b) (du_rule_set item)) (\<lambda>rss.
     bind_res (buildDomainRule lib (du_rule item)) (\<lambda>r.
     Inr (map (\<lambda>v. \<lparr>dnr_rule = domainRule v, dnr_server = du_server item\<rparr>) (concat rss) @
          [\<lparr>dnr_rule = r, dnr_server = du_server item\<rparr>])))"

definition buildDnsCenter :: "('o, 'v) build_lib \<Rightarrow> builder \<Rightarrow> dns_server dns_center result" where
  "buildDnsCenter lib b =
     (let config = ap_dns (bd_config b)
      in bind_res (if dn_listen config \<noteq> '''' then
             bind_res (make_address_throw (bl_address lib) (dn_listen config)) (\<lambda>ip.
             Inr (Some \<lparr>ep_address = ip, ep_port = dn_listen_port config\<rparr>))
           else Inr None) (\<lambda>addr.
         bind_res (build_servers lib (dn_servers config) []) (\<lambda>servers.
         bind_res (map_res (build_dns_rules lib b) (dn_rules config)) (\<lambda>rss.
         Inr (DnsCenter_new addr (concat rss) servers (dn_final config))))))"

section \<open>Outbounds\<close>

datatype outbound_obj = Direct_Outbound | Vless_Outbound transport address bytes

definition buildAddress :: "('o, 'v) build_lib \<Rightarrow> string \<Rightarrow> u16 \<Rightarrow> address" where
  "buildAddress lib server port =
     (case bl_address lib server of
        None \<Rightarrow> \<lparr>addr_host = Domain server, addr_port = port\<rparr>
      | Some ip \<Rightarrow> \<lparr>addr_host = Ip ip, addr_port = port\<rparr>)"

definition uuid_byte :: "string \<Rightarrow> nat \<Rightarrow> u8 result" where
  "uuid_byte uuid i = bind_res (stoul 16 (slice (i * 2) 2 uuid)) (\<lambda>v. Inr (of_nat v))"

definition buildUuid :: "string \<Rightarrow> bytes result" where
  "buildUuid uuid =
     (let uuid = filter (\<lambda>c. c \<noteq> CHR ''-'') uuid
      in if length uuid \<noteq> 32 then throw_error ''error uuid''
         else map_res (uuid_byte uuid) [0..<16])"

definition buildTransport :: "outbound_config \<Rightarrow> transport result" where
  "buildTransport c =
     (if tr_type (ob_transport c) = '''' \<or> tr_type (ob_transport c) = ''tcp'' then
        (if tc_enabled (ob_tls c) then Inr (Tls_Transport (TlsTransport_new (tc_serverName (ob_tls c)) (tc_insecure (ob_tls c))))
         else Inr Tcp_Transport)
      else if tr_type (ob_transport c) = ''ws'' \<and> tc_enabled (ob_tls c) then
        Inr (Wss_Transport (WssTransport_new (tr_host (ob_transport c)) (tr_path (ob_transport c))
               (tc_serverName (ob_tls c)) (tc_insecure (ob_tls c))))
      else throw_error ''unsupport transport type'')"

definition buildOutbound :: "('o, 'v) build_lib \<Rightarrow> outbound_config \<Rightarrow> outbound_obj result" where
  "buildOutbound lib c =
     bind_res (buildTransport c) (\<lambda>transport.
     if ob_type c = ''direct'' then Inr Direct_Outbound
     else if ob_type c = ''vless'' then
       bind_res (buildUuid (ob_uuid c)) (\<lambda>uuid.
       Inr (Vless_Outbound transport (buildAddress lib (ob_server c) (ob_server_port c)) uuid))
     else throw_error ''unsupport outbound type'')"

section \<open>Inbounds\<close>

text \<open>Every listener is a plain TCP one; an inbound owns its listener.\<close>

definition buildListener :: "('o, 'v) build_lib \<Rightarrow> inbound_config \<Rightarrow> (endpoint, 'c) listener_obj result" where
  "buildListener lib c =
     bind_res (make_address_throw (bl_address lib) (in_listen c)) (\<lambda>ip.
     Inr (Tcp_Listener (TcpListener_new \<lparr>ep_address = ip, ep_port = in_listen_port c\<rparr>)))"

definition buildInbound :: "('o, 'v) build_lib \<Rightarrow> inbound_config \<Rightarrow> (endpoint, 'c) built_inbound result" where
  "buildInbound lib c =
     (if in_type c = ''mixed'' then
        bind_res (buildListener lib c) (\<lambda>l. Inr \<lparr>bi_listener = l, bi_inbound = new_inbound [] []\<rparr>)
      else throw_error ''unsupport inbound type'')"

section \<open>Well-formed rules\<close>

definition address_parser :: "make_address \<Rightarrow> bool" where
  "address_parser mk \<longleftrightarrow> (\<forall>s a. mk s = Some a \<longrightarrow> wf_ip a)"

lemma map_res_list_all: "map_res f xs = Inr ys \<Longrightarrow> (\<And>x y. f x = Inr y \<Longrightarrow> P y) \<Longrightarrow> list_all P ys"
  by (induction xs arbitrary: ys) auto

lemma buildRule_wf:
  assumes "buildRule lib c = Inr r" and "address_parser (bl_address lib)"
  shows "wf_rule r"
proof -
  obtain networks where "map_res (parseCidr (bl_address lib)) (ru_cidr c) = Inr networks" "cidr r = networks"
    using assms(1) by (auto simp: buildRule_def)
  then show ?thesis
    using assms(2) by (auto simp: wf_rule_def address_parser_def intro!: map_res_list_all intro: parseCidr_wf)
qed

lemma load_rule_set_wf:
  assumes "load_rule_set lib item = Inr rs" and "address_parser (bl_address lib)"
  shows "list_all wf_rule rs"
  using assms
  by (auto simp: load_rule_set_def list_all_iff Let_def split: if_splits
      elim!: parse_objects_all [where P = wf_rule] intro: buildRule_wf)

definition wf_rule_sets :: "(string, rule list) umap \<Rightarrow> bool" where
  "wf_rule_sets m \<longleftrightarrow> (\<forall>k rs. umap_find m k = Some rs \<longrightarrow> list_all wf_rule rs)"

lemma loadRuleSets_wf:
  "loadRuleSets lib items m = Inr m' \<Longrightarrow> address_parser (bl_address lib) \<Longrightarrow> wf_rule_sets m \<Longrightarrow> wf_rule_sets m'"
proof (induction lib items m rule: loadRuleSets.induct)
  case (2 lib item items m)
  then obtain rs where rs: "load_rule_set lib item = Inr rs"
    "loadRuleSets lib items (umap_assign m (rs_tag item) rs) = Inr m'" by auto
  moreover have "wf_rule_sets (umap_assign m (rs_tag item) rs)"
    using "2.prems"(3) load_rule_set_wf [OF rs(1) "2.prems"(2)] by (simp add: wf_rule_sets_def)
  ultimately show ?case using "2.IH" [OF rs(1)] rs(2) "2.prems"(2) by blast
qed simp

lemma Builder_new_wf:
  "Builder_new lib c = Inr b \<Longrightarrow> address_parser (bl_address lib) \<Longrightarrow> wf_rule_sets (bd_ruleSets b)"
  by (auto simp: Builder_new_def wf_rule_sets_def dest!: loadRuleSets_wf)

lemma find_rule_set_wf: "wf_rule_sets (bd_ruleSets b) \<Longrightarrow> find_rule_set b tag = Inr rs \<Longrightarrow> list_all wf_rule rs"
  by (auto simp: find_rule_set_def wf_rule_sets_def split: option.splits)

lemma list_all_concat: "list_all (list_all P) xss \<Longrightarrow> list_all P (concat xss)"
  by (induction xss) auto

lemma buildRouteRule_wf:
  assumes "buildRouteRule lib b c = Inr rr" and "address_parser (bl_address lib)" and "wf_rule_sets (bd_ruleSets b)"
  shows "wf_route_rule rr" and "outbound rr = rr_outbound c"
proof -
  obtain r rss where r: "buildRule lib (rr_rule c) = Inr r" "map_res (find_rule_set b) (rr_rule_set c) = Inr rss"
    and rr: "rr = \<lparr>rules = r # concat rss, outbound = rr_outbound c\<rparr>"
    using assms(1) by (auto simp: buildRouteRule_def)
  have "list_all (list_all wf_rule) rss"
    using r(2) by (rule map_res_list_all) (rule find_rule_set_wf [OF assms(3)])
  then show "wf_route_rule rr"
    using buildRule_wf [OF r(1) assms(2)] by (simp add: rr wf_route_rule_def list_all_concat)
  show "outbound rr = rr_outbound c" by (simp add: rr)
qed

lemma buildRouter_wf:
  assumes "buildRouter lib b = Inr r" and "address_parser (bl_address lib)" and "wf_rule_sets (bd_ruleSets b)"
  shows "wf_router r"
  using assms by (auto simp: buildRouter_def wf_router_def intro!: map_res_list_all intro: buildRouteRule_wf)

text \<open>The tags a built router can answer with.\<close>

lemma map_res_map: "map_res f xs = Inr ys \<Longrightarrow> (\<And>x y. f x = Inr y \<Longrightarrow> g y = h x) \<Longrightarrow> map g ys = map h xs"
  by (induction xs arbitrary: ys) auto

lemma buildRouter_tags:
  assumes "buildRouter lib b = Inr r"
  shows "map outbound (router_rules r) = map rr_outbound (rc_rules (ap_router (bd_config b)))"
    and "router_final r = rc_final (ap_router (bd_config b))"
  using assms by (auto simp: buildRouter_def buildRouteRule_def elim!: map_res_map)

lemma built_router_tag:
  assumes "Builder_new lib c = Inr b" and "buildRouter lib b = Inr r" and "address_parser (bl_address lib)"
  shows "\<exists>t. Router_match r a = Inr t \<and> (t = rc_final (ap_router c) \<or> t \<in> rr_outbound ` set (rc_rules (ap_router c)))"
proof -
  have c: "bd_config b = c" using assms(1) by (auto simp: Builder_new_def)
  have wf: "wf_router r"
    by (rule buildRouter_wf [OF assms(2,3) Builder_new_wf [OF assms(1,3)]])
  then obtain t where t: "Router_match r a = Inr t" by (simp add: Router_match_find)
  then have "t = router_final r \<or> t \<in> outbound ` set (router_rules r)" by (rule Router_match_outbound [OF wf])
  moreover have "outbound ` set (router_rules r) = rr_outbound ` set (rc_rules (ap_router c))"
    using arg_cong [OF buildRouter_tags(1) [OF assms(2)], of set] by (simp add: c)
  ultimately show ?thesis using t buildRouter_tags(2) [OF assms(2)] c by auto
qed

section \<open>Filling the maps\<close>

lemma loadRuleSets_fill:
  "loadRuleSets lib items m =
     bind_res (map_res (\<lambda>item. bind_res (load_rule_set lib item) (\<lambda>rs. Inr (rs_tag item, rs))) items) (\<lambda>kvs.
     Inr (umap.assign_all kvs m))"
  by (induction lib items m rule: loadRuleSets.induct) (auto simp: bind_res_assoc cong: bind_res_cong)

lemma build_servers_fill:
  "build_servers lib items m =
     bind_res (map_res (\<lambda>item. bind_res (buildDnsServer lib item) (\<lambda>s. Inr (ds_tag item, s))) items) (\<lambda>kvs.
     Inr (umap.emplace_all kvs m))"
  by (induction lib items m rule: build_servers.induct) (auto simp: bind_res_assoc cong: bind_res_cong)

lemma map_of_map_res:
  assumes "map_res (\<lambda>x. bind_res (f x) (\<lambda>v. Inr (key x, v))) xs = Inr kvs"
  shows "map_of kvs k = (case find (\<lambda>x. key x = k) xs of None \<Rightarrow> None | Some x \<Rightarrow> (case f x of Inr v \<Rightarrow> Some v | Inl e \<Rightarrow> None))"
  using assms by (induction xs arbitrary: kvs) auto

lemma map_res_rev:
  "map_res f xs = Inr ys \<Longrightarrow> map_res f (rev xs) = Inr (rev ys)"
  by (simp add: map_res_Inr_iff)

lemma rule_sets_last:
  assumes "Builder_new lib c = Inr b"
  shows "umap_find (bd_ruleSets b) k =
     (case find (\<lambda>x. rs_tag x = k) (rev (rc_ruleSets (ap_router c))) of
        None \<Rightarrow> None | Some x \<Rightarrow> (case load_rule_set lib x of Inr v \<Rightarrow> Some v | Inl e \<Rightarrow> None))"
proof -
  obtain kvs where kvs: "map_res (\<lambda>item. bind_res (load_rule_set lib item) (\<lambda>rs. Inr (rs_tag item, rs)))
        (rc_ruleSets (ap_router c)) = Inr kvs" "bd_ruleSets b = umap.assign_all kvs []"
    using assms by (auto simp: Builder_new_def loadRuleSets_fill)
  show ?thesis
    unfolding kvs(2) umap.fill_last by (rule map_of_map_res) (rule map_res_rev [OF kvs(1)])
qed

lemma servers_first:
  assumes "build_servers lib items [] = Inr m"
  shows "umap_find m k =
     (case find (\<lambda>x. ds_tag x = k) items of
        None \<Rightarrow> None | Some x \<Rightarrow> (case buildDnsServer lib x of Inr v \<Rightarrow> Some v | Inl e \<Rightarrow> None))"
proof -
  obtain kvs where kvs: "map_res (\<lambda>item. bind_res (buildDnsServer lib item) (\<lambda>s. Inr (ds_tag item, s))) items = Inr kvs"
    "m = umap.emplace_all kvs []"
    using assms by (auto simp: build_servers_fill)
  show ?thesis
    unfolding kvs(2) umap.fill_first by (rule map_of_map_res) (rule kvs(1))
qed

lemma dns_servers_first:
  assumes "Builder_new lib c = Inr b" and "buildDnsCenter lib b = Inr dc"
  shows "umap_find (dc_servers dc) k =
     (case find (\<lambda>x. ds_tag x = k) (dn_servers (ap_dns c)) of
        None \<Rightarrow> None | Some x \<Rightarrow> (case buildDnsServer lib x of Inr v \<Rightarrow> Some v | Inl e \<Rightarrow> None))"
proof -
  have "bd_config b = c" using assms(1) by (auto simp: Builder_new_def)
  with assms(2) have "build_servers lib (dn_servers (ap_dns c)) [] = Inr (dc_servers dc)"
    by (auto simp: buildDnsCenter_def DnsCenter_new_def Let_def)
  then show ?thesis by (rule servers_first)
qed

section \<open>UUIDs\<close>

definition hex_byte :: "u8 \<Rightarrow> string" where
  "hex_byte b = [digit_char (unat b div 16), digit_char (unat b mod 16)]"

definition print_uuid :: "bytes \<Rightarrow> string" where
  "print_uuid bs =
     concat (map hex_byte (take 4 bs)) @ ''-'' @ concat (map hex_byte (slice 4 2 bs)) @ ''-'' @
     concat (map hex_byte (slice 6 2 bs)) @ ''-'' @ concat (map hex_byte (slice 8 2 bs)) @ ''-'' @
     concat (map hex_byte (drop 10 bs))"

lemma digit_char_no_dash: "d < 16 \<Longrightarrow> digit_char d \<noteq> CHR ''-''"
  using digit_not_special [OF is_digit_of_digit_char, of d 16] by simp

lemma filter_hex: "filter (\<lambda>c. c \<noteq> CHR ''-'') (concat (map hex_byte bs)) = concat (map hex_byte bs)"
  by (induction bs) (simp_all add: hex_byte_def digit_char_no_dash less_mult_imp_div_less)

lemma length_hex: "length (concat (map hex_byte bs)) = 2 * length bs"
  by (induction bs) (simp_all add: hex_byte_def)

lemma slice_hex: "i < length bs \<Longrightarrow> slice (i * 2) 2 (concat (map hex_byte bs)) = hex_byte (bs ! i)"
proof (induction bs arbitrary: i)
  case (Cons b bs)
  then show ?case
    by (cases i) (simp_all add: slice_def hex_byte_def)
qed simp

lemma uuid_byte_hex: "i < length bs \<Longrightarrow> uuid_byte (concat (map hex_byte bs)) i = Inr (bs ! i)"
proof -
  assume i: "i < length bs"
  have "stoul 16 (hex_byte (bs ! i)) = Inr (16 * (unat (bs ! i) div 16) + unat (bs ! i) mod 16)"
    unfolding hex_byte_def by (rule stoul_hex_pair) (simp_all add: less_mult_imp_div_less)
  then show ?thesis using i by (simp add: uuid_byte_def slice_hex)
qed

lemma buildUuid_print: "length bs = 16 \<Longrightarrow> buildUuid (print_uuid bs) = Inr bs"
proof -
  assume l: "length bs = 16"
  have "take 4 bs @ slice 4 2 bs @ slice 6 2 bs @ slice 8 2 bs @ drop 10 bs = bs"
    using l drop_eq_slice [of 4 2 bs] drop_eq_slice [of 6 2 bs] drop_eq_slice [of 8 2 bs] append_take_drop_id [of 4 bs]
    by simp
  then have "filter (\<lambda>c. c \<noteq> CHR ''-'') (print_uuid bs) = concat (map hex_byte bs)"
    unfolding print_uuid_def filter_append filter_hex by (simp flip: concat_append map_append)
  moreover have "map_res (uuid_byte (concat (map hex_byte bs))) [0..<16] = Inr (map ((!) bs) [0..<16])"
    by (rule map_res_total) (simp add: uuid_byte_hex l)
  moreover have "map ((!) bs) [0..<16] = bs" using map_nth [of bs] l by simp
  ultimately show ?thesis by (simp add: buildUuid_def length_hex l del: upt_conv_Cons upt_rec_numeral)
qed

text \<open>The router depends on its own part of the configuration only.\<close>

lemma buildRouter_cong:
  "bd_ruleSets b = bd_ruleSets b' \<Longrightarrow> ap_router (bd_config b) = ap_router (bd_config b') \<Longrightarrow> buildRouter lib b = buildRouter lib b'"
proof -
  assume "bd_ruleSets b = bd_ruleSets b'" and r: "ap_router (bd_config b) = ap_router (bd_config b')"
  then have "find_rule_set b = find_rule_set b'" by (simp add: fun_eq_iff find_rule_set_def)
  then have "buildRouteRule lib b = buildRouteRule lib b'" by (simp only: fun_eq_iff [of "buildRouteRule lib b"] buildRouteRule_def simp_thms)
  with r show ?thesis by (simp add: buildRouter_def)
qed

section \<open>A sample library and configuration\<close>

definition sample_lib :: "((string \<times> json_value) list, json_value) build_lib" where
  "sample_lib =
     \<lparr>bl_json = json_plain,
      bl_parse = (\<lambda>s. if s = ''S'' then
          Inr (JObject [(''rules'', JArray [JObject [(''domain'', JString ''x.y'')]])]) else Inl (Raised Json_Error)),
      bl_files = (\<lambda>p. if p = ''s.json'' then Some ''S'' else None),
      bl_regex = (\<lambda>r. Inr (\<lambda>s. s = r)),
      bl_address = (\<lambda>s. if s = ''::'' then Some (IpV6 (replicate 16 0))
          else if s = ''127.0.0.1'' then Some (IpV4 127 0 0 1) else None)\<rparr>"

lemma sample_lib_addresses: "address_parser (bl_address sample_lib)"
  by (simp add: address_parser_def sample_lib_def)

definition plain_rule :: "string \<Rightarrow> string list \<Rightarrow> string \<Rightarrow> route_rule_config" where
  "plain_rule d sets tag =
     \<lparr>rr_rule = \<lparr>ru_domainRule = \<lparr>dc_domain = [d], dc_domainSuffix = [], dc_domainKeyword = [], dc_domainRegex = []\<rparr>,
                 ru_cidr = []\<rparr>,
      rr_rule_set = sets, rr_outbound = tag\<rparr>"

definition direct_config :: "string \<Rightarrow> outbound_config" where
  "direct_config tag =
     \<lparr>ob_tag = tag, ob_type = ''direct'', ob_server = [], ob_server_port = 0,
      ob_user = \<lparr>up_username = [], up_password = []\<rparr>, ob_uuid = [],
      ob_tls = \<lparr>tc_enabled = False, tc_insecure = False, tc_serverName = []\<rparr>,
      ob_transport = \<lparr>tr_type = [], tr_path = [], tr_host = []\<rparr>\<rparr>"

definition ruled_config :: app_config where
  "ruled_config =
     \<lparr>ap_inbounds = [], ap_outbounds = [direct_config ''d''],
      ap_router =
        \<lparr>rc_rules = [plain_rule ''a.b'' [''set''] ''d''],
         rc_ruleSets = [\<lparr>rs_tag = ''set'', rs_type = ''local'', rs_path = ''s.json'', rs_format = ''source''\<rparr>],
         rc_final = ''d''\<rparr>,
      ap_dns = \<lparr>dn_listen = [], dn_listen_port = 0, dn_servers = [], dn_rules = [], dn_final = []\<rparr>\<rparr>"

definition domains_rule :: "string \<Rightarrow> rule" where
  "domains_rule d =
     \<lparr>domainRule = \<lparr>dr_domain = [d], dr_domainSuffix = [], dr_domainKeyword = [], dr_domainRegex = []\<rparr>, cidr = []\<rparr>"

definition ruled_builder :: builder where
  "ruled_builder = \<lparr>bd_config = ruled_config, bd_ruleSets = [(''set'', [domains_rule ''x.y''])]\<rparr>"

lemma ruled_set: "load_rule_set sample_lib \<lparr>rs_tag = ''set'', rs_type = ''local'', rs_path = ''s.json'', rs_format = ''source''\<rparr> =
    Inr [domains_rule ''x.y'']"
  by (simp add: load_rule_set_def readFile_def parse_document_def sample_lib_def json_plain_def getArray_def
      parse_objects_def parseRuleConfig_def parseDomainRuleConfig_def getStringList_def buildRule_def
      buildDomainRule_def domains_rule_def)

lemma ruled_builder_new: "Builder_new sample_lib ruled_config = Inr ruled_builder"
  using ruled_set by (simp add: Builder_new_def ruled_builder_def ruled_config_def umap_assign_def)

definition ruled_router :: router where
  "ruled_router =
     \<lparr>router_rules = [\<lparr>rules = [domains_rule ''a.b'', domains_rule ''x.y''], outbound = ''d''\<rparr>], router_final = ''d''\<rparr>"

lemma ruled_router_built: "buildRouter sample_lib ruled_builder = Inr ruled_router"
  by (simp add: buildRouter_def ruled_builder_def ruled_config_def buildRouteRule_def plain_rule_def buildRule_def
      buildDomainRule_def find_rule_set_def umap_find_def ruled_router_def domains_rule_def)

section \<open>Properties\<close>

text \<open>A router that the builder returns is well-formed, so every match on it returns without undefined
  behaviour: whatever the rules, the rule sets and the files they come from, each address is answered with the
  configured final tag or with the outbound tag of a configured rule.\<close>

theorem buildRouter_answers:
  assumes "Builder_new lib c = Inr b" and "buildRouter lib b = Inr r" and "address_parser (bl_address lib)"
  shows "\<exists>t. Router_match r a = Inr t \<and> (t = rc_final (ap_router c) \<or> t \<in> rr_outbound ` set (rc_rules (ap_router c)))"
  by (rule built_router_tag [OF assms])

theorem buildRouter_answers_witness:
  "\<exists>t. Router_match ruled_router \<lparr>addr_host = Domain ''q'', addr_port = 1\<rparr> = Inr t \<and>
     (t = rc_final (ap_router ruled_config) \<or> t \<in> rr_outbound ` set (rc_rules (ap_router ruled_config)))"
  by (rule buildRouter_answers [OF ruled_builder_new ruled_router_built sample_lib_addresses])

text \<open>When two rule sets of a configuration have one tag the last one is in force, while of two DNS servers
  with one tag the first one is; and a tag that occurs nowhere in the configuration is not found.\<close>

theorem duplicate_tags:
  assumes "Builder_new lib c = Inr b" and "buildDnsCenter lib b = Inr dc"
  shows "umap_find (bd_ruleSets b) k =
       (case find (\<lambda>x. rs_tag x = k) (rev (rc_ruleSets (ap_router c))) of
          None \<Rightarrow> None | Some x \<Rightarrow> (case load_rule_set lib x of Inr rs \<Rightarrow> Some rs | Inl e \<Rightarrow> None)) \<and>
     umap_find (dc_servers dc) k =
       (case find (\<lambda>x. ds_tag x = k) (dn_servers (ap_dns c)) of
          None \<Rightarrow> None | Some x \<Rightarrow> (case buildDnsServer lib x of Inr s \<Rightarrow> Some s | Inl e \<Rightarrow> None))"
  by (rule conjI [OF rule_sets_last [OF assms(1)] dns_servers_first [OF assms]])

lemma ruled_center_built: "buildDnsCenter sample_lib ruled_builder = Inr (DnsCenter_new None [] [] [])"
  by (simp add: buildDnsCenter_def ruled_builder_def ruled_config_def)

theorem duplicate_tags_witness: "umap_find (bd_ruleSets ruled_builder) ''set'' = Some [domains_rule ''x.y'']"
  using duplicate_tags [OF ruled_builder_new ruled_center_built, of "''set''"] ruled_set by (simp add: ruled_config_def)

text \<open>C37: a UUID in its usual form of 32 hexadecimal digits in groups of 8, 4, 4, 4 and 12 is read as the 16
  bytes it prints.\<close>

theorem uuid_roundtrip: "length bs = 16 \<Longrightarrow> buildUuid (print_uuid bs) = Inr bs"
  by (rule buildUuid_print)

theorem uuid_roundtrip_witness: "buildUuid (print_uuid (replicate 16 0xab)) = Inr (replicate 16 0xab)"
  by (rule uuid_roundtrip) simp

text \<open>When an outbound is built: the transport must be TCP, with or without TLS, or a WebSocket over TLS, for
  every type of outbound, a direct one included, which then does not use it; a VLESS outbound also needs a valid
  UUID, and its server is an IP address exactly when its name parses as one.\<close>

theorem buildOutbound_iff:
  "buildOutbound lib c = Inr ob \<longleftrightarrow>
     (\<exists>tr. buildTransport c = Inr tr \<and>
        (ob_type c = ''direct'' \<and> ob = Direct_Outbound \<or>
         ob_type c = ''vless'' \<and> (\<exists>uuid. buildUuid (ob_uuid c) = Inr uuid \<and>
           ob = Vless_Outbound tr
             \<lparr>addr_host = (case bl_address lib (ob_server c) of None \<Rightarrow> Domain (ob_server c) | Some ip \<Rightarrow> Ip ip),
              addr_port = ob_server_port c\<rparr> uuid)))"
  "(\<exists>tr. buildTransport c = Inr tr) \<longleftrightarrow>
     tr_type (ob_transport c) \<in> {[], ''tcp''} \<or> tr_type (ob_transport c) = ''ws'' \<and> tc_enabled (ob_tls c)"
  by (auto simp: buildOutbound_def buildAddress_def buildTransport_def bind_res_eq_Inr split: option.splits if_splits)

text \<open>No inbound that the builder returns asks for credentials: the user names, passwords and UUIDs of its
  configuration are dropped, so its handler runs the SOCKS5 negotiation without authentication.\<close>

theorem built_inbounds_are_open:
  assumes "buildInbound lib c = Inr bi"
  shows "inb_users (bi_inbound bi) = [] \<and> inb_uuids (bi_inbound bi) = []"
    and "\<And>users uuids. buildInbound lib (c\<lparr>in_users := users, in_uuids := uuids\<rparr>) = Inr bi"
  using assms by (auto simp: buildInbound_def buildListener_def new_inbound_def bind_res_eq_Inr split: if_splits)

theorem built_inbounds_are_open_witness:
  "buildInbound sample_lib ((hd (ap_inbounds sample_config)) \<lparr>in_users := [], in_uuids := [''u'']\<rparr>) =
     Inr \<lparr>bi_listener = Tcp_Listener (TcpListener_new \<lparr>ep_address = IpV4 127 0 0 1, ep_port = 1080\<rparr>), bi_inbound = new_inbound [] []\<rparr>"
  by (rule built_inbounds_are_open(2))
    (simp add: buildInbound_def buildListener_def sample_config_def sample_lib_def make_address_throw_def)

end
