(* ===== verification/Relay.thy ===== *)
theory Relay
  imports Log
begin

text \<open>
  \<^verbatim>\<open>connections/relay.cpp\<close>: two coroutines copy between two connections, one each
  way, and \<^verbatim>\<open>relay\<close> waits on a timer that either of them cancels when it ends. The
  three coroutines are steps of one state. A direction remembers the bytes it has read and
  the bytes the other connection has taken; a write that fails may have taken a part.
\<close>

section \<open>One direction\<close>

datatype phase = Reading | Writing bytes | Over

record direction =
  dir_phase :: phase
  dir_received :: bytes
  dir_sent :: bytes

definition new_direction :: direction where
  "new_direction = \<lparr>dir_phase = Reading, dir_received = [], dir_sent = []\<rparr>"

text \<open>What the pending read or write of a direction can come back with.\<close>

datatype io_event = Read_Ok bytes | Read_Err exn | Write_Ok | Write_Err nat exn

text \<open>
  The loop body of \<^verbatim>\<open>forward\<close>: the direction after the event, and the exception it
  caught, if the event ends the loop. An event that does not fit the pending operation does
  not happen (\<open>None\<close>).
\<close>

fun forward_step :: "direction \<Rightarrow> io_event \<Rightarrow> (direction \<times> exn option) option" where
  "forward_step d ev =
     (case (dir_phase d, ev) of
        (Reading, Read_Ok data) \<Rightarrow> Some (d\<lparr>dir_phase := Writing data, dir_received := dir_received d @ data\<rparr>, None)
      | (Reading, Read_Err e) \<Rightarrow> Some (d\<lparr>dir_phase := Over\<rparr>, Some e)
      | (Writing data, Write_Ok) \<Rightarrow> Some (d\<lparr>dir_phase := Reading, dir_sent := dir_sent d @ data\<rparr>, None)
      | (Writing data, Write_Err n e) \<Rightarrow> Some (d\<lparr>dir_phase := Over, dir_sent := dir_sent d @ take n data\<rparr>, Some e)
      | _ \<Rightarrow> None)"

declare forward_step.simps [simp del]

section \<open>The relay\<close>

datatype relay_main = Relay_Waiting | Relay_Returned "unit result"

record relay =
  dir_1 :: direction
  dir_2 :: direction
  relay_cancelled :: bool
  relay_main :: relay_main
  relay_log :: "string list"

definition start_relay :: relay where
  "start_relay =
     \<lparr>dir_1 = new_direction, dir_2 = new_direction, relay_cancelled = False, relay_main = Relay_Waiting,
      relay_log = []\<rparr>"

text \<open>What follows the loop of \<^verbatim>\<open>forward\<close>: the log line, and the timer.\<close>

definition end_forward :: "messages \<Rightarrow> exn option \<Rightarrow> relay \<Rightarrow> relay" where
  "end_forward ms err s =
     (case err of
        None \<Rightarrow> s
      | Some e \<Rightarrow> s\<lparr>relay_log := relay_log s @ log_error ms ''tcp forward'' e, relay_cancelled := True\<rparr>)"

text \<open>The awaited timer was cancelled: \<^verbatim>\<open>async_wait\<close> throws.\<close>

definition relay_resume :: "relay \<Rightarrow> relay" where
  "relay_resume s = s\<lparr>relay_main := Relay_Returned (Inl (Raised (System_Error Operation_Aborted)))\<rparr>"

inductive relay_step :: "messages \<Rightarrow> relay \<Rightarrow> relay \<Rightarrow> bool" for ms where
  forward_1: "forward_step (dir_1 s) ev = Some (d, err) \<Longrightarrow> relay_step ms s (end_forward ms err (s\<lparr>dir_1 := d\<rparr>))"
| forward_2: "forward_step (dir_2 s) ev = Some (d, err) \<Longrightarrow> relay_step ms s (end_forward ms err (s\<lparr>dir_2 := d\<rparr>))"
| resume: "relay_cancelled s \<Longrightarrow> relay_main s = Relay_Waiting \<Longrightarrow> relay_step ms s (relay_resume s)"

inductive relay_reachable :: "messages \<Rightarrow> relay \<Rightarrow> bool" for ms where
  start: "relay_reachable ms start_relay"
| step: "relay_reachable ms s \<Longrightarrow> relay_step ms s s' \<Longrightarrow> relay_reachable ms s'"

inductive_cases relay_stepE: "relay_step ms s s'"

section \<open>The invariant\<close>

definition dir_inv :: "direction \<Rightarrow> bool" where
  "dir_inv d \<longleftrightarrow>
     (case dir_phase d of
        Reading \<Rightarrow> dir_received d = dir_sent d
      | Writing data \<Rightarrow> dir_received d = dir_sent d @ data
      | Over \<Rightarrow> prefix (dir_sent d) (dir_received d))"

definition relay_inv :: "relay \<Rightarrow> bool" where
  "relay_inv s \<longleftrightarrow>
     dir_inv (dir_1 s) \<and> dir_inv (dir_2 s) \<and>
     (relay_cancelled s \<longleftrightarrow> dir_phase (dir_1 s) = Over \<or> dir_phase (dir_2 s) = Over) \<and>
     (case relay_main s of
        Relay_Waiting \<Rightarrow> True
      | Relay_Returned r \<Rightarrow> relay_cancelled s \<and> r = Inl (Raised (System_Error Operation_Aborted)))"

lemma forward_step_inv:
  "forward_step d ev = Some (d', err) \<Longrightarrow> dir_inv d \<Longrightarrow>
   dir_inv d' \<and> (dir_phase d' = Over \<longleftrightarrow> err \<noteq> None) \<and> dir_phase d \<noteq> Over"
  by (auto simp: forward_step.simps dir_inv_def take_is_prefix split: phase.splits io_event.splits)

lemma relay_inv_start: "relay_inv start_relay"
  by (simp add: relay_inv_def start_relay_def new_direction_def dir_inv_def)

lemma relay_inv_step: "relay_step ms s s' \<Longrightarrow> relay_inv s \<Longrightarrow> relay_inv s'"
  by (erule relay_stepE)
    (auto simp: relay_inv_def end_forward_def relay_resume_def split: option.splits relay_main.splits
      dest!: forward_step_inv)

lemma relay_inv_reachable: "relay_reachable ms s \<Longrightarrow> relay_inv s"
  by (induction rule: relay_reachable.induct) (auto intro: relay_inv_start relay_inv_step)

text \<open>A direction grows only: bytes read and bytes sent are never taken back or reordered.\<close>

lemma forward_step_grows:
  "forward_step d ev = Some (d', err) \<Longrightarrow>
   prefix (dir_received d) (dir_received d') \<and> prefix (dir_sent d) (dir_sent d')"
  by (auto simp: forward_step.simps split: phase.splits io_event.splits)

text \<open>A finite run as a function of its events; \<open>True\<close> names the first direction.\<close>

fun run_relay :: "messages \<Rightarrow> (bool \<times> io_event) list \<Rightarrow> relay \<Rightarrow> relay" where
  "run_relay ms [] s = (if relay_cancelled s \<and> relay_main s = Relay_Waiting then relay_resume s else s)"
| "run_relay ms ((first, ev) # es) s =
     (case forward_step (if first then dir_1 s else dir_2 s) ev of
        None \<Rightarrow> run_relay ms es s
      | Some (d, err) \<Rightarrow>
          run_relay ms es (end_forward ms err (if first then s\<lparr>dir_1 := d\<rparr> else s\<lparr>dir_2 := d\<rparr>)))"

lemma run_relay_reachable: "relay_reachable ms s \<Longrightarrow> relay_reachable ms (run_relay ms es s)"
proof (induction ms es s rule: run_relay.induct)
  case (1 ms s)
  then show ?case by (auto intro: relay_reachable.step relay_step.resume)
next
  case (2 ms first ev es s)
  show ?case
  proof (cases "forward_step (if first then dir_1 s else dir_2 s) ev")
    case None
    with 2 show ?thesis by simp
  next
    case (Some p)
    obtain d err where p: "p = (d, err)" by (cases p)
    have "relay_step ms s (end_forward ms err (if first then s\<lparr>dir_1 := d\<rparr> else s\<lparr>dir_2 := d\<rparr>))"
      using Some p by (auto intro: relay_step.forward_1 relay_step.forward_2)
    then have "relay_reachable ms (end_forward ms err (if first then s\<lparr>dir_1 := d\<rparr> else s\<lparr>dir_2 := d\<rparr>))"
      by (rule relay_reachable.step [OF 2(3)])
    with 2(2) [OF Some p [symmetric]] show ?thesis using Some p by simp
  qed
qed

section \<open>Properties\<close>

text \<open>At every moment each direction has delivered, in order and unchanged, exactly what it read,
  but for the one chunk it is writing; a direction that ended has delivered a prefix.\<close>

theorem relay_copies_faithfully:
  "relay_reachable ms s \<Longrightarrow> d \<in> {dir_1 s, dir_2 s} \<Longrightarrow>
   (case dir_phase d of
      Reading \<Rightarrow> dir_received d = dir_sent d
    | Writing data \<Rightarrow> dir_received d = dir_sent d @ data
    | Over \<Rightarrow> prefix (dir_sent d) (dir_received d))"
  using relay_inv_reachable [of ms s] by (auto simp: relay_inv_def dir_inv_def)

definition quiet :: messages where
  "quiet = \<lparr>code_message = (\<lambda>c. ''''), exn_what = (\<lambda>e. '''')\<rparr>"

definition sample_relay :: relay where
  "sample_relay = run_relay quiet
     [(True, Read_Ok [1, 2]), (False, Read_Ok [7]), (True, Write_Ok), (False, Write_Err 0 (System_Error Eof))] start_relay"

lemma sample_relay_reachable: "relay_reachable quiet sample_relay"
  unfolding sample_relay_def by (intro run_relay_reachable relay_reachable.start)

lemma sample_relay_state:
  "dir_1 sample_relay = \<lparr>dir_phase = Reading, dir_received = [1, 2], dir_sent = [1, 2]\<rparr>"
  "dir_phase (dir_2 sample_relay) = Over"
  "relay_main sample_relay = Relay_Returned (Inl (Raised (System_Error Operation_Aborted)))"
  by code_simp+

theorem relay_copies_faithfully_witness:
  "dir_received (dir_1 sample_relay) = dir_sent (dir_1 sample_relay)"
  using relay_copies_faithfully [OF sample_relay_reachable, of "dir_1 sample_relay"] sample_relay_state(1) by simp

text \<open>The relay returns only after a direction has ended, always by the aborted wait, which prints
  nothing; and as soon as one has ended it can return.\<close>

theorem relay_returns_when_over:
  "relay_reachable ms s \<Longrightarrow>
   (relay_main s = Relay_Waiting \<and>
      (dir_phase (dir_1 s) = Over \<or> dir_phase (dir_2 s) = Over \<longrightarrow> relay_step ms s (relay_resume s))) \<or>
   (relay_main s = Relay_Returned (Inl (Raised (System_Error Operation_Aborted))) \<and>
      (dir_phase (dir_1 s) = Over \<or> dir_phase (dir_2 s) = Over) \<and>
      log_error ms m (System_Error Operation_Aborted) = [])"
  using relay_inv_reachable [of ms s]
  by (cases "relay_main s") (auto simp: relay_inv_def log_error_def intro: relay_step.resume)

theorem relay_returns_when_over_witness:
  "dir_phase (dir_1 sample_relay) = Over \<or> dir_phase (dir_2 sample_relay) = Over"
  using relay_returns_when_over [OF sample_relay_reachable] sample_relay_state(3) by auto

text \<open>The end of one direction does not end the other: there is a reachable state in which the relay
  has returned and the other direction is still reading, and it can go on.\<close>

theorem relay_leaves_other_direction:
  "\<exists>s s'. relay_reachable ms s \<and> relay_main s \<noteq> Relay_Waiting \<and> dir_phase (dir_2 s) = Over \<and>
     dir_phase (dir_1 s) = Reading \<and> relay_step ms s s' \<and> dir_phase (dir_1 s') = Writing data"
proof -
  let ?s = "run_relay ms [(False, Read_Err (System_Error Eof))] start_relay"
  have "relay_reachable ms ?s" by (intro run_relay_reachable relay_reachable.start)
  moreover have "relay_main ?s \<noteq> Relay_Waiting" "dir_phase (dir_2 ?s) = Over" "dir_phase (dir_1 ?s) = Reading"
    by (simp_all add: start_relay_def new_direction_def forward_step.simps end_forward_def relay_resume_def)
  moreover from this(3) have "forward_step (dir_1 ?s) (Read_Ok data) =
      Some (dir_1 ?s\<lparr>dir_phase := Writing data, dir_received := dir_received (dir_1 ?s) @ data\<rparr>, None)"
    by (simp add: forward_step.simps)
  from relay_step.forward_1 [OF this, of ms] have "relay_step ms ?s (end_forward ms None (?s\<lparr>dir_1 :=
      dir_1 ?s\<lparr>dir_phase := Writing data, dir_received := dir_received (dir_1 ?s) @ data\<rparr>\<rparr>))" .
  moreover have "dir_phase (dir_1 (end_forward ms None (?s\<lparr>dir_1 :=
      dir_1 ?s\<lparr>dir_phase := Writing data, dir_received := dir_received (dir_1 ?s) @ data\<rparr>\<rparr>))) = Writing data"
    by (simp add: end_forward_def)
  ultimately show ?thesis by blast
qed

end
