(* ===== verification/Sniff.thy ===== *)
theory Sniff
  imports Prelude
begin

text \<open>
  \<^verbatim>\<open>sniff/sniff.cpp\<close>: the server name of a TLS ClientHello. The function is cut at
  its early returns into the stages record and handshake header, session id, cipher
  suites, compression methods, extension block, extension loop and name loop; each takes
  the cursor \<open>p\<close> of the code. The grammar below (\<open>client_hello\<close>) is what the result
  is compared with. \<^verbatim>\<open>&data[q]\<close> indexes the vector, so it needs \<open>q\<close> inside it.
\<close>

section \<open>The function\<close>

function sniff_names :: "bytes \<Rightarrow> nat \<Rightarrow> nat \<Rightarrow> string result" where
  "sniff_names data q stop =
     (if q + 3 \<le> stop then
        bind_res (vec_at data q) (\<lambda>nameType.
        let q = q + 1 in
        bind_res (vec_at data q) (\<lambda>a.
        bind_res (vec_at data (q + 1)) (\<lambda>b.
        let nameLen = join_size a b; q = q + 2 in
        if q + nameLen > stop then Inr []
        else if nameType = 0 then
          bind_res (vec_at data q) (\<lambda>first. Inr (string_of_bytes (slice q nameLen data)))
        else sniff_names data (q + nameLen) stop)))
      else Inr [])"
  by pat_completeness auto
termination
  by (relation "measure (\<lambda>(data, q, stop). stop - q)") auto

declare sniff_names.simps [simp del]

function sniff_extensions :: "bytes \<Rightarrow> nat \<Rightarrow> nat \<Rightarrow> string result" where
  "sniff_extensions data p stop =
     (if p + 4 \<le> stop then
        bind_res (vec_at data p) (\<lambda>a.
        bind_res (vec_at data (p + 1)) (\<lambda>b.
        bind_res (vec_at data (p + 2)) (\<lambda>c.
        bind_res (vec_at data (p + 3)) (\<lambda>d.
        let ext_type = join_u16 a b; len = join_size c d; p = p + 4 in
        if p + len > stop then Inr []
        else if ext_type = 0 then
          (if len < 2 then Inr []
           else let q = p in
             bind_res (vec_at data q) (\<lambda>x.
             bind_res (vec_at data (q + 1)) (\<lambda>y.
             let listLen = join_size x y; q = q + 2 in
             if q + listLen > p + len then Inr []
             else sniff_names data q (p + len))))
        else sniff_extensions data (p + len) stop))))
      else Inr [])"
  by pat_completeness auto
termination
  by (relation "measure (\<lambda>(data, p, stop). stop - p)") auto

declare sniff_extensions.simps [simp del]

definition sniff_extension_block :: "bytes \<Rightarrow> nat \<Rightarrow> string result" where
  "sniff_extension_block data p =
     (if p + 2 > length data then Inr []
      else bind_res (vec_at data p) (\<lambda>a.
           bind_res (vec_at data (p + 1)) (\<lambda>b.
           let extensionsLen = join_size a b; p = p + 2 in
           if p + extensionsLen > length data then Inr []
           else sniff_extensions data p (p + extensionsLen))))"

definition sniff_compression :: "bytes \<Rightarrow> nat \<Rightarrow> string result" where
  "sniff_compression data p =
     (if length data \<le> p then Inr []
      else bind_res (vec_at data p) (\<lambda>compressionLen.
           let p = p + 1 in
           if p + unat compressionLen > length data then Inr []
           else sniff_extension_block data (p + unat compressionLen)))"

definition sniff_ciphers :: "bytes \<Rightarrow> nat \<Rightarrow> string result" where
  "sniff_ciphers data p =
     (if p + 2 > length data then Inr []
      else bind_res (vec_at data p) (\<lambda>a.
           bind_res (vec_at data (p + 1)) (\<lambda>b.
           let cipherLen = join_size a b; p = p + 2 in
           if p + cipherLen > length data then Inr []
           else sniff_compression data (p + cipherLen))))"

definition sniff_session :: "bytes \<Rightarrow> nat \<Rightarrow> string result" where
  "sniff_session data p =
     (if length data \<le> p then Inr []
      else bind_res (vec_at data p) (\<lambda>sessionIdLen.
           let p = p + 1 in
           if p + unat sessionIdLen > length data then Inr []
           else sniff_ciphers data (p + unat sessionIdLen)))"

definition join_size24 :: "u8 \<Rightarrow> u8 \<Rightarrow> u8 \<Rightarrow> nat" where
  "join_size24 a b c = unat ((push_bit 16 (ucast a) OR push_bit 8 (ucast b) OR ucast c) :: u64)"

definition sniffDomain :: "bytes \<Rightarrow> string result" where
  "sniffDomain data =
     (if length data < 5 then Inr []
      else bind_res (vec_at data 0) (\<lambda>d0.
           bind_res (vec_at data 1) (\<lambda>d1.
      if d0 \<noteq> 0x16 \<or> d1 \<noteq> 0x03 then Inr []
      else bind_res (vec_at data 3) (\<lambda>d3.
           bind_res (vec_at data 4) (\<lambda>d4.
      let recordLen = join_size d3 d4 in
      if recordLen + 5 > length data then Inr []
      else let p = 5 in
      if p + 4 > length data then Inr []
      else bind_res (vec_at data p) (\<lambda>t.
      if t \<noteq> 0x01 then Inr []
      else bind_res (vec_at data (p + 1)) (\<lambda>a.
           bind_res (vec_at data (p + 2)) (\<lambda>b.
           bind_res (vec_at data (p + 3)) (\<lambda>c.
      let helloLen = join_size24 a b c; p = p + 4 in
      if p + helloLen > length data then Inr []
      else if p + 2 + 32 > length data then Inr []
      else let p = p + 2; p = p + 32 in sniff_session data p)))))))))"

section \<open>Where the function leaves its buffer\<close>

text \<open>
  The function leaves its buffer in one situation only: an empty host name at the very
  end of the data, where the address of the first character is that of no element.
\<close>

definition ends_in_empty_name :: "bytes \<Rightarrow> bool" where
  "ends_in_empty_name data \<longleftrightarrow> suffix [0, 0, 0] data"

definition safe_or_empty_name :: "bytes \<Rightarrow> string result \<Rightarrow> bool" where
  "safe_or_empty_name data r \<longleftrightarrow>
     (\<forall>f. r = Inl f \<longrightarrow> f = UB Out_Of_Bounds \<and> ends_in_empty_name data)"

lemma safe_Inr [simp]: "safe_or_empty_name data (Inr s)"
  by (simp add: safe_or_empty_name_def)

lemma safe_bind_at:
  "i < length data \<Longrightarrow> safe_or_empty_name data (f (data ! i)) \<Longrightarrow>
   safe_or_empty_name data (bind_res (vec_at data i) f)"
  by simp

lemma join_size_0: "join_size a b = 0 \<longleftrightarrow> a = 0 \<and> b = 0"
  by (auto simp: join_size_eq unat_eq_0)

lemma suffix3: "q + 3 = length data \<Longrightarrow> suffix [data ! q, data ! (q + 1), data ! (q + 2)] data"
proof -
  assume q: "q + 3 = length data"
  then have "drop q data = [data ! q, data ! (q + 1), data ! (q + 2)]"
    by (simp flip: Cons_nth_drop_Suc)
  then show ?thesis by (metis suffix_drop)
qed

lemma safe_sniff_names: "stop \<le> length data \<Longrightarrow> safe_or_empty_name data (sniff_names data q stop)"
proof (induction "stop - q" arbitrary: q rule: less_induct)
  case less
  show ?case
  proof (cases "q + 3 \<le> stop")
    case False
    then show ?thesis by (simp add: sniff_names.simps [of data q])
  next
    case True
    let ?n = "join_size (data ! (q + 1)) (data ! (q + 1 + 1))"
    have eq: "sniff_names data q stop =
        (if q + 1 + 2 + ?n > stop then Inr []
         else if data ! q = 0 then
           bind_res (vec_at data (q + 1 + 2)) (\<lambda>first. Inr (string_of_bytes (slice (q + 1 + 2) ?n data)))
         else sniff_names data (q + 1 + 2 + ?n) stop)"
      using True less.prems by (subst sniff_names.simps) (simp add: Let_def)
    show ?thesis
    proof (cases "q + 1 + 2 + ?n > stop \<or> data ! q \<noteq> 0")
      case True
      then show ?thesis using less by (auto simp: eq)
    next
      case False
      show ?thesis
      proof (cases "q + 3 < length data")
        case True
        with False show ?thesis by (simp add: eq)
      next
        case at_end: False
        with True less.prems have len: "q + 3 = length data" by simp
        with False less.prems have "?n = 0" by simp
        with False suffix3 [OF len] have "ends_in_empty_name data"
          by (simp add: join_size_0 ends_in_empty_name_def)
        with False len show ?thesis by (simp add: eq safe_or_empty_name_def)
      qed
    qed
  qed
qed

lemma safe_sniff_extensions:
  "stop \<le> length data \<Longrightarrow> safe_or_empty_name data (sniff_extensions data p stop)"
proof (induction "stop - p" arbitrary: p rule: less_induct)
  case less
  then show ?case
    by (subst sniff_extensions.simps) (auto simp: Let_def intro!: safe_sniff_names)
qed

lemma safe_sniff_extension_block: "safe_or_empty_name data (sniff_extension_block data p)"
  by (auto simp: sniff_extension_block_def Let_def intro!: safe_sniff_extensions)

lemma safe_sniff_compression: "safe_or_empty_name data (sniff_compression data p)"
  by (auto simp: sniff_compression_def Let_def safe_sniff_extension_block)

lemma safe_sniff_ciphers: "safe_or_empty_name data (sniff_ciphers data p)"
  by (auto simp: sniff_ciphers_def Let_def safe_sniff_compression)

lemma safe_sniff_session: "safe_or_empty_name data (sniff_session data p)"
  by (auto simp: sniff_session_def Let_def safe_sniff_ciphers)

text \<open>The header checks in one condition.\<close>

definition hello_header :: "bytes \<Rightarrow> bool" where
  "hello_header data \<longleftrightarrow>
     43 \<le> length data \<and> data ! 0 = 0x16 \<and> data ! 1 = 0x03 \<and>
     join_size (data ! 3) (data ! 4) + 5 \<le> length data \<and>
     data ! 5 = 0x01 \<and>
     9 + join_size24 (data ! 6) (data ! 7) (data ! 8) \<le> length data"

lemma sniffDomain_header:
  "sniffDomain data = (if hello_header data then sniff_session data 43 else Inr [])"
proof (cases "length data < 9")
  case True
  then show ?thesis
    by (cases "data = []"; cases "length data < 5")
      (auto simp: sniffDomain_def hello_header_def Let_def)
next
  case False
  then have "data \<noteq> []" by auto
  with False show ?thesis
    by (auto simp: sniffDomain_def hello_header_def Let_def)
qed

lemma safe_sniffDomain: "safe_or_empty_name data (sniffDomain data)"
  by (simp add: sniffDomain_header safe_sniff_session)

section \<open>The grammar of a ClientHello\<close>

text \<open>
  A ClientHello in one record, as RFC 8446 and RFC 6066 lay it out: every vector behind
  its length. Server names are pairs of a name type and a name; type 0 is a host name.
\<close>

datatype extension = Server_Name "(u8 \<times> bytes) list" | Other_Extension u16 bytes

record client_hello =
  ch_minor :: u8
  ch_version :: bytes
  ch_random :: bytes
  ch_session :: bytes
  ch_ciphers :: bytes
  ch_compression :: bytes
  ch_extensions :: "extension list"

definition size16 :: "bytes \<Rightarrow> bytes" where
  "size16 bs = [hi8 (of_nat (length bs)), lo8 (of_nat (length bs))]"

definition size24 :: "bytes \<Rightarrow> bytes" where
  "size24 bs = [of_nat (length bs div 65536), of_nat (length bs div 256), of_nat (length bs)]"

definition encode_names :: "(u8 \<times> bytes) list \<Rightarrow> bytes" where
  "encode_names ns = concat (map (\<lambda>(t, n). t # size16 n @ n) ns)"

fun encode_extension :: "extension \<Rightarrow> bytes" where
  "encode_extension (Server_Name ns) =
     (let l = encode_names ns; d = size16 l @ l in [0, 0] @ size16 d @ d)"
| "encode_extension (Other_Extension t d) = [hi8 t, lo8 t] @ size16 d @ d"

definition encode_extensions :: "extension list \<Rightarrow> bytes" where
  "encode_extensions es = concat (map encode_extension es)"

definition hello_body :: "client_hello \<Rightarrow> bytes" where
  "hello_body ch =
     ch_version ch @ ch_random ch @
     of_nat (length (ch_session ch)) # ch_session ch @
     size16 (ch_ciphers ch) @ ch_ciphers ch @
     of_nat (length (ch_compression ch)) # ch_compression ch @
     size16 (encode_extensions (ch_extensions ch)) @ encode_extensions (ch_extensions ch)"

definition encode_hello :: "client_hello \<Rightarrow> bytes" where
  "encode_hello ch =
     (let body = hello_body ch; hs = 1 # size24 body @ body
      in [0x16, 3, ch_minor ch] @ size16 hs @ hs)"

definition wf_names :: "(u8 \<times> bytes) list \<Rightarrow> bool" where
  "wf_names ns \<longleftrightarrow> list_all (\<lambda>(t, n). n \<noteq> []) ns"

fun wf_extension :: "extension \<Rightarrow> bool" where
  "wf_extension (Server_Name ns) = wf_names ns"
| "wf_extension (Other_Extension t d) = (t \<noteq> 0)"

text \<open>The record length bounds every vector inside.\<close>

definition wf_hello :: "client_hello \<Rightarrow> bool" where
  "wf_hello ch \<longleftrightarrow>
     length (ch_version ch) = 2 \<and> length (ch_random ch) = 32 \<and>
     length (ch_session ch) < 256 \<and> length (ch_compression ch) < 256 \<and>
     list_all wf_extension (ch_extensions ch) \<and>
     length (hello_body ch) + 4 < 65536"

fun first_host_name :: "(u8 \<times> bytes) list \<Rightarrow> bytes" where
  "first_host_name [] = []"
| "first_host_name ((t, n) # ns) = (if t = 0 then n else first_host_name ns)"

fun server_name :: "extension list \<Rightarrow> bytes" where
  "server_name [] = []"
| "server_name (Server_Name ns # es) = first_host_name ns"
| "server_name (Other_Extension t d # es) = server_name es"

section \<open>Reading back\<close>

lemma join_size_size16:
  "length bs < 65536 \<Longrightarrow> join_size (hi8 (of_nat (length bs))) (lo8 (of_nat (length bs))) = length bs"
  by (simp add: unat_of_nat_u16)

lemma length_size16 [simp]: "length (size16 bs) = 2"
  by (simp add: size16_def)

lemma length_size24 [simp]: "length (size24 bs) = 3"
  by (simp add: size24_def)

lemma nth_pre:
  "(pre @ x # xs) ! length pre = x"
  "(pre @ x # y # xs) ! (length pre + 1) = y"
  "(pre @ x # y # z # xs) ! (length pre + 2) = z"
  "(pre @ x # y # z # w # xs) ! (length pre + 3) = w"
  by (simp_all add: nth_append)

text \<open>One entry of the name list, and one extension, on data that holds them.\<close>

lemma sniff_names_step:
  assumes "q + 3 \<le> stop" "stop \<le> length data"
  shows "sniff_names data q stop =
    (let n = join_size (data ! (q + 1)) (data ! (q + 2))
     in if q + 3 + n > stop then Inr []
        else if data ! q = 0 then
          (if q + 3 < length data then Inr (string_of_bytes (slice (q + 3) n data))
           else undefined_behaviour Out_Of_Bounds)
        else sniff_names data (q + 3 + n) stop)"
proof -
  have offs: "q + 1 + 1 = q + 2" "q + 1 + 2 = q + 3" by simp_all
  have lt: "q < length data" "q + 1 < length data" "q + 2 < length data" using assms by simp_all
  show ?thesis
    by (subst sniff_names.simps)
      (simp only: assms(1) if_True vec_at_in [OF lt(1)] vec_at_in [OF lt(2)] vec_at_in [OF lt(3)]
        offs bind_res_simps Let_def, simp add: vec_at_def)
qed

lemma sniff_extensions_step:
  assumes "p + 4 \<le> stop" "stop \<le> length data"
  shows "sniff_extensions data p stop =
    (let n = join_size (data ! (p + 2)) (data ! (p + 3))
     in if p + 4 + n > stop then Inr []
        else if join_u16 (data ! p) (data ! (p + 1)) = 0 then
          (if n < 2 then Inr []
           else let l = join_size (data ! (p + 4)) (data ! (p + 5))
                in if p + 6 + l > p + 4 + n then Inr []
                   else sniff_names data (p + 6) (p + 4 + n))
        else sniff_extensions data (p + 4 + n) stop)"
proof -
  have offs: "p + 4 + 1 = p + 5" "p + 4 + 2 = p + 6" by simp_all
  have lt: "p < length data" "p + 1 < length data" "p + 2 < length data" "p + 3 < length data"
    using assms by simp_all
  show ?thesis
    by (subst sniff_extensions.simps)
      (simp only: assms(1) if_True vec_at_in [OF lt(1)] vec_at_in [OF lt(2)] vec_at_in [OF lt(3)]
        vec_at_in [OF lt(4)] offs bind_res_simps Let_def, use assms(2) in \<open>auto simp: vec_at_def\<close>)
qed

lemma sniff_names_encode:
  assumes "wf_names ns" "length (encode_names ns) < 65536"
  shows "sniff_names (pre @ encode_names ns @ post) (length pre) (length pre + length (encode_names ns))
    = Inr (string_of_bytes (first_host_name ns))"
  using assms
proof (induction ns arbitrary: pre)
  case Nil
  then show ?case by (simp add: encode_names_def sniff_names.simps)
next
  case (Cons tn ns)
  obtain t n where tn: "tn = (t, n)" by (cases tn)
  let ?rest = "encode_names ns @ post"
  let ?d = "pre @ t # size16 n @ n @ ?rest"
  let ?stop = "length pre + length (encode_names (tn # ns))"
  have enc: "encode_names (tn # ns) = t # size16 n @ n @ encode_names ns"
    by (simp add: encode_names_def tn)
  have d: "pre @ encode_names (tn # ns) @ post = ?d" by (simp add: enc)
  have len: "length n < 65536" and lens: "length (encode_names ns) < 65536"
    using Cons.prems(2) by (simp_all add: enc)
  have n: "n \<noteq> []" "wf_names ns" using Cons.prems(1) by (simp_all add: wf_names_def tn)
  have nth: "?d ! length pre = t" "?d ! (length pre + 1) = hi8 (of_nat (length n))"
    "?d ! (length pre + 2) = lo8 (of_nat (length n))"
    using nth_pre [of pre] by (simp_all add: size16_def)
  have sl: "slice (length pre + 3) (length n) ?d = n"
  proof -
    have "slice (length (pre @ t # size16 n)) (length n) ((pre @ t # size16 n) @ n @ ?rest) = n"
      by (subst slice_append0) simp
    then show ?thesis by simp
  qed
  have fits: "length pre + 3 \<le> ?stop" "?stop \<le> length ?d"
    "\<not> length pre + 3 + length n > ?stop" "length pre + 3 < length ?d"
    using n(1) by (simp_all add: enc)
  have rec: "sniff_names ?d (length pre + 3 + length n) ?stop = Inr (string_of_bytes (first_host_name ns))"
  proof -
    have len3: "length (pre @ t # size16 n @ n) = length pre + 3 + length n" by simp
    have stop: "?stop = length pre + 3 + length n + length (encode_names ns)" by (simp add: enc)
    show ?thesis
      using Cons.IH [OF n(2) lens, of "pre @ t # size16 n @ n"]
      by (simp only: len3 stop append_assoc append_Cons)
  qed
  show ?case
    unfolding d sniff_names_step [OF fits(1,2)] nth join_size_size16 [OF len] Let_def sl rec
    using fits(3,4) by (simp add: tn)
qed

lemma sniff_extension_miss:
  assumes "t \<noteq> 0" "length d < 65536" "stop = length pre + 4 + length d + k" "k \<le> length post"
  shows "sniff_extensions (pre @ [hi8 t, lo8 t] @ size16 d @ d @ post) (length pre) stop =
         sniff_extensions (pre @ [hi8 t, lo8 t] @ size16 d @ d @ post) (length pre + 4 + length d) stop"
proof -
  let ?d = "pre @ [hi8 t, lo8 t] @ size16 d @ d @ post"
  have nth: "?d ! length pre = hi8 t" "?d ! (length pre + 1) = lo8 t"
    "?d ! (length pre + 2) = hi8 (of_nat (length d))" "?d ! (length pre + 3) = lo8 (of_nat (length d))"
    using nth_pre [of pre] by (simp_all add: size16_def)
  have fits: "length pre + 4 \<le> stop" "stop \<le> length ?d" "\<not> length pre + 4 + length d > stop"
    using assms(3,4) by simp_all
  show ?thesis
    unfolding sniff_extensions_step [OF fits(1,2)] nth join_size_size16 [OF assms(2)] Let_def
    using fits(3) assms(1) by simp
qed

lemma sniff_extension_hit:
  assumes "wf_names ns" "length (encode_names ns) + 2 < 65536"
    and "stop = length pre + length (encode_extension (Server_Name ns)) + k" "k \<le> length post"
  shows "sniff_extensions (pre @ encode_extension (Server_Name ns) @ post) (length pre) stop =
         Inr (string_of_bytes (first_host_name ns))"
proof -
  let ?l = "encode_names ns"
  let ?e = "size16 ?l @ ?l"
  let ?d = "pre @ 0 # 0 # size16 ?e @ ?e @ post"
  have d: "pre @ encode_extension (Server_Name ns) @ post = ?d" by (simp add: Let_def)
  have el: "length ?e = length ?l + 2" "length ?e < 65536" using assms(2) by simp_all
  have nth4: "?d ! length pre = 0" "?d ! (length pre + 1) = 0"
    "?d ! (length pre + 2) = hi8 (of_nat (length ?e))" "?d ! (length pre + 3) = lo8 (of_nat (length ?e))"
    using nth_pre [of pre] by (simp_all add: size16_def)
  have nth6: "?d ! (length pre + 4) = hi8 (of_nat (length ?l))" "?d ! (length pre + 5) = lo8 (of_nat (length ?l))"
    using nth_pre(1,2) [of "pre @ 0 # 0 # size16 ?e"] by (simp_all add: size16_def)
  have fits: "length pre + 4 \<le> stop" "stop \<le> length ?d" "\<not> length pre + 4 + length ?e > stop"
    "\<not> length ?e < 2" "\<not> length pre + 6 + length ?l > length pre + 4 + length ?e"
    using assms(3,4) by (simp_all add: Let_def)
  have j0: "join_u16 0 0 = 0" by (simp add: join_u16_def)
  have names: "sniff_names ?d (length pre + 6) (length pre + 4 + length ?e) = Inr (string_of_bytes (first_host_name ns))"
    using sniff_names_encode [OF assms(1), of "pre @ 0 # 0 # size16 ?e @ size16 ?l" post] assms(2)
    by (simp add: ac_simps)
  have ll: "length ?l < 65536" using assms(2) by simp
  show ?thesis
    unfolding d sniff_extensions_step [OF fits(1,2)] nth4 nth6 join_size_size16 [OF el(2)]
      join_size_size16 [OF ll] Let_def j0 names
    using fits(3-) by simp
qed

lemma sniff_extensions_encode:
  assumes "list_all wf_extension es" "length (encode_extensions es) < 65536"
  shows "sniff_extensions (pre @ encode_extensions es @ post) (length pre) (length pre + length (encode_extensions es))
    = Inr (string_of_bytes (server_name es))"
  using assms
proof (induction es arbitrary: pre)
  case Nil
  then show ?case by (simp add: encode_extensions_def sniff_extensions.simps)
next
  case (Cons e es)
  have enc: "encode_extensions (e # es) = encode_extension e @ encode_extensions es"
    by (simp add: encode_extensions_def)
  let ?stop = "length pre + length (encode_extensions (e # es))"
  show ?case
  proof (cases e)
    case (Server_Name ns)
    then have ns: "wf_names ns" "length (encode_names ns) + 2 < 65536"
      using Cons.prems unfolding enc unfolding Server_Name by (simp_all add: Let_def)
    show ?thesis
      using sniff_extension_hit [OF ns, of ?stop pre "length (encode_extensions es)" "encode_extensions es @ post"]
      by (simp add: enc [unfolded Server_Name] Server_Name del: encode_extension.simps)
  next
    case (Other_Extension t d)
    then have t: "t \<noteq> 0" "length d < 65536" "length (encode_extensions es) < 65536" "list_all wf_extension es"
      using Cons.prems unfolding enc unfolding Other_Extension by simp_all
    have "sniff_extensions (pre @ encode_extensions (e # es) @ post) (length pre) ?stop =
        sniff_extensions (pre @ encode_extensions (e # es) @ post) (length pre + 4 + length d) ?stop"
      using sniff_extension_miss [OF t(1,2), of ?stop pre "length (encode_extensions es)" "encode_extensions es @ post"]
      by (simp add: enc [unfolded Other_Extension] Other_Extension)
    then show ?thesis
      using Cons.IH [OF t(4,3), of "pre @ encode_extension e"]
      by (simp add: enc [unfolded Other_Extension] Other_Extension eval_nat_numeral ac_simps)
  qed
qed

text \<open>The stages before the extensions, each on data that holds its field.\<close>

lemma sniff_extension_block_encode:
  assumes "list_all wf_extension es" "length (encode_extensions es) < 65536"
  shows "sniff_extension_block (pre @ size16 (encode_extensions es) @ encode_extensions es @ post) (length pre)
    = Inr (string_of_bytes (server_name es))"
proof -
  let ?e = "encode_extensions es"
  let ?d = "pre @ size16 ?e @ ?e @ post"
  have at: "vec_at ?d (length pre) = Inr (hi8 (of_nat (length ?e)))"
    "vec_at ?d (length pre + 1) = Inr (lo8 (of_nat (length ?e)))"
    using nth_pre(1,2) [of pre] by (simp_all add: vec_at_def size16_def)
  have fits: "\<not> length pre + 2 > length ?d" "\<not> length pre + 2 + length ?e > length ?d" by simp_all
  have "sniff_extensions ?d (length pre + 2) (length pre + 2 + length ?e) = Inr (string_of_bytes (server_name es))"
    using sniff_extensions_encode [OF assms, of "pre @ size16 ?e" post] by simp
  then show ?thesis
    by (simp only: sniff_extension_block_def at fits if_False bind_res_simps Let_def join_size_size16 [OF assms(2)])
qed

lemma sniff_compression_step:
  assumes "length c < 256"
  shows "sniff_compression (pre @ of_nat (length c) # c @ post) (length pre) =
         sniff_extension_block (pre @ of_nat (length c) # c @ post) (length (pre @ of_nat (length c) # c))"
  using unat_of_nat_u8 [OF assms] by (simp add: sniff_compression_def Let_def)

lemma sniff_session_step:
  assumes "length c < 256"
  shows "sniff_session (pre @ of_nat (length c) # c @ post) (length pre) =
         sniff_ciphers (pre @ of_nat (length c) # c @ post) (length (pre @ of_nat (length c) # c))"
  using unat_of_nat_u8 [OF assms] by (simp add: sniff_session_def Let_def)

lemma sniff_ciphers_step:
  assumes "length c < 65536"
  shows "sniff_ciphers (pre @ size16 c @ c @ post) (length pre) =
         sniff_compression (pre @ size16 c @ c @ post) (length (pre @ size16 c @ c))"
proof -
  let ?d = "pre @ size16 c @ c @ post"
  have at: "vec_at ?d (length pre) = Inr (hi8 (of_nat (length c)))"
    "vec_at ?d (length pre + 1) = Inr (lo8 (of_nat (length c)))"
    using nth_pre(1,2) [of pre] by (simp_all add: vec_at_def size16_def)
  have fits: "\<not> length pre + 2 > length ?d" "\<not> length pre + 2 + length c > length ?d" by simp_all
  have "length (pre @ size16 c @ c) = length pre + 2 + length c" by simp
  then show ?thesis
    by (simp only: sniff_ciphers_def at fits if_False bind_res_simps Let_def join_size_size16 [OF assms])
qed

lemma sniff_session_encode:
  assumes "wf_hello ch" "length pre = 43"
  shows "sniff_session (pre @ drop 34 (hello_body ch) @ post) 43 = Inr (string_of_bytes (server_name (ch_extensions ch)))"
proof -
  let ?s = "ch_session ch" and ?c = "ch_ciphers ch" and ?m = "ch_compression ch"
  let ?e = "encode_extensions (ch_extensions ch)"
  let ?S = "of_nat (length ?s) # ?s" and ?C = "size16 ?c @ ?c" and ?M = "of_nat (length ?m) # ?m"
    and ?E = "size16 ?e @ ?e"
  have body: "drop 34 (hello_body ch) = ?S @ ?C @ ?M @ ?E" "length (hello_body ch) = 34 + length (?S @ ?C @ ?M @ ?E)"
    using assms(1) by (simp_all add: hello_body_def wf_hello_def)
  have wf: "length ?s < 256" "length ?c < 65536" "length ?m < 256" "length ?e < 65536"
    "list_all wf_extension (ch_extensions ch)"
    using assms(1) body(2) by (simp_all add: wf_hello_def)
  let ?d = "pre @ ?S @ ?C @ ?M @ ?E @ post"
  have "sniff_session ?d (length pre) = sniff_ciphers ?d (length (pre @ ?S))"
    using sniff_session_step [OF wf(1), of pre "?C @ ?M @ ?E @ post"] by simp
  also have "\<dots> = sniff_compression ?d (length (pre @ ?S @ ?C))"
    using sniff_ciphers_step [OF wf(2), of "pre @ ?S" "?M @ ?E @ post"] by simp
  also have "\<dots> = sniff_extension_block ?d (length (pre @ ?S @ ?C @ ?M))"
    using sniff_compression_step [OF wf(3), of "pre @ ?S @ ?C" "?E @ post"] by simp
  also have "\<dots> = Inr (string_of_bytes (server_name (ch_extensions ch)))"
    using sniff_extension_block_encode [OF wf(5,4), of "pre @ ?S @ ?C @ ?M" post] by simp
  finally show ?thesis using assms(2) body(1) by simp
qed

lemma join_size24_size24:
  assumes "length bs < 65536"
  shows "join_size24 (of_nat (length bs div 65536)) (of_nat (length bs div 256)) (of_nat (length bs)) = length bs"
proof -
  have "length bs div 256 < 256" using assms by simp
  then have b: "unat (of_nat (length bs div 256) :: u8) = length bs div 256" by (rule unat_of_nat_u8)
  have c: "unat (of_nat (length bs) :: u8) = length bs mod 256"
    by (simp add: unsigned_of_nat take_bit_eq_mod)
  have "length bs div 65536 = 0" using assms by simp
  then have "join_size24 (of_nat (length bs div 65536)) (of_nat (length bs div 256)) (of_nat (length bs))
      = join_size (of_nat (length bs div 256)) (of_nat (length bs))"
    by (simp add: join_size24_def join_size_def)
  also have "\<dots> = length bs" by (simp add: join_size_eq b c)
  finally show ?thesis .
qed

lemma hello_header_encode:
  assumes "wf_hello ch"
  shows "hello_header (encode_hello ch @ post)"
proof -
  let ?b = "hello_body ch"
  let ?hs = "1 # size24 ?b @ ?b"
  have lb: "length ?b + 4 < 65536" "34 \<le> length ?b"
    using assms by (simp_all add: wf_hello_def hello_body_def)
  then have lhs: "length ?hs < 65536" "length ?b < 65536" by simp_all
  have enc: "encode_hello ch @ post = 0x16 # 3 # ch_minor ch # hi8 (of_nat (length ?hs)) # lo8 (of_nat (length ?hs)) #
      1 # of_nat (length ?b div 65536) # of_nat (length ?b div 256) # of_nat (length ?b) # ?b @ post"
    by (simp add: encode_hello_def Let_def size16_def size24_def)
  show ?thesis
    unfolding hello_header_def enc
    using join_size_size16 [OF lhs(1)] join_size24_size24 [OF lhs(2)] lb(2)
    by (simp add: size24_def)
qed

lemma sniffDomain_hello:
  assumes "wf_hello ch"
  shows "sniffDomain (encode_hello ch @ post) = Inr (string_of_bytes (server_name (ch_extensions ch)))"
proof -
  let ?b = "hello_body ch"
  have b: "?b = take 34 ?b @ drop 34 ?b" by simp
  define pre where "pre = [0x16, 3, ch_minor ch] @ size16 (1 # size24 ?b @ ?b) @ 1 # size24 ?b @ take 34 ?b"
  have "length (take 34 ?b) = 34" using assms by (simp add: wf_hello_def hello_body_def)
  then have pre: "length pre = 43" by (simp add: pre_def)
  have "encode_hello ch @ post = pre @ drop 34 ?b @ post"
    by (simp add: encode_hello_def Let_def pre_def)
  then show ?thesis
    using sniffDomain_header [of "encode_hello ch @ post"] hello_header_encode [OF assms, of post]
      sniff_session_encode [OF assms pre, of post] by simp
qed

text \<open>C5: of every well-formed ClientHello record, whatever follows it, the sniffer returns the first
  host name of the first server name extension, and the empty string when there is none.\<close>

theorem sniffDomain_encode:
  assumes "wf_hello ch"
  shows "sniffDomain (encode_hello ch @ post) = Inr (string_of_bytes (server_name (ch_extensions ch)))"
  by (rule sniffDomain_hello [OF assms])

definition sample_hello :: client_hello where
  "sample_hello =
     \<lparr>ch_minor = 1, ch_version = [3, 3], ch_random = replicate 32 7, ch_session = [], ch_ciphers = [0x13, 1],
      ch_compression = [0],
      ch_extensions = [Other_Extension 43 [2, 3, 4], Server_Name [(0, bytes_of_string ''a.io'')]]\<rparr>"

lemma wf_sample_hello: "wf_hello sample_hello"
  by (simp add: wf_hello_def sample_hello_def hello_body_def wf_names_def encode_extensions_def
      encode_names_def Let_def)

theorem sniffDomain_encode_witness:
  "sniffDomain (encode_hello sample_hello @ [1, 2, 3]) = Inr ''a.io''"
  using sniffDomain_encode [OF wf_sample_hello, of "[1, 2, 3]"] by (simp add: sample_hello_def)

text \<open>Data that does not start like a TLS 1.x ClientHello record has no server name.\<close>

lemma sniffDomain_other: "\<not> hello_header data \<Longrightarrow> sniffDomain data = Inr []"
  by (simp add: sniffDomain_header)



text \<open>C33: the sniffer throws nothing, and it indexes outside its input only when the input ends in an
  empty host name.\<close>

theorem sniffDomain_only_ub:
  "sniffDomain data = Inl f \<Longrightarrow> f = UB Out_Of_Bounds \<and> suffix [0, 0, 0] data"
  using safe_sniffDomain [of data] by (simp add: safe_or_empty_name_def ends_in_empty_name_def)

text \<open>A record that does: the only extension is a server name list with one empty host name.\<close>

definition empty_name_hello :: bytes where
  "empty_name_hello =
     [0x16, 3, 1, 0, 56, 1, 0, 0, 52, 3, 3] @ replicate 32 7 @ [0, 0, 2, 0x13, 1, 1, 0] @
     [0, 9, 0, 0, 0, 5, 0, 3, 0, 0, 0]"

lemma sniff_empty_name_hello: "sniffDomain empty_name_hello = undefined_behaviour Out_Of_Bounds"
  by code_simp

theorem sniffDomain_only_ub_witness: "suffix [0, 0, 0] empty_name_hello"
  using sniffDomain_only_ub [OF sniff_empty_name_hello] by simp

end
