(* ===== verification/App.thy ===== *)
theory App
  imports Builder Relay Sniff
begin

text \<open>
  \<^verbatim>\<open>common/app.*\<close> and \<^verbatim>\<open>main.cpp\<close>: the start of the program from its
  configuration, and what it does with a session of an inbound: sniff the server name, choose
  the outbound, connect, relay. The outbounds are shared pointers, \<open>None\<close> is a null one:
  \<^verbatim>\<open>outbounds[tag]\<close> inserts a null pointer for a tag that is not there. \<open>show_ip\<close> is the
  library's formatting of IP addresses.
\<close>

section \<open>Starting\<close>

record app =
  app_outbounds :: "(string, outbound_obj option) umap"
  app_router :: "router option"

fun build_outbounds ::
  "('o, 'v) build_lib \<Rightarrow> outbound_config list \<Rightarrow> (string, outbound_obj option) umap \<Rightarrow>
   (string, outbound_obj option) umap result" where
  "build_outbounds lib [] m = Inr m"
| "build_outbounds lib (item # items) m =
     bind_res (buildOutbound lib item) (\<lambda>ob. build_outbounds lib items (umap_assign m (ob_tag item) (Some ob)))"

text \<open>Inbounds already started when one fails are lost with the exception; their log lines were printed.\<close>

fun start_inbounds ::
  "('o, 'v) build_lib \<Rightarrow> inbound_config list \<Rightarrow> string list \<times> (endpoint, 'c) built_inbound list result" where
  "start_inbounds lib [] = ([], Inr [])"
| "start_inbounds lib (item # items) =
     (case buildInbound lib item of
        Inl f \<Rightarrow> ([], Inl f)
      | Inr ib \<Rightarrow>
          (let (logs, r) = start_inbounds lib items
           in (log_line ''inbound'' (in_tag item @ '' start'') # logs, bind_res r (\<lambda>ibs. Inr (ib # ibs)))))"

record 'c running =
  run_app :: app
  run_dns :: "dns_server dns_center"
  run_inbounds :: "(endpoint, 'c) built_inbound list"

text \<open>\<^verbatim>\<open>App::run\<close> up to \<^verbatim>\<open>io_.run()\<close>, with what it has printed.\<close>

definition App_prepare :: "('o, 'v) build_lib \<Rightarrow> app_config \<Rightarrow> (dns_server dns_center \<times> app) result" where
  "App_prepare lib c =
     bind_res (Builder_new lib c) (\<lambda>b.
     bind_res (buildDnsCenter lib b) (\<lambda>dns.
     bind_res (buildRouter lib b) (\<lambda>r.
     bind_res (build_outbounds lib (ap_outbounds c) []) (\<lambda>obs.
     Inr (dns, \<lparr>app_outbounds = obs, app_router = Some r\<rparr>)))))"

definition App_start :: "('o, 'v) build_lib \<Rightarrow> string \<Rightarrow> string list \<times> 'c running result" where
  "App_start lib configPath =
     (case bind_res (parse_document lib (readFile lib configPath)) (\<lambda>obj.
           bind_res (paresAppConfig (bl_json lib) obj) (\<lambda>c.
           bind_res (App_prepare lib c) (\<lambda>(dns, app). Inr (c, dns, app)))) of
        Inl f \<Rightarrow> ([], Inl f)
      | Inr (c, dns, app) \<Rightarrow>
          (let (logs, r) = start_inbounds lib (ap_inbounds c)
           in (logs, bind_res r (\<lambda>ibs. Inr \<lparr>run_app = app, run_dns = dns, run_inbounds = ibs\<rparr>))))"

text \<open>
  \<^verbatim>\<open>main\<close>: \<open>run\<close> is the whole of \<^verbatim>\<open>App::run\<close> for a path, with what it prints. An
  exception ends the program; the usage line is printed in every other case.
\<close>

definition main_program :: "(string \<Rightarrow> string list \<times> unit result) \<Rightarrow> string list \<Rightarrow> string list \<times> unit result" where
  "main_program run argv =
     (let usage = ''usage: '' @ hd argv @ '' run -c <config file>'' @ [CHR 0x0A]
      in if length argv = 4 \<and> argv ! 1 = ''run'' \<and> argv ! 2 = ''-c'' then
           (case run (argv ! 3) of (out, Inl f) \<Rightarrow> (out, Inl f) | (out, Inr u) \<Rightarrow> (out @ [usage], Inr ()))
         else ([usage], Inr ()))"

section \<open>Handling a session\<close>

fun Outbound_connect ::
  "('s, 'w) client_lib \<Rightarrow> ('s, 'w) conn_object connection \<Rightarrow> outbound_obj \<Rightarrow> out_tcp_session \<Rightarrow>
   ('s, 'w) conn_object awaited" where
  "Outbound_connect lib con Direct_Outbound session = DirectOutbound_connect (TcpTransport_connect lib) con session"
| "Outbound_connect lib con (Vless_Outbound tr server uuid) session =
     VlessOutbound_connect (Transport_connect lib tr) con server uuid session"

definition App_sniff ::
  "(ip_address \<Rightarrow> string) \<Rightarrow> 'c in_tcp_session \<Rightarrow> 'c in_tcp_session result \<times> string list" where
  "App_sniff show_ip session =
     (case sniffDomain (in_firstData session) of
        Inl f \<Rightarrow> (Inl f, [])
      | Inr sniffed \<Rightarrow>
          if sniffed \<noteq> [] then
            (let oldAddress = in_address session;
                 session = session\<lparr>in_address := oldAddress\<lparr>addr_host := Domain sniffed\<rparr>\<rparr>
             in (Inr session, [log_line ''sniff''
                   (Address_toString show_ip oldAddress @ '' -> '' @ Address_toString show_ip (in_address session))]))
          else (Inr session, []))"

text \<open>
  Where a \<^verbatim>\<open>handleSession_\<close> is: it awaits its outbound, it relays (with the state of the
  relay, and whether the handler has returned from it), or it ended with a caught exception or in
  undefined behaviour. \<open>'c\<close> is the connection of the client, \<open>'d\<close> that of the outbound.
\<close>

datatype ('c, 'd) stage =
    Connecting 'c outbound_obj out_tcp_session
  | Running 'c 'd relay bool
  | Caught exn
  | Undefined ub_kind

fun stage_fault :: "messages \<Rightarrow> fault \<Rightarrow> string list \<times> ('c, 'd) stage" where
  "stage_fault ms (Raised e) = (log_error ms ''app handle session'' e, Caught e)"
| "stage_fault ms (UB k) = ([], Undefined k)"

text \<open>
  \<^verbatim>\<open>outbounds[outboundTag]\<close> and the start of \<^verbatim>\<open>connect\<close>: everything up to here happens
  without a suspension.
\<close>

definition App_connect :: "app \<Rightarrow> string \<Rightarrow> 'c in_tcp_session \<Rightarrow> app \<times> ('c, 'd) stage" where
  "App_connect app tag session =
     (let (ob, obs) = umap_index None (app_outbounds app) tag;
          app = app\<lparr>app_outbounds := obs\<rparr>
      in (app, case ob of
           None \<Rightarrow> Undefined Null_Deref
         | Some ob \<Rightarrow>
             Connecting (in_conn session) ob
               \<lparr>out_address = in_address session, out_firstData = in_firstData session\<rparr>))"

definition App_handleSession ::
  "(ip_address \<Rightarrow> string) \<Rightarrow> messages \<Rightarrow> app \<Rightarrow> 'c in_tcp_session \<Rightarrow> app \<times> string list \<times> ('c, 'd) stage" where
  "App_handleSession show_ip ms app session =
     (case App_sniff show_ip session of
        (Inl f, logs) \<Rightarrow> (let (l, st) = stage_fault ms f in (app, logs @ l, st))
      | (Inr session, logs) \<Rightarrow>
          (case app_router app of
             None \<Rightarrow> (app, logs, Undefined Null_Deref)
           | Some router \<Rightarrow>
               (case Router_match router (in_address session) of
                  Inl f \<Rightarrow> (let (l, st) = stage_fault ms f in (app, logs @ l, st))
                | Inr outboundTag \<Rightarrow>
                    (let (app, st) = App_connect app outboundTag session
                     in (app, logs @ [log_line ''route''
                       (Address_toString show_ip (in_address session) @ '' -> '' @ outboundTag)], st)))))"

text \<open>The outbound has answered: the relay starts, or the exception is caught.\<close>

definition App_connected :: "messages \<Rightarrow> 'c \<Rightarrow> 'd result \<Rightarrow> string list \<times> ('c, 'd) stage" where
  "App_connected ms conn1 r =
     (case r of Inl f \<Rightarrow> stage_fault ms f | Inr conn2 \<Rightarrow> ([], Running conn1 conn2 start_relay False))"

text \<open>The end of the awaited relay: an exception of it is caught like the others.\<close>

definition App_relay_end :: "messages \<Rightarrow> relay \<Rightarrow> string list" where
  "App_relay_end ms s =
     (case relay_main s of
        Relay_Returned (Inl (Raised e)) \<Rightarrow> log_error ms ''app handle session'' e
      | _ \<Rightarrow> [])"

section \<open>The running application\<close>

text \<open>
  \<^verbatim>\<open>inboundWork_\<close> spawns a handler for every session of its inbound. The handlers share the
  table of outbounds and interleave at their suspensions: a step is the arrival of a session, the
  answer of an outbound to one that awaits it (\<open>arrives\<close> and \<open>answers\<close> are the sessions that may come and what an outbound may come back with),
  a step of a relay, or the return from one. The two directions of a relay go on after it has
  returned.
\<close>

record ('c, 'd) system =
  sys_app :: app
  sys_stages :: "('c, 'd) stage list"
  sys_log :: "string list"

definition start_system :: "app \<Rightarrow> ('c, 'd) system" where
  "start_system app = \<lparr>sys_app = app, sys_stages = [], sys_log = []\<rparr>"

definition sys_accept ::
  "(ip_address \<Rightarrow> string) \<Rightarrow> messages \<Rightarrow> 'c in_tcp_session \<Rightarrow> ('c, 'd) system \<Rightarrow> ('c, 'd) system" where
  "sys_accept show_ip ms session s =
     (let (app, logs, st) = App_handleSession show_ip ms (sys_app s) session
      in s\<lparr>sys_app := app, sys_stages := sys_stages s @ [st], sys_log := sys_log s @ logs\<rparr>)"

definition sys_connected :: "messages \<Rightarrow> nat \<Rightarrow> 'c \<Rightarrow> 'd result \<Rightarrow> ('c, 'd) system \<Rightarrow> ('c, 'd) system" where
  "sys_connected ms i conn1 r s =
     (let (logs, st) = App_connected ms conn1 r
      in s\<lparr>sys_stages := (sys_stages s)[i := st], sys_log := sys_log s @ logs\<rparr>)"

inductive sys_step ::
  "(ip_address \<Rightarrow> string) \<Rightarrow> messages \<Rightarrow> ('c in_tcp_session \<Rightarrow> bool) \<Rightarrow> (outbound_obj \<Rightarrow> out_tcp_session \<Rightarrow> 'd result \<Rightarrow> bool) \<Rightarrow>
   ('c, 'd) system \<Rightarrow> ('c, 'd) system \<Rightarrow> bool" for show_ip ms arrives answers where
  accept: "arrives session \<Longrightarrow> sys_step show_ip ms arrives answers s (sys_accept show_ip ms session s)"
| connected: "i < length (sys_stages s) \<Longrightarrow> sys_stages s ! i = Connecting conn1 ob os \<Longrightarrow> answers ob os r \<Longrightarrow>
    sys_step show_ip ms arrives answers s (sys_connected ms i conn1 r s)"
| forward: "i < length (sys_stages s) \<Longrightarrow> sys_stages s ! i = Running conn1 conn2 rl over \<Longrightarrow> relay_step ms rl rl' \<Longrightarrow>
    sys_step show_ip ms arrives answers s (s\<lparr>sys_stages := (sys_stages s)[i := Running conn1 conn2 rl' over]\<rparr>)"
| returned: "i < length (sys_stages s) \<Longrightarrow> sys_stages s ! i = Running conn1 conn2 rl False \<Longrightarrow>
    relay_main rl = Relay_Returned r \<Longrightarrow>
    sys_step show_ip ms arrives answers s
      (s\<lparr>sys_stages := (sys_stages s)[i := Running conn1 conn2 rl True], sys_log := sys_log s @ App_relay_end ms rl\<rparr>)"

inductive sys_reachable ::
  "(ip_address \<Rightarrow> string) \<Rightarrow> messages \<Rightarrow> ('c in_tcp_session \<Rightarrow> bool) \<Rightarrow> (outbound_obj \<Rightarrow> out_tcp_session \<Rightarrow> 'd result \<Rightarrow> bool) \<Rightarrow>
   app \<Rightarrow> ('c, 'd) system \<Rightarrow> bool" for show_ip ms arrives answers app where
  start: "sys_reachable show_ip ms arrives answers app (start_system app)"
| step: "sys_reachable show_ip ms arrives answers app s \<Longrightarrow> sys_step show_ip ms arrives answers s s' \<Longrightarrow>
    sys_reachable show_ip ms arrives answers app s'"

inductive_cases sys_stepE: "sys_step show_ip ms arrives answers s s'"

section \<open>The destination of a session\<close>

text \<open>The address a session is routed by, and the outbound the table names for it.\<close>

definition destination :: "string \<Rightarrow> address \<Rightarrow> address" where
  "destination name a = (if name = [] then a else a\<lparr>addr_host := Domain name\<rparr>)"

definition route_tag :: "router \<Rightarrow> address \<Rightarrow> string" where
  "route_tag r a =
     (case find (\<lambda>rr. route_hits rr a) (router_rules r) of Some rr \<Rightarrow> outbound rr | None \<Rightarrow> router_final r)"

definition sniff_log :: "(ip_address \<Rightarrow> string) \<Rightarrow> string \<Rightarrow> address \<Rightarrow> string list" where
  "sniff_log show_ip name a =
     (if name = [] then []
      else [log_line ''sniff'' (Address_toString show_ip a @ '' -> '' @ Address_toString show_ip (destination name a))])"

definition route_log :: "(ip_address \<Rightarrow> string) \<Rightarrow> string \<Rightarrow> address \<Rightarrow> string \<Rightarrow> string list" where
  "route_log show_ip name a tag =
     sniff_log show_ip name a @ [log_line ''route'' (Address_toString show_ip (destination name a) @ '' -> '' @ tag)]"

lemma App_sniff_eq:
  "sniffDomain (in_firstData s) = Inr name \<Longrightarrow>
   App_sniff show_ip s = (Inr (s\<lparr>in_address := destination name (in_address s)\<rparr>), sniff_log show_ip name (in_address s))"
  by (simp add: App_sniff_def destination_def sniff_log_def Let_def)

lemma App_handleSession_eq:
  assumes "sniffDomain (in_firstData s) = Inr name" and "app_router app = Some r" and "wf_router r"
  shows "App_handleSession show_ip ms app s =
     (let a = destination name (in_address s); tag = route_tag r a;
          (app, st) = App_connect app tag (s\<lparr>in_address := a\<rparr>)
      in (app, route_log show_ip name (in_address s) tag, st))"
  using assms by (simp add: App_handleSession_def App_sniff_eq Router_match_find route_tag_def route_log_def Let_def)

lemma App_connect_found:
  "umap_find (app_outbounds app) tag = Some (Some ob) \<Longrightarrow>
   App_connect app tag s =
     (app, Connecting (in_conn s) ob \<lparr>out_address = in_address s, out_firstData = in_firstData s\<rparr>)"
  by (simp add: App_connect_def umap_index_def)

lemma App_connect_missing:
  "\<forall>ob. umap_find (app_outbounds app) tag \<noteq> Some (Some ob) \<Longrightarrow>
   App_connect app tag s = (app\<lparr>app_outbounds := snd (umap_index None (app_outbounds app) tag)\<rparr>, Undefined Null_Deref)"
  by (auto simp: App_connect_def umap_index_def split: option.splits)

lemma umap_index_missing:
  "\<forall>ob. umap_find m tag \<noteq> Some (Some ob) \<Longrightarrow> umap_find (snd (umap_index None m tag)) tag = Some None"
  by (cases "umap_find m tag") (auto simp: umap_index_def)

section \<open>The outbounds of a started application\<close>

lemma build_outbounds_found:
  "build_outbounds lib items m = Inr m' \<Longrightarrow>
   tag \<in> ob_tag ` set items \<or> (\<exists>ob. umap_find m tag = Some (Some ob)) \<Longrightarrow> \<exists>ob. umap_find m' tag = Some (Some ob)"
proof (induction lib items m rule: build_outbounds.induct)
  case (2 lib item items m)
  from "2.prems"(1) obtain ob where ob: "buildOutbound lib item = Inr ob"
    and rest: "build_outbounds lib items (umap_assign m (ob_tag item) (Some ob)) = Inr m'"
    by auto
  show ?case
    by (rule "2.IH" [OF ob rest]) (use "2.prems"(2) in auto)
qed simp

definition tags_configured :: "app_config \<Rightarrow> bool" where
  "tags_configured c \<longleftrightarrow>
     (let tags = map ob_tag (ap_outbounds c)
      in rc_final (ap_router c) \<in> set tags \<and> list_all (\<lambda>rr. rr_outbound rr \<in> set tags) (rc_rules (ap_router c)))"

lemma App_prepare_router:
  assumes "App_prepare lib c = Inr (dns, app)" and "address_parser (bl_address lib)"
  obtains r where "app_router app = Some r" and "wf_router r"
    and "\<forall>a. route_tag r a = rc_final (ap_router c) \<or> route_tag r a \<in> rr_outbound ` set (rc_rules (ap_router c))"
proof -
  from assms(1) obtain b r where b: "Builder_new lib c = Inr b" and r: "buildRouter lib b = Inr r"
    and app: "app_router app = Some r" by (auto simp: App_prepare_def)
  have wf: "wf_router r" by (rule buildRouter_wf [OF r assms(2) Builder_new_wf [OF b assms(2)]])
  have "route_tag r a = rc_final (ap_router c) \<or> route_tag r a \<in> rr_outbound ` set (rc_rules (ap_router c))" for a
    using built_router_tag [OF b r assms(2), of a] by (simp add: Router_match_find [OF wf] route_tag_def)
  with that app wf show thesis by blast
qed

lemma prepared_tags_found:
  assumes "App_prepare lib c = Inr (dns, app)" and "tags_configured c"
    and "tag = rc_final (ap_router c) \<or> tag \<in> rr_outbound ` set (rc_rules (ap_router c))"
  shows "\<exists>ob. umap_find (app_outbounds app) tag = Some (Some ob)"
proof -
  have "build_outbounds lib (ap_outbounds c) [] = Inr (app_outbounds app)"
    using assms(1) by (auto simp: App_prepare_def)
  moreover have "tag \<in> ob_tag ` set (ap_outbounds c)"
    using assms(2,3) by (auto simp: tags_configured_def Let_def list_all_iff)
  ultimately show ?thesis using build_outbounds_found by blast
qed

lemma build_outbounds_wf: "build_outbounds lib items m = Inr m' \<Longrightarrow> wf_umap m \<Longrightarrow> wf_umap m'"
  by (induction lib items m rule: build_outbounds.induct) (auto simp: wf_umap_assign)

section \<open>The invariant of the system\<close>

text \<open>
  The table of outbounds has every tag once, only ever gains null entries, and every relay is in a
  state that the relay on its own can reach.
\<close>

definition wf_app :: "app \<Rightarrow> bool" where
  "wf_app app \<longleftrightarrow> wf_umap (app_outbounds app) \<and> (\<exists>r. app_router app = Some r \<and> wf_router r)"

definition same_outbounds :: "app \<Rightarrow> app \<Rightarrow> bool" where
  "same_outbounds app app' \<longleftrightarrow>
     app_router app' = app_router app \<and>
     (\<forall>tag ob. umap_find (app_outbounds app') tag = Some (Some ob) \<longleftrightarrow> umap_find (app_outbounds app) tag = Some (Some ob))"

fun wf_stage :: "messages \<Rightarrow> ('c, 'd) stage \<Rightarrow> bool" where
  "wf_stage ms (Running c d rl over) \<longleftrightarrow>
     relay_reachable ms rl \<and> (over \<longrightarrow> relay_main rl \<noteq> Relay_Waiting)"
| "wf_stage ms st \<longleftrightarrow> True"

definition sys_inv :: "messages \<Rightarrow> app \<Rightarrow> ('c, 'd) system \<Rightarrow> bool" where
  "sys_inv ms app s \<longleftrightarrow>
     wf_app (sys_app s) \<and> same_outbounds app (sys_app s) \<and> list_all (wf_stage ms) (sys_stages s)"

lemma wf_stage_fault: "wf_stage ms (snd (stage_fault ms f))"
  by (cases f) simp_all

lemma App_connect_wf:
  assumes "wf_app app" and "App_connect app tag s = (app', st)"
  shows "wf_app app' \<and> same_outbounds app app' \<and> wf_stage ms st"
proof -
  let ?obs = "snd (umap_index None (app_outbounds app) tag)"
  have "wf_umap ?obs"
    using assms(1) by (simp add: umap_index_def wf_app_def wf_umap_emplace split: option.splits)
  moreover have "umap_find ?obs k = Some (Some ob) \<longleftrightarrow> umap_find (app_outbounds app) k = Some (Some ob)" for k ob
    by (auto simp: umap_index_def split: option.splits)
  moreover have "app' = app\<lparr>app_outbounds := ?obs\<rparr>" and "wf_stage ms st"
    using assms(2) by (auto simp: App_connect_def Let_def split: prod.splits option.splits)
  ultimately show ?thesis using assms(1) by (simp add: wf_app_def same_outbounds_def)
qed

lemma App_handleSession_wf:
  assumes "wf_app app" and "App_handleSession show_ip ms app s = (app', logs, st)"
  shows "wf_app app' \<and> same_outbounds app app' \<and> wf_stage ms st"
proof (cases "sniffDomain (in_firstData s)")
  case (Inl f)
  then have "app' = app" "st = snd (stage_fault ms f)"
    using assms(2) by (auto simp: App_handleSession_def App_sniff_def Let_def split: prod.splits)
  then show ?thesis using assms(1) wf_stage_fault by (auto simp: same_outbounds_def)
next
  case (Inr name)
  obtain r where r: "app_router app = Some r" "wf_router r" using assms(1) by (auto simp: wf_app_def)
  from assms(2) show ?thesis
    unfolding App_handleSession_eq [OF Inr r] Let_def
    by (auto split: prod.splits dest: App_connect_wf [OF assms(1)])
qed

lemma same_outbounds_trans: "same_outbounds a b \<Longrightarrow> same_outbounds b c \<Longrightarrow> same_outbounds a c"
  by (simp add: same_outbounds_def)

lemma sys_inv_accept: "sys_inv ms app s \<Longrightarrow> sys_inv ms app (sys_accept show_ip ms session s)"
  using App_handleSession_wf [of "sys_app s" show_ip ms session]
  by (auto simp: sys_inv_def sys_accept_def split: prod.splits intro: same_outbounds_trans)

lemma list_all_update: "list_all P xs \<Longrightarrow> P x \<Longrightarrow> list_all P (xs[i := x])"
  by (auto simp: list_all_iff dest: set_update_subset_insert [THEN subsetD])

lemma list_all_nth: "list_all P xs \<Longrightarrow> i < length xs \<Longrightarrow> P (xs ! i)"
  by (simp add: list_all_length)

lemma sys_inv_connected: "sys_inv ms app s \<Longrightarrow> sys_inv ms app (sys_connected ms i conn1 r s)"
  using wf_stage_fault [of ms]
  by (auto simp: sys_inv_def sys_connected_def App_connected_def Let_def split_beta
      intro!: list_all_update relay_reachable.start split: sum.splits)

lemma relay_step_main: "relay_step ms rl rl' \<Longrightarrow> relay_main rl \<noteq> Relay_Waiting \<Longrightarrow> relay_main rl' \<noteq> Relay_Waiting"
  by (auto elim!: relay_stepE simp: end_forward_def relay_resume_def split: option.splits)

lemma sys_inv_step: "sys_step show_ip ms arrives answers s s' \<Longrightarrow> sys_inv ms app s \<Longrightarrow> sys_inv ms app s'"
proof (induction rule: sys_step.induct)
  case (forward i s conn1 conn2 rl over rl')
  then have "wf_stage ms (Running conn1 conn2 rl over)"
    using list_all_nth [of "wf_stage ms" "sys_stages s" i] by (simp add: sys_inv_def)
  with forward show ?case
    by (auto simp: sys_inv_def intro!: list_all_update intro: relay_reachable.step dest: relay_step_main)
next
  case (returned i s conn1 conn2 rl r)
  then have "wf_stage ms (Running conn1 conn2 rl False)"
    using list_all_nth [of "wf_stage ms" "sys_stages s" i] by (simp add: sys_inv_def)
  with returned show ?case by (auto simp: sys_inv_def intro!: list_all_update)
qed (auto intro: sys_inv_accept sys_inv_connected)

lemma sys_inv_reachable: "sys_reachable show_ip ms arrives answers app s \<Longrightarrow> wf_app app \<Longrightarrow> sys_inv ms app s"
proof (induction rule: sys_reachable.induct)
  case start
  then show ?case by (simp add: sys_inv_def start_system_def same_outbounds_def)
next
  case (step s s')
  then show ?case by (blast intro: sys_inv_step)
qed

lemma prepared_wf:
  assumes "App_prepare lib c = Inr (dns, app)" and "address_parser (bl_address lib)"
  shows "wf_app app"
proof -
  obtain r where "app_router app = Some r" "wf_router r" by (rule App_prepare_router [OF assms])
  moreover have "wf_umap (app_outbounds app)"
    using assms(1) build_outbounds_wf [of lib "ap_outbounds c" "[]"] by (auto simp: App_prepare_def)
  ultimately show ?thesis by (auto simp: wf_app_def)
qed

section \<open>Systems without undefined behaviour\<close>

definition defined_inv :: "app \<Rightarrow> ('c, 'd) system \<Rightarrow> bool" where
  "defined_inv app s \<longleftrightarrow> sys_app s = app \<and> list_all (\<lambda>st. \<forall>k. st \<noteq> Undefined k) (sys_stages s)"

lemma sniff_total:
  assumes "\<not> suffix [0, 0, 0] data"
  obtains name where "sniffDomain data = Inr name"
proof (cases "sniffDomain data")
  case (Inl f)
  then show thesis
    using assms safe_sniffDomain [of data] by (simp add: safe_or_empty_name_def ends_in_empty_name_def)
qed (use that in blast)

lemma configured_session_connects:
  assumes "App_prepare lib c = Inr (dns, app)" and "address_parser (bl_address lib)" and "tags_configured c"
    and "\<not> suffix [0, 0, 0] (in_firstData s)"
  obtains logs ob os where "App_handleSession show_ip ms app s = (app, logs, Connecting (in_conn s) ob os)"
proof -
  obtain name where name: "sniffDomain (in_firstData s) = Inr name" by (rule sniff_total [OF assms(4)])
  obtain r where r: "app_router app = Some r" "wf_router r"
    "\<forall>a. route_tag r a = rc_final (ap_router c) \<or> route_tag r a \<in> rr_outbound ` set (rc_rules (ap_router c))"
    by (rule App_prepare_router [OF assms(1,2)])
  obtain ob where "umap_find (app_outbounds app) (route_tag r (destination name (in_address s))) = Some (Some ob)"
    using prepared_tags_found [OF assms(1,3) spec [OF r(3)]] by blast
  then have "\<exists>logs os. App_handleSession show_ip ms app s = (app, logs, Connecting (in_conn s) ob os)"
    unfolding App_handleSession_eq [OF name r(1,2)] by (simp add: Let_def App_connect_found)
  then show thesis using that by blast
qed

lemma connected_defined: "no_ub r \<Longrightarrow> snd (App_connected ms conn1 r) \<noteq> Undefined k"
  by (cases r rule: no_ub.cases) (auto simp: App_connected_def)

lemma defined_inv_step:
  fixes s :: "('c, 'd) system"
  assumes "sys_step show_ip ms arrives answers s s'" and "defined_inv app s"
    and "\<And>session. arrives session \<Longrightarrow> \<exists>logs c ob os. App_handleSession show_ip ms app session = (app, logs, Connecting c ob os :: ('c, 'd) stage)"
    and "\<And>ob os r. answers ob os r \<Longrightarrow> no_ub r"
  shows "defined_inv app s'"
  using assms(1,2)
proof (induction rule: sys_step.induct)
  case (accept session s)
  then show ?case using assms(3) by (fastforce simp: defined_inv_def sys_accept_def)
next
  case (connected i s conn1 ob os r)
  then show ?case
    using connected_defined [OF assms(4), of ob os r ms conn1]
    by (auto simp: defined_inv_def sys_connected_def split_beta Let_def intro!: list_all_update)
qed (auto simp: defined_inv_def intro!: list_all_update)

lemma defined_inv_reachable:
  fixes s :: "('c, 'd) system"
  assumes "sys_reachable show_ip ms arrives answers app s"
    and "\<And>session. arrives session \<Longrightarrow> \<exists>logs c ob os. App_handleSession show_ip ms app session = (app, logs, Connecting c ob os :: ('c, 'd) stage)"
    and "\<And>ob os r. answers ob os r \<Longrightarrow> no_ub r"
  shows "defined_inv app s"
  using assms(1)
proof induction
  case start
  then show ?case by (simp add: defined_inv_def start_system_def)
next
  case (step s s')
  show ?case by (rule defined_inv_step [OF step.hyps(2) step.IH assms(2,3)])
qed

section \<open>Properties\<close>

text \<open>An application started from a configuration that configures every outbound tag its router names has no
  undefined behaviour, however its sessions, connects and relays interleave, as long as no first data ends in an empty
  host name and the outbounds themselves have none: every session awaits its outbound, relays, or has ended with a
  logged exception, and the table of outbounds is the configured one.\<close>

theorem configured_app_is_defined:
  assumes "App_prepare lib c = Inr (dns, app)" and "address_parser (bl_address lib)" and "tags_configured c"
    and "\<forall>session. arrives session \<longrightarrow> \<not> suffix [0, 0, 0] (in_firstData session)"
    and "\<forall>ob os r. answers ob os r \<longrightarrow> no_ub r"
    and "sys_reachable show_ip ms arrives answers app s"
  shows "sys_app s = app \<and> (\<forall>st \<in> set (sys_stages s). \<forall>k. st \<noteq> Undefined k)"
proof -
  have "defined_inv app s"
    by (rule defined_inv_reachable [OF assms(6)])
      (use assms(4,5) in \<open>blast elim: configured_session_connects [OF assms(1-3)]\<close>)+
  then show ?thesis by (simp add: defined_inv_def list_all_iff)
qed

definition ruled_app :: app where
  "ruled_app = \<lparr>app_outbounds = [(''d'', Some Direct_Outbound)], app_router = Some ruled_router\<rparr>"

lemma ruled_app_prepared: "App_prepare sample_lib ruled_config = Inr (DnsCenter_new None [] [] [], ruled_app)"
proof -
  have "build_outbounds sample_lib (ap_outbounds ruled_config) [] = Inr [(''d'', Some Direct_Outbound)]"
    by (simp add: ruled_config_def direct_config_def buildOutbound_def buildTransport_def umap_assign_def)
  then show ?thesis
    by (simp add: App_prepare_def ruled_builder_new ruled_center_built ruled_router_built ruled_app_def)
qed

lemma wf_ruled_app: "wf_app ruled_app"
  by (rule prepared_wf [OF ruled_app_prepared sample_lib_addresses])

lemma wf_ruled_router: "wf_router ruled_router"
  using wf_ruled_app by (simp add: wf_app_def ruled_app_def)

lemma route_tag_d: "route_tag ruled_router a = ''d''"
  by (simp add: route_tag_def ruled_router_def)

definition plain_session :: "nat in_tcp_session" where
  "plain_session = \<lparr>in_conn = 1, in_address = \<lparr>addr_host = Domain ''q'', addr_port = 80\<rparr>, in_firstData = [0x47]\<rparr>"

lemma plain_session_sniffs: "sniffDomain (in_firstData plain_session) = Inr []"
  by (simp add: plain_session_def sniffDomain_def)

lemma plain_session_tail: "\<not> suffix [0, 0, 0] (in_firstData plain_session)"
  by (simp add: plain_session_def suffix_def Cons_eq_append_conv)

text \<open>A run: a session arrives, its outbound answers, and the first direction of the relay reads.\<close>

definition plain_answers :: "outbound_obj \<Rightarrow> out_tcp_session \<Rightarrow> nat result \<Rightarrow> bool" where
  "plain_answers ob os r \<longleftrightarrow> r = Inr 7"

definition arrived_system :: "(nat, nat) system" where
  "arrived_system = sys_accept (\<lambda>ip. ''ip'') quiet plain_session (start_system ruled_app)"

definition connected_system :: "(nat, nat) system" where
  "connected_system = sys_connected quiet 0 1 (Inr 7) arrived_system"

lemma arrived_stage:
  "sys_stages arrived_system =
     [Connecting 1 Direct_Outbound \<lparr>out_address = \<lparr>addr_host = Domain ''q'', addr_port = 80\<rparr>, out_firstData = [0x47]\<rparr>]"
  by (simp add: arrived_system_def sys_accept_def start_system_def Let_def ruled_app_def
      App_handleSession_eq [OF plain_session_sniffs _ wf_ruled_router] route_tag_d App_connect_found umap_find_def)
    (simp add: plain_session_def destination_def)

lemma connected_stage: "sys_stages connected_system = [Running 1 7 start_relay False]"
  by (simp add: connected_system_def sys_connected_def App_connected_def arrived_stage)

lemma connected_reachable:
  "sys_reachable (\<lambda>ip. ''ip'') quiet (\<lambda>session. session = plain_session) plain_answers ruled_app connected_system"
proof -
  have "sys_reachable (\<lambda>ip. ''ip'') quiet (\<lambda>session. session = plain_session) plain_answers ruled_app arrived_system"
    unfolding arrived_system_def by (intro sys_reachable.step [OF sys_reachable.start] sys_step.accept refl)
  then show ?thesis
    unfolding connected_system_def
    by (rule sys_reachable.step) (rule sys_step.connected, simp_all add: arrived_stage plain_answers_def)
qed

theorem configured_app_is_defined_witness:
  "sys_app connected_system = ruled_app \<and> (\<forall>k. hd (sys_stages connected_system) \<noteq> Undefined k)"
proof -
  have "sys_app connected_system = ruled_app \<and> (\<forall>st \<in> set (sys_stages connected_system). \<forall>k. st \<noteq> Undefined k)"
    by (rule configured_app_is_defined [OF ruled_app_prepared sample_lib_addresses _ _ _ connected_reachable])
      (simp_all add: tags_configured_def ruled_config_def plain_rule_def direct_config_def plain_session_tail plain_answers_def)
  then show ?thesis by (simp add: connected_stage)
qed

text \<open>C24: whatever the configuration, the sessions and the outbounds do, the state of a started application stays
  well-formed: its table of outbounds has each tag once and maps the same tags to the same outbounds as at the start,
  its router is the configured one, and every session that relays has a relay that has copied faithfully in both
  directions, returned exactly if its handler has gone past it.\<close>

theorem running_app_well_formed:
  assumes "App_prepare lib c = Inr (dns, app)" and "address_parser (bl_address lib)"
    and "sys_reachable show_ip ms arrives answers app s"
  shows "wf_app (sys_app s) \<and> same_outbounds app (sys_app s) \<and>
    (\<forall>c d rl over. Running c d rl over \<in> set (sys_stages s) \<longrightarrow>
       dir_inv (dir_1 rl) \<and> dir_inv (dir_2 rl) \<and> (over \<longrightarrow> relay_main rl \<noteq> Relay_Waiting))"
proof -
  have inv: "sys_inv ms app s" by (rule sys_inv_reachable [OF assms(3) prepared_wf [OF assms(1,2)]])
  then have "wf_stage ms (Running c d rl over)" if "Running c d rl over \<in> set (sys_stages s)" for c d rl over
    using that unfolding sys_inv_def list_all_iff by blast
  with inv show ?thesis
    using relay_inv_reachable [of ms] by (fastforce simp: sys_inv_def relay_inv_def)
qed

theorem running_app_well_formed_witness:
  "wf_app (sys_app connected_system) \<and> dir_inv (dir_1 start_relay)"
  using running_app_well_formed [OF ruled_app_prepared sample_lib_addresses connected_reachable]
  unfolding connected_stage by (metis list.set_intros(1))

text \<open>C26: a session whose route leads to a tag that no configured outbound has dereferences a null pointer, and only
  such a session does; the lookup leaves the null pointer in the table under that tag, so that every later session on
  this route does the same.\<close>

theorem session_null_outbound_iff:
  assumes "sniffDomain (in_firstData s) = Inr name" and "app_router app = Some r" and "wf_router r"
    and "App_handleSession show_ip ms app s = (app', logs, st)"
    and "tag = route_tag r (destination name (in_address s))"
  shows "(st = Undefined Null_Deref \<longleftrightarrow> (\<forall>ob. umap_find (app_outbounds app) tag \<noteq> Some (Some ob))) \<and>
    (st = Undefined Null_Deref \<longrightarrow> umap_find (app_outbounds app') tag = Some None)"
proof (cases "\<exists>ob. umap_find (app_outbounds app) tag = Some (Some ob)")
  case True
  then obtain ob where ob: "umap_find (app_outbounds app) tag = Some (Some ob)" by blast
  then have "st \<noteq> Undefined Null_Deref"
    using assms(4) unfolding App_handleSession_eq [OF assms(1-3)] Let_def assms(5)
    by (auto simp: App_connect_found)
  then show ?thesis using ob by auto
next
  case False
  then have none: "\<forall>ob. umap_find (app_outbounds app) tag \<noteq> Some (Some ob)" by blast
  then have "st = Undefined Null_Deref \<and> app' = app\<lparr>app_outbounds := snd (umap_index None (app_outbounds app) tag)\<rparr>"
    using assms(4) unfolding App_handleSession_eq [OF assms(1-3)] Let_def assms(5)
    by (auto simp: App_connect_missing)
  then show ?thesis using none umap_index_missing [OF none] by simp
qed

definition empty_app :: app where
  "empty_app = ruled_app\<lparr>app_outbounds := []\<rparr>"

lemma unconfigured_session:
  "App_handleSession (\<lambda>ip. ''ip'') quiet empty_app plain_session =
     (empty_app\<lparr>app_outbounds := [(''d'', None)]\<rparr>, [log_line ''route'' (''q:80'' @ '' -> '' @ ''d'')],
      Undefined Null_Deref :: (nat, nat) stage)"
  by (simp add: App_handleSession_eq [OF plain_session_sniffs _ wf_ruled_router] empty_app_def ruled_app_def Let_def
      App_connect_def route_log_def sniff_log_def destination_def route_tag_d umap_index_def umap_emplace_def)
    code_simp

theorem session_null_outbound_iff_witness:
  "umap_find [(''d'', None :: outbound_obj option)] (route_tag ruled_router (destination [] (in_address plain_session))) = Some None"
  using session_null_outbound_iff [OF plain_session_sniffs _ wf_ruled_router unconfigured_session refl]
  by (simp add: empty_app_def ruled_app_def)

text \<open>C23: a session whose first data is a TLS ClientHello with a server name is routed by that name, at the port of
  the session, whatever host the client asked the proxy for, and the outbound of that route is asked to connect to it
  with the hello unchanged as the first data.\<close>

theorem tls_session_goes_to_server_name:
  assumes "wf_hello ch" and "in_firstData s = encode_hello ch @ post"
    and "name = string_of_bytes (server_name (ch_extensions ch))" and "name \<noteq> []"
    and "app_router app = Some r" and "wf_router r"
    and "target = \<lparr>addr_host = Domain name, addr_port = addr_port (in_address s)\<rparr>"
    and "umap_find (app_outbounds app) (route_tag r target) = Some (Some ob)"
  shows "App_handleSession show_ip ms app s =
     (app,
      [log_line ''sniff'' (Address_toString show_ip (in_address s) @ '' -> '' @ Address_toString show_ip target),
       log_line ''route'' (Address_toString show_ip target @ '' -> '' @ route_tag r target)],
      Connecting (in_conn s) ob \<lparr>out_address = target, out_firstData = encode_hello ch @ post\<rparr>)"
proof -
  have sn: "sniffDomain (in_firstData s) = Inr name"
    using sniffDomain_hello [OF assms(1)] by (simp add: assms(2,3))
  have a: "destination name (in_address s) = target"
    using assms(4) by (cases "in_address s") (simp add: destination_def assms(7))
  show ?thesis
    by (simp add: App_handleSession_eq [OF sn assms(5,6)] a App_connect_found [OF assms(8)] Let_def
        route_log_def sniff_log_def assms(4) assms(2))
qed

definition hello_session :: "nat in_tcp_session" where
  "hello_session =
     \<lparr>in_conn = 1, in_address = \<lparr>addr_host = Ip (IpV4 1 2 3 4), addr_port = 443\<rparr>,
      in_firstData = encode_hello sample_hello @ []\<rparr>"

theorem tls_session_goes_to_server_name_witness:
  "snd (snd (App_handleSession (\<lambda>ip. ''ip'') quiet ruled_app hello_session)) =
     (Connecting 1 Direct_Outbound \<lparr>out_address = \<lparr>addr_host = Domain ''a.io'', addr_port = 443\<rparr>,
        out_firstData = encode_hello sample_hello @ []\<rparr> :: (nat, nat) stage)"
  by (subst tls_session_goes_to_server_name [OF wf_sample_hello, where post = "[]" and name = "''a.io''" and r = ruled_router
      and target = "\<lparr>addr_host = Domain ''a.io'', addr_port = 443\<rparr>" and ob = Direct_Outbound])
    (simp_all add: hello_session_def ruled_app_def wf_ruled_router route_tag_d umap_find_def, simp add: sample_hello_def)

text \<open>The end of the relay ends the session's handler without a line in the log: what the relay returns is the
  cancelled wait, which is not reported.\<close>

theorem relay_end_is_silent: "relay_reachable ms s \<Longrightarrow> App_relay_end ms s = []"
  using relay_inv_reachable [of ms s] by (auto simp: App_relay_end_def relay_inv_def log_error_def split: relay_main.splits)

end
