(* ===== verification/Relay_Io.thy ===== *)
theory Relay_Io
  imports Relay Connection
begin

text \<open>
  The relay of \<^verbatim>\<open>connections/relay.cpp\<close> on the two connections it is given: the events of \<open>Relay\<close>
  are the results of their \<^verbatim>\<open>read(4096)\<close> and \<^verbatim>\<open>write\<close>. \<open>duplex_peer\<close> is what the
  relay relies on beyond \<open>byte_peer\<close>: a read fails only when everything has been read, and leaves the
  connection writable (a half-closed stream).
\<close>

section \<open>The steps\<close>

record ('c, 'd) wire =
  wire_conn1 :: 'c
  wire_conn2 :: 'd
  wire_relay :: relay

definition start_wire :: "'c \<Rightarrow> 'd \<Rightarrow> ('c, 'd) wire" where
  "start_wire c1 c2 = \<lparr>wire_conn1 = c1, wire_conn2 = c2, wire_relay = start_relay\<rparr>"

text \<open>Results as events; a write that throws may have sent the first \<open>n\<close> bytes.\<close>

fun read_event :: "bytes result \<Rightarrow> io_event option" where
  "read_event (Inr data) = Some (Read_Ok data)"
| "read_event (Inl (Raised e)) = Some (Read_Err e)"
| "read_event (Inl (UB k)) = None"

fun write_event :: "nat \<Rightarrow> unit result \<Rightarrow> io_event option" where
  "write_event n (Inr u) = Some Write_Ok"
| "write_event n (Inl (Raised e)) = Some (Write_Err n e)"
| "write_event n (Inl (UB k)) = None"

inductive wire_step :: "'c connection \<Rightarrow> 'd connection \<Rightarrow> messages \<Rightarrow> ('c, 'd) wire \<Rightarrow> ('c, 'd) wire \<Rightarrow> bool"
  for con1 con2 ms where
  read_1: "dir_phase (dir_1 (wire_relay s)) = Reading \<Longrightarrow> conn_read con1 4096 (wire_conn1 s) = Some (r, c) \<Longrightarrow>
    read_event r = Some ev \<Longrightarrow> forward_step (dir_1 (wire_relay s)) ev = Some (d, err) \<Longrightarrow>
    wire_step con1 con2 ms s
      (s\<lparr>wire_conn1 := c, wire_relay := end_forward ms err ((wire_relay s)\<lparr>dir_1 := d\<rparr>)\<rparr>)"
| write_1: "dir_phase (dir_1 (wire_relay s)) = Writing data \<Longrightarrow> conn_write con2 data (wire_conn2 s) = Some (u, c2) \<Longrightarrow>
    write_event n u = Some ev \<Longrightarrow> forward_step (dir_1 (wire_relay s)) ev = Some (d, err) \<Longrightarrow>
    wire_step con1 con2 ms s
      (s\<lparr>wire_conn2 := c2, wire_relay := end_forward ms err ((wire_relay s)\<lparr>dir_1 := d\<rparr>)\<rparr>)"
| read_2: "dir_phase (dir_2 (wire_relay s)) = Reading \<Longrightarrow> conn_read con2 4096 (wire_conn2 s) = Some (r, c2) \<Longrightarrow>
    read_event r = Some ev \<Longrightarrow> forward_step (dir_2 (wire_relay s)) ev = Some (d, err) \<Longrightarrow>
    wire_step con1 con2 ms s
      (s\<lparr>wire_conn2 := c2, wire_relay := end_forward ms err ((wire_relay s)\<lparr>dir_2 := d\<rparr>)\<rparr>)"
| write_2: "dir_phase (dir_2 (wire_relay s)) = Writing data \<Longrightarrow> conn_write con1 data (wire_conn1 s) = Some (u, c) \<Longrightarrow>
    write_event n u = Some ev \<Longrightarrow> forward_step (dir_2 (wire_relay s)) ev = Some (d, err) \<Longrightarrow>
    wire_step con1 con2 ms s
      (s\<lparr>wire_conn1 := c, wire_relay := end_forward ms err ((wire_relay s)\<lparr>dir_2 := d\<rparr>)\<rparr>)"
| resume: "relay_cancelled (wire_relay s) \<Longrightarrow> relay_main (wire_relay s) = Relay_Waiting \<Longrightarrow>
    wire_step con1 con2 ms s (s\<lparr>wire_relay := relay_resume (wire_relay s)\<rparr>)"

abbreviation wire_steps ::
  "'c connection \<Rightarrow> 'd connection \<Rightarrow> messages \<Rightarrow> ('c, 'd) wire \<Rightarrow> ('c, 'd) wire \<Rightarrow> bool" where
  "wire_steps con1 con2 ms \<equiv> (wire_step con1 con2 ms)\<^sup>*\<^sup>*"

text \<open>The steps on the connections are steps of the relay.\<close>

lemma wire_step_relay: "wire_step con1 con2 ms s s' \<Longrightarrow> relay_step ms (wire_relay s) (wire_relay s')"
  by (induction rule: wire_step.induct) (auto intro: relay_step.intros)

lemma wire_steps_relay:
  "wire_steps con1 con2 ms (start_wire c1 c2) s \<Longrightarrow> relay_reachable ms (wire_relay s)"
  by (induction rule: rtranclp_induct)
    (auto simp: start_wire_def intro: relay_reachable.intros wire_step_relay)

text \<open>The two directions are the same up to the roles of the connections.\<close>

definition swap_relay :: "relay \<Rightarrow> relay" where
  "swap_relay s = s\<lparr>dir_1 := dir_2 s, dir_2 := dir_1 s\<rparr>"

definition swap_wire :: "('c, 'd) wire \<Rightarrow> ('d, 'c) wire" where
  "swap_wire s = \<lparr>wire_conn1 = wire_conn2 s, wire_conn2 = wire_conn1 s, wire_relay = swap_relay (wire_relay s)\<rparr>"

lemma swap_relay_simps [simp]:
  "dir_1 (swap_relay s) = dir_2 s" "dir_2 (swap_relay s) = dir_1 s"
  "relay_cancelled (swap_relay s) = relay_cancelled s" "relay_main (swap_relay s) = relay_main s"
  "swap_relay (swap_relay s) = s" "swap_relay (relay_resume s) = relay_resume (swap_relay s)"
  "swap_relay (end_forward ms err t) = end_forward ms err (swap_relay t)"
  "swap_relay (s\<lparr>dir_1 := d\<rparr>) = (swap_relay s)\<lparr>dir_2 := d\<rparr>"
  "swap_relay (s\<lparr>dir_2 := d\<rparr>) = (swap_relay s)\<lparr>dir_1 := d\<rparr>"
  by (simp_all add: swap_relay_def relay_resume_def end_forward_def split: option.split)

lemma swap_wire_simps [simp]:
  "wire_conn1 (swap_wire s) = wire_conn2 s" "wire_conn2 (swap_wire s) = wire_conn1 s"
  "wire_relay (swap_wire s) = swap_relay (wire_relay s)" "swap_wire (swap_wire s) = s"
  "swap_wire (s\<lparr>wire_conn1 := c\<rparr>) = (swap_wire s)\<lparr>wire_conn2 := c\<rparr>"
  "swap_wire (s\<lparr>wire_conn2 := c2\<rparr>) = (swap_wire s)\<lparr>wire_conn1 := c2\<rparr>"
  "swap_wire (s\<lparr>wire_relay := r\<rparr>) = (swap_wire s)\<lparr>wire_relay := swap_relay r\<rparr>"
  by (simp_all add: swap_wire_def)

lemma swap_wire_step: "wire_step con1 con2 ms s s' \<Longrightarrow> wire_step con2 con1 ms (swap_wire s) (swap_wire s')"
proof (induction rule: wire_step.induct)
  case (read_1 s r c ev d err)
  then show ?case using wire_step.read_2 [of "swap_wire s" con1 r c ev d err con2 ms] by simp
next
  case (write_1 s data u c2 n ev d err)
  then show ?case using wire_step.write_2 [of "swap_wire s" data con2 u c2 n ev d err con1 ms] by simp
next
  case (read_2 s r c2 ev d err)
  then show ?case using wire_step.read_1 [of "swap_wire s" con2 r c2 ev d err con1 ms] by simp
next
  case (write_2 s data u c n ev d err)
  then show ?case using wire_step.write_1 [of "swap_wire s" data con1 u c n ev d err con2 ms] by simp
next
  case (resume s)
  then show ?case using wire_step.resume [of "swap_wire s" con2 con1 ms] by simp
qed

lemma swap_wire_steps: "wire_steps con1 con2 ms s s' \<Longrightarrow> wire_steps con2 con1 ms (swap_wire s) (swap_wire s')"
  by (induction rule: rtranclp_induct) (auto intro: swap_wire_step rtranclp.rtrancl_into_rtrancl)

section \<open>What the relay relies on\<close>

locale duplex_peer = byte_peer con incoming outgoing live pieces
  for con :: "'c connection" and incoming outgoing live pieces +
  assumes read_end: "live c \<Longrightarrow> conn_read con n c = Some (Inl f, c') \<Longrightarrow>
    incoming c = [] \<and> incoming c' = [] \<and> outgoing c' = outgoing c \<and> live c'"

text \<open>TCP and TLS connections keep it on a stream whose failing read does.\<close>

locale half_closing = byte_stream lib avail sent up
  for lib :: "('s, 'm) stream_lib_scheme" and avail sent up +
  assumes some_end: "up s \<Longrightarrow> lib_read_some lib n s = Some (Inl f, s') \<Longrightarrow>
    avail s = [] \<and> avail s' = [] \<and> sent s' = sent s \<and> up s'"

sublocale half_closing \<subseteq> tcp_duplex: duplex_peer "TcpConnection lib" avail sent up "\<lambda>s. length (avail s)"
  by (unfold_locales, unfold tcp_defs) (rule some_end)

locale half_closing_stream = half_closing lib avail sent up + ssl_stream lib avail sent up
  for lib :: "('s, 'm) ssl_stream_lib_scheme" and avail sent up

sublocale half_closing_stream \<subseteq> tls_duplex: duplex_peer "TlsConnection lib" avail sent up "\<lambda>s. length (avail s)"
  by (unfold_locales, unfold tls_defs) (rule some_end)

interpretation scripted_duplex: half_closing_stream script_lib "\<lambda>s. concat (script_in s)" script_out script_up
  by unfold_locales
    (auto simp: script_lib_def script_read_some_def script_end_def split: list.splits if_splits)

section \<open>What a direction carries\<close>

text \<open>
  Of the bytes \<open>whole\<close> of its source, \<open>rest\<close> are not read yet; its sink, which had been sent
  \<open>before\<close>, has been sent \<open>now\<close>; it is over only when everything has arrived.
\<close>

definition dir_flow :: "bytes \<Rightarrow> bytes \<Rightarrow> bytes \<Rightarrow> bytes \<Rightarrow> direction \<Rightarrow> bool" where
  "dir_flow whole rest before now d \<longleftrightarrow>
     dir_inv d \<and> whole = dir_received d @ rest \<and> now = before @ dir_sent d \<and>
     (dir_phase d = Over \<longrightarrow> rest = [] \<and> dir_sent d = dir_received d)"

lemma dir_flow_new: "dir_flow whole whole before before new_direction"
  by (simp add: dir_flow_def new_direction_def dir_inv_def)

lemma dir_flow_over: "dir_flow whole rest before now d \<Longrightarrow> dir_phase d = Over \<Longrightarrow> now = before @ whole"
  by (simp add: dir_flow_def)

lemma dir_flow_idle: "dir_flow whole [] before now d \<Longrightarrow> dir_phase d = Reading \<Longrightarrow> now = before @ whole"
  by (simp add: dir_flow_def dir_inv_def)

text \<open>The chunk in the hands of a direction, and what a flow says of the two streams.\<close>

definition chunk_of :: "direction \<Rightarrow> bytes" where
  "chunk_of d = (case dir_phase d of Writing data \<Rightarrow> data | _ \<Rightarrow> [])"

lemma dir_flow_streams:
  assumes "dir_flow whole rest before now d"
  shows "\<exists>sent. now = before @ sent \<and> whole = sent @ chunk_of d @ rest \<and> (dir_phase d = Over \<longrightarrow> sent = whole)"
  using assms by (auto simp: dir_flow_def dir_inv_def chunk_of_def split: phase.splits)

context duplex_peer
begin

lemma flow_read:
  assumes "live c" "conn_read con 4096 c = Some (r, c')" "read_event r = Some ev" "dir_phase d = Reading"
    and "forward_step d ev = Some (d', err)" "dir_flow whole (incoming c) before now d"
  shows "dir_flow whole (incoming c') before now d' \<and> live c' \<and> outgoing c' = outgoing c"
proof (cases r)
  case (Inl f)
  then show ?thesis
    using assms read_end [OF assms(1), of 4096 f c'] 
    by (cases f) (auto simp: forward_step.simps dir_flow_def dir_inv_def)
next
  case (Inr data)
  then show ?thesis
    using assms read_inv [OF assms(1), of 4096 data c']
    by (auto simp: forward_step.simps dir_flow_def dir_inv_def)
qed

lemma flow_write:
  assumes "live c" "conn_write con data c = Some (u, c')" "write_event n u = Some ev" "dir_phase d = Writing data"
    and "forward_step d ev = Some (d', err)" "dir_flow whole rest before (outgoing c) d"
  shows "dir_flow whole rest before (outgoing c') d' \<and> live c' \<and> incoming c' = incoming c \<and> pieces c' = pieces c \<and>
    dir_phase d' = Reading"
  using assms write_all [OF assms(1), of data] by (auto simp: forward_step.simps dir_flow_def dir_inv_def)

end

section \<open>Two connections\<close>

definition idle :: "direction \<Rightarrow> bool" where
  "idle d \<longleftrightarrow> dir_phase d = Reading \<or> dir_phase d = Over"

text \<open>Both directions of a relay between \<open>c1\<close> and \<open>c2\<close>, each in its state now.\<close>

definition wire_inv ::
  "('c \<Rightarrow> bytes) \<Rightarrow> ('c \<Rightarrow> bytes) \<Rightarrow> ('c \<Rightarrow> bool) \<Rightarrow> ('d \<Rightarrow> bytes) \<Rightarrow> ('d \<Rightarrow> bytes) \<Rightarrow> ('d \<Rightarrow> bool) \<Rightarrow>
   'c \<Rightarrow> 'd \<Rightarrow> ('c, 'd) wire \<Rightarrow> bool" where
  "wire_inv in1 out1 live1 in2 out2 live2 c1 c2 s \<longleftrightarrow>
     live1 (wire_conn1 s) \<and> live2 (wire_conn2 s) \<and>
     dir_flow (in1 c1) (in1 (wire_conn1 s)) (out2 c2) (out2 (wire_conn2 s)) (dir_1 (wire_relay s)) \<and>
     dir_flow (in2 c2) (in2 (wire_conn2 s)) (out1 c1) (out1 (wire_conn1 s)) (dir_2 (wire_relay s))"

lemma end_forward_dirs [simp]:
  "dir_1 (end_forward ms err s) = dir_1 s" "dir_2 (end_forward ms err s) = dir_2 s"
  by (simp_all add: end_forward_def split: option.split)

lemma wire_inv_swap:
  "wire_inv in2 out2 live2 in1 out1 live1 c2 c1 (swap_wire s) \<longleftrightarrow> wire_inv in1 out1 live1 in2 out2 live2 c1 c2 s"
  by (auto simp: wire_inv_def)

locale relayed = one: duplex_peer con1 in1 out1 live1 pieces1 + two: duplex_peer con2 in2 out2 live2 pieces2
  for con1 :: "'c connection" and in1 out1 live1 pieces1 and con2 :: "'d connection" and in2 out2 live2 pieces2
begin

lemma wire_inv_start: "live1 c1 \<Longrightarrow> live2 c2 \<Longrightarrow> wire_inv in1 out1 live1 in2 out2 live2 c1 c2 (start_wire c1 c2)"
  by (simp add: wire_inv_def start_wire_def start_relay_def dir_flow_new)

lemma wire_inv_step: "wire_step con1 con2 ms s s' \<Longrightarrow> wire_inv in1 out1 live1 in2 out2 live2 c1 c2 s \<Longrightarrow> wire_inv in1 out1 live1 in2 out2 live2 c1 c2 s'"
proof (induction rule: wire_step.induct)
  case (read_1 s r c ev d err)
  then show ?case
    using one.flow_read [OF _ read_1(2,3,1,4), of "in1 c1" "out2 c2" "out2 (wire_conn2 s)"] by (auto simp: wire_inv_def)
next
  case (write_1 s data u c n ev d err)
  then show ?case
    using two.flow_write [OF _ write_1(2,3,1,4), of "in1 c1" "in1 (wire_conn1 s)" "out2 c2"] by (auto simp: wire_inv_def)
next
  case (read_2 s r c ev d err)
  then show ?case
    using two.flow_read [OF _ read_2(2,3,1,4), of "in2 c2" "out1 c1" "out1 (wire_conn1 s)"] by (auto simp: wire_inv_def)
next
  case (write_2 s data u c n ev d err)
  then show ?case
    using one.flow_write [OF _ write_2(2,3,1,4), of "in2 c2" "in2 (wire_conn2 s)" "out1 c1"] by (auto simp: wire_inv_def)
qed (simp add: wire_inv_def relay_resume_def)

lemma wire_inv_steps: "wire_steps con1 con2 ms s s' \<Longrightarrow> wire_inv in1 out1 live1 in2 out2 live2 c1 c2 s \<Longrightarrow> wire_inv in1 out1 live1 in2 out2 live2 c1 c2 s'"
  by (induction rule: rtranclp_induct) (auto intro: wire_inv_step)

text \<open>The first direction can be driven until its source is empty and its chunk written; the second is not touched.\<close>

lemma write_1_possible:
  assumes "wire_inv in1 out1 live1 in2 out2 live2 c1 c2 s" "dir_phase (dir_1 (wire_relay s)) = Writing data"
  shows "\<exists>s'. wire_step con1 con2 ms s s' \<and> dir_phase (dir_1 (wire_relay s')) = Reading \<and>
    wire_conn1 s' = wire_conn1 s \<and> in2 (wire_conn2 s') = in2 (wire_conn2 s) \<and> dir_2 (wire_relay s') = dir_2 (wire_relay s)"
proof -
  have "live2 (wire_conn2 s)" using assms(1) by (simp add: wire_inv_def)
  then obtain c where c: "conn_write con2 data (wire_conn2 s) = Some (Inr (), c)" "in2 c = in2 (wire_conn2 s)"
    by (rule two.write_obtain)
  let ?d = "(dir_1 (wire_relay s))\<lparr>dir_phase := Reading, dir_sent := dir_sent (dir_1 (wire_relay s)) @ data\<rparr>"
  have "forward_step (dir_1 (wire_relay s)) Write_Ok = Some (?d, None)" using assms(2) by (simp add: forward_step.simps)
  note step = wire_step.write_1 [OF assms(2) c(1) write_event.simps(1) this, of con1 ms]
  show ?thesis by (rule exI, intro conjI, rule step) (simp_all add: c(2))
qed

lemma read_1_possible:
  assumes "wire_inv in1 out1 live1 in2 out2 live2 c1 c2 s" "dir_phase (dir_1 (wire_relay s)) = Reading" "in1 (wire_conn1 s) \<noteq> []"
  shows "\<exists>s' data. wire_step con1 con2 ms s s' \<and> dir_phase (dir_1 (wire_relay s')) = Writing data \<and>
    pieces1 (wire_conn1 s') < pieces1 (wire_conn1 s) \<and> wire_conn2 s' = wire_conn2 s \<and>
    dir_2 (wire_relay s') = dir_2 (wire_relay s)"
proof -
  have "live1 (wire_conn1 s)" using assms(1) by (simp add: wire_inv_def)
  then obtain data c where
    c: "conn_read con1 4096 (wire_conn1 s) = Some (Inr data, c)" "pieces1 c < pieces1 (wire_conn1 s)"
    using one.read_some [OF _ assms(3), of 4096] by auto
  let ?d = "(dir_1 (wire_relay s))\<lparr>dir_phase := Writing data, dir_received := dir_received (dir_1 (wire_relay s)) @ data\<rparr>"
  have "forward_step (dir_1 (wire_relay s)) (Read_Ok data) = Some (?d, None)" using assms(2) by (simp add: forward_step.simps)
  note step = wire_step.read_1 [OF assms(2) c(1) read_event.simps(1) this, of con2 ms]
  show ?thesis by (rule exI, rule exI [of _ data], intro conjI, rule step) (simp_all add: c(2))
qed

lemma drain_1:
  "wire_inv in1 out1 live1 in2 out2 live2 c1 c2 s \<Longrightarrow> \<exists>s'. wire_steps con1 con2 ms s s' \<and> in1 (wire_conn1 s') = [] \<and> idle (dir_1 (wire_relay s')) \<and>
     in2 (wire_conn2 s') = in2 (wire_conn2 s) \<and> dir_2 (wire_relay s') = dir_2 (wire_relay s)"
proof (induction "2 * pieces1 (wire_conn1 s) + (if idle (dir_1 (wire_relay s)) then 0 else 1)" arbitrary: s rule: less_induct)
  case less
  show ?case
  proof (cases "dir_phase (dir_1 (wire_relay s))")
    case Reading
    show ?thesis
    proof (cases "in1 (wire_conn1 s) = []")
      case True
      then show ?thesis using Reading by (auto simp: idle_def)
    next
      case False
      from read_1_possible [OF less(2) Reading False, of ms] obtain s' data where
        s': "wire_step con1 con2 ms s s'" "dir_phase (dir_1 (wire_relay s')) = Writing data"
          "pieces1 (wire_conn1 s') < pieces1 (wire_conn1 s)" "wire_conn2 s' = wire_conn2 s"
          "dir_2 (wire_relay s') = dir_2 (wire_relay s)"
        by blast
      have "2 * pieces1 (wire_conn1 s') + (if idle (dir_1 (wire_relay s')) then 0 else 1) <
          2 * pieces1 (wire_conn1 s) + (if idle (dir_1 (wire_relay s)) then 0 else 1)"
        using s'(3) by simp
      from less(1) [OF this wire_inv_step [OF s'(1) less(2)]] s'(1,4,5) show ?thesis
        by (metis converse_rtranclp_into_rtranclp)
    qed
  next
    case (Writing data)
    from write_1_possible [OF less(2) Writing, of ms] obtain s' where
      s': "wire_step con1 con2 ms s s'" "dir_phase (dir_1 (wire_relay s')) = Reading" "wire_conn1 s' = wire_conn1 s"
        "in2 (wire_conn2 s') = in2 (wire_conn2 s)" "dir_2 (wire_relay s') = dir_2 (wire_relay s)"
      by blast
    have "2 * pieces1 (wire_conn1 s') + (if idle (dir_1 (wire_relay s')) then 0 else 1) <
        2 * pieces1 (wire_conn1 s) + (if idle (dir_1 (wire_relay s)) then 0 else 1)"
      using s'(2,3) Writing by (simp add: idle_def)
    from less(1) [OF this wire_inv_step [OF s'(1) less(2)]] s'(1,4,5) show ?thesis
      by (metis converse_rtranclp_into_rtranclp)
  next
    case Over
    then show ?thesis using less(2) by (auto simp: idle_def wire_inv_def dir_flow_def)
  qed
qed

end

lemma relayed_swap:
  "relayed con1 in1 out1 live1 pieces1 con2 in2 out2 live2 pieces2 \<Longrightarrow>
   relayed con2 in2 out2 live2 pieces2 con1 in1 out1 live1 pieces1"
  by (simp add: relayed_def)

context relayed
begin

lemma deliver_all:
  assumes "wire_inv in1 out1 live1 in2 out2 live2 c1 c2 s"
  shows "\<exists>s'. wire_steps con1 con2 ms s s' \<and> out2 (wire_conn2 s') = out2 c2 @ in1 c1 \<and>
    out1 (wire_conn1 s') = out1 c1 @ in2 c2"
proof -
  from drain_1 [OF assms, of ms] obtain s1 where
    s1: "wire_steps con1 con2 ms s s1" "in1 (wire_conn1 s1) = []" "idle (dir_1 (wire_relay s1))" by blast
  have inv1: "wire_inv in1 out1 live1 in2 out2 live2 c1 c2 s1" by (rule wire_inv_steps [OF s1(1) assms])
  from relayed.drain_1 [OF relayed_swap [OF relayed_axioms] wire_inv_swap [THEN iffD2, OF inv1], of ms] obtain t where
    t: "wire_steps con2 con1 ms (swap_wire s1) t" "in2 (wire_conn1 t) = []"
      "idle (dir_1 (wire_relay t))" "in1 (wire_conn2 t) = []" "dir_2 (wire_relay t) = dir_1 (wire_relay s1)"
    using s1(2) by auto
  have steps: "wire_steps con1 con2 ms s (swap_wire t)"
    using s1(1) swap_wire_steps [OF t(1)] by (metis rtranclp_trans swap_wire_simps(4))
  have inv: "wire_inv in1 out1 live1 in2 out2 live2 c1 c2 (swap_wire t)" by (rule wire_inv_steps [OF steps assms])
  then show ?thesis
    using steps t s1(3) unfolding wire_inv_def idle_def
    by (intro exI [of _ "swap_wire t"]) (auto dest: dir_flow_over dir_flow_idle)
qed

end

lemma relayed_inv:
  assumes "duplex_peer con1 in1 out1 live1 pieces1" and "duplex_peer con2 in2 out2 live2 pieces2"
    and "live1 c1" and "live2 c2" and "wire_steps con1 con2 ms (start_wire c1 c2) s"
  shows "wire_inv in1 out1 live1 in2 out2 live2 c1 c2 s"
proof -
  have r: "relayed con1 in1 out1 live1 pieces1 con2 in2 out2 live2 pieces2" by (rule relayed.intro [OF assms(1,2)])
  show ?thesis by (rule relayed.wire_inv_steps [OF r assms(5)]) (rule relayed.wire_inv_start [OF r assms(3,4)])
qed

section \<open>When anything may fail\<close>

text \<open>
  On connections that only promise to be honest, a direction has sent its sink a beginning of what its source sends,
  and while it goes on, nothing is missing but its chunk.
\<close>

definition dir_sends :: "bytes \<Rightarrow> bytes \<Rightarrow> bytes \<Rightarrow> bytes \<Rightarrow> direction \<Rightarrow> bool" where
  "dir_sends whole rest before now d \<longleftrightarrow>
     (\<exists>sent. now = before @ sent \<and> prefix sent whole \<and> (dir_phase d \<noteq> Over \<longrightarrow> whole = sent @ chunk_of d @ rest))"

lemma dir_sends_new: "dir_sends whole whole before before new_direction"
  by (simp add: dir_sends_def new_direction_def chunk_of_def)

lemma dir_sends_over:
  "dir_sends whole rest before now d \<Longrightarrow> dir_phase d' = Over \<Longrightarrow> dir_sends whole rest' before now d'"
  by (auto simp: dir_sends_def)

context honest_peer
begin

lemma sends_read:
  assumes "live c" "conn_read con 4096 c = Some (r, c')" "read_event r = Some ev" "dir_phase d = Reading"
    and "forward_step d ev = Some (d', err)" "dir_sends whole (incoming c) before now d"
  shows "dir_sends whole (incoming c') before now d' \<and> live c' \<and> outgoing c' = outgoing c"
proof (cases r)
  case (Inl f)
  then have "dir_phase d' = Over"
    using assms(3-5) by (cases f) (auto simp: forward_step.simps)
  then show ?thesis
    using dir_sends_over [OF assms(6), of d' "incoming c'"] read_failed [OF assms(1)] assms(2) Inl by blast
next
  case (Inr data)
  then show ?thesis
    using assms read_inv [OF assms(1), of 4096 data c']
    by (auto simp: forward_step.simps dir_sends_def chunk_of_def)
qed

lemma sends_write:
  assumes "live c" "conn_write con data c = Some (u, c')" "write_event n u = Some ev" "dir_phase d = Writing data"
    and "forward_step d ev = Some (d', err)" "dir_sends whole rest before (outgoing c) d"
  shows "dir_sends whole rest before (outgoing c') d' \<and> live c' \<and> incoming c' = incoming c"
proof (cases u)
  case (Inl f)
  then obtain part where part: "prefix part data" "outgoing c' = outgoing c @ part" "incoming c' = incoming c" "live c'"
    using write_failed [OF assms(1)] assms(2) by blast
  obtain sent where sent: "outgoing c = before @ sent" "whole = sent @ data @ rest"
    using assms(4,6) by (auto simp: dir_sends_def chunk_of_def)
  have "dir_phase d' = Over"
    using assms(3-5) Inl by (cases f) (auto simp: forward_step.simps)
  then show ?thesis using part sent by (auto simp: dir_sends_def prefix_def)
next
  case (Inr x)
  then show ?thesis
    using assms write_inv [OF assms(1), of data c']
    by (auto simp: forward_step.simps dir_sends_def chunk_of_def)
qed

end

definition wire_sends ::
  "('c \<Rightarrow> bytes) \<Rightarrow> ('c \<Rightarrow> bytes) \<Rightarrow> ('c \<Rightarrow> bool) \<Rightarrow> ('d \<Rightarrow> bytes) \<Rightarrow> ('d \<Rightarrow> bytes) \<Rightarrow> ('d \<Rightarrow> bool) \<Rightarrow>
   'c \<Rightarrow> 'd \<Rightarrow> ('c, 'd) wire \<Rightarrow> bool" where
  "wire_sends in1 out1 live1 in2 out2 live2 c1 c2 s \<longleftrightarrow>
     live1 (wire_conn1 s) \<and> live2 (wire_conn2 s) \<and>
     dir_sends (in1 c1) (in1 (wire_conn1 s)) (out2 c2) (out2 (wire_conn2 s)) (dir_1 (wire_relay s)) \<and>
     dir_sends (in2 c2) (in2 (wire_conn2 s)) (out1 c1) (out1 (wire_conn1 s)) (dir_2 (wire_relay s))"

locale honest_relay = one: honest_peer con1 in1 out1 live1 + two: honest_peer con2 in2 out2 live2
  for con1 :: "'c connection" and in1 out1 live1 and con2 :: "'d connection" and in2 out2 live2
begin

abbreviation sends where "sends \<equiv> wire_sends in1 out1 live1 in2 out2 live2"

lemma wire_sends_start: "live1 c1 \<Longrightarrow> live2 c2 \<Longrightarrow> sends c1 c2 (start_wire c1 c2)"
  by (simp add: wire_sends_def start_wire_def start_relay_def dir_sends_new)

lemma wire_sends_step: "wire_step con1 con2 ms s s' \<Longrightarrow> sends c1 c2 s \<Longrightarrow> sends c1 c2 s'"
proof (induction rule: wire_step.induct)
  case (read_1 s r c ev d err)
  then show ?case using one.sends_read [OF _ read_1(2,3,1,4)] by (auto simp: wire_sends_def)
next
  case (write_1 s data u c n ev d err)
  then show ?case using two.sends_write [OF _ write_1(2,3,1,4)] by (auto simp: wire_sends_def)
next
  case (read_2 s r c ev d err)
  then show ?case using two.sends_read [OF _ read_2(2,3,1,4)] by (auto simp: wire_sends_def)
next
  case (write_2 s data u c n ev d err)
  then show ?case using one.sends_write [OF _ write_2(2,3,1,4)] by (auto simp: wire_sends_def)
qed (simp add: wire_sends_def relay_resume_def)

lemma wire_sends_steps: "wire_steps con1 con2 ms s s' \<Longrightarrow> sends c1 c2 s \<Longrightarrow> sends c1 c2 s'"
  by (induction rule: rtranclp_induct) (auto intro: wire_sends_step)

lemma relay_streams:
  assumes "live1 c1" "live2 c2" "wire_steps con1 con2 ms (start_wire c1 c2) s"
  obtains sent got where "out2 (wire_conn2 s) = out2 c2 @ sent" "prefix sent (in1 c1)"
    "dir_phase (dir_1 (wire_relay s)) \<noteq> Over \<Longrightarrow> in1 c1 = sent @ chunk_of (dir_1 (wire_relay s)) @ in1 (wire_conn1 s)"
    "out1 (wire_conn1 s) = out1 c1 @ got" "prefix got (in2 c2)"
    "dir_phase (dir_2 (wire_relay s)) \<noteq> Over \<Longrightarrow> in2 c2 = got @ chunk_of (dir_2 (wire_relay s)) @ in2 (wire_conn2 s)"
  using wire_sends_steps [OF assms(3) wire_sends_start [OF assms(1,2)]] by (auto simp: wire_sends_def dir_sends_def)

end

interpretation broken_relay: honest_relay "TcpConnection flaky_lib" "\<lambda>s. until_reset (flaky_in s)" flaky_out "\<lambda>s. True"
    "TlsConnection flaky_lib" "\<lambda>s. until_reset (flaky_in s)" flaky_out "\<lambda>s. True"
  by (rule honest_relay.intro [OF broken.tcp_honest.honest_peer_axioms broken.tls_honest.honest_peer_axioms])

interpretation scripted_relay: relayed "TcpConnection script_lib" "\<lambda>s. concat (script_in s)" script_out script_up
    "\<lambda>s. length (concat (script_in s))" "TlsConnection script_lib" "\<lambda>s. concat (script_in s)" script_out script_up
    "\<lambda>s. length (concat (script_in s))"
  by (rule relayed.intro [OF scripted_duplex.tcp_duplex.duplex_peer_axioms scripted_duplex.tls_duplex.duplex_peer_axioms])

section \<open>Properties\<close>

text \<open>Between two connections whose failing read means the end of the stream, the relay is transparent in every
  state it reaches: what the second peer has been sent is a beginning of what the first one sends, the bytes still
  missing are the one chunk in the relay's hands and those not read yet, and a direction is over only after everything
  has been delivered; and the same the other way round.\<close>

theorem relay_carries_streams:
  assumes "duplex_peer con1 in1 out1 live1 pieces1" and "duplex_peer con2 in2 out2 live2 pieces2"
    and "live1 c1" and "live2 c2" and "wire_steps con1 con2 ms (start_wire c1 c2) s"
  shows "\<exists>sent1 sent2.
    out2 (wire_conn2 s) = out2 c2 @ sent1 \<and>
    in1 c1 = sent1 @ chunk_of (dir_1 (wire_relay s)) @ in1 (wire_conn1 s) \<and>
    (dir_phase (dir_1 (wire_relay s)) = Over \<longrightarrow> sent1 = in1 c1) \<and>
    out1 (wire_conn1 s) = out1 c1 @ sent2 \<and>
    in2 c2 = sent2 @ chunk_of (dir_2 (wire_relay s)) @ in2 (wire_conn2 s) \<and>
    (dir_phase (dir_2 (wire_relay s)) = Over \<longrightarrow> sent2 = in2 c2)"
proof -
  have "wire_inv in1 out1 live1 in2 out2 live2 c1 c2 s" by (rule relayed_inv [OF assms])
  then show ?thesis unfolding wire_inv_def using dir_flow_streams by meson
qed


text \<open>A client with two chunks and a server with one: the relay after the first chunk was read.\<close>

definition wire_client :: script where
  "wire_client = \<lparr>script_in = [[1, 2], [3]], script_out = [9], script_eof = True\<rparr>"

definition wire_server :: script where
  "wire_server = \<lparr>script_in = [[7]], script_out = [8], script_eof = True\<rparr>"

definition first_read :: "(script, script) wire" where
  "first_read = \<lparr>wire_conn1 = wire_client\<lparr>script_in := [[3]]\<rparr>, wire_conn2 = wire_server,
     wire_relay = start_relay\<lparr>dir_1 := \<lparr>dir_phase = Writing [1, 2], dir_received = [1, 2], dir_sent = []\<rparr>\<rparr>\<rparr>"

lemma wire_scripts_up: "script_up wire_client" "script_up wire_server"
  by (simp_all add: wire_client_def wire_server_def script_up_def)

lemma first_read_reached:
  "wire_steps (TcpConnection script_lib) (TlsConnection script_lib) quiet (start_wire wire_client wire_server) first_read"
proof -
  let ?s = "start_wire wire_client wire_server"
  have read: "conn_read (TcpConnection script_lib) 4096 (wire_conn1 ?s) = Some (Inr [1, 2], wire_client\<lparr>script_in := [[3]]\<rparr>)"
    by (simp add: TcpConnection_def scripted.read_some_eq [unfolded Let_def] TcpConnection_read_def start_wire_def)
      (simp add: script_lib_def script_read_some_def wire_client_def)
  have step: "forward_step (dir_1 (wire_relay ?s)) (Read_Ok [1, 2]) =
      Some (\<lparr>dir_phase = Writing [1, 2], dir_received = [1, 2], dir_sent = []\<rparr>, None)"
    by (simp add: start_wire_def start_relay_def new_direction_def forward_step.simps)
  have "dir_phase (dir_1 (wire_relay ?s)) = Reading" by (simp add: start_wire_def start_relay_def new_direction_def)
  from wire_step.read_1 [OF this read read_event.simps(1) step, of "TlsConnection script_lib" quiet] show ?thesis
    by (simp add: start_wire_def first_read_def end_forward_def r_into_rtranclp)
qed

theorem relay_carries_streams_witness:
  "\<exists>sent. script_out (wire_conn2 first_read) = [8] @ sent \<and> [1, 2, 3] = sent @ chunk_of (dir_1 (wire_relay first_read)) @ [3]"
  using relay_carries_streams [OF scripted_duplex.tcp_duplex.duplex_peer_axioms scripted_duplex.tls_duplex.duplex_peer_axioms
      wire_scripts_up first_read_reached]
  by (auto simp: wire_client_def wire_server_def first_read_def)


text \<open>C12: whatever fails and whenever, on connections that only do what their results say, each peer has been sent a
  beginning of what the other one sends, in order and unchanged; and as long as a direction goes on, nothing of its
  stream is missing but the chunk in its hands.\<close>

theorem relay_sends_beginnings:
  assumes "honest_peer con1 in1 out1 live1" and "honest_peer con2 in2 out2 live2"
    and "live1 c1" and "live2 c2" and "wire_steps con1 con2 ms (start_wire c1 c2) s"
  shows "\<exists>sent1 sent2.
    out2 (wire_conn2 s) = out2 c2 @ sent1 \<and> prefix sent1 (in1 c1) \<and>
    (dir_phase (dir_1 (wire_relay s)) \<noteq> Over \<longrightarrow>
       in1 c1 = sent1 @ chunk_of (dir_1 (wire_relay s)) @ in1 (wire_conn1 s)) \<and>
    out1 (wire_conn1 s) = out1 c1 @ sent2 \<and> prefix sent2 (in2 c2) \<and>
    (dir_phase (dir_2 (wire_relay s)) \<noteq> Over \<longrightarrow>
       in2 c2 = sent2 @ chunk_of (dir_2 (wire_relay s)) @ in2 (wire_conn2 s))"
  by (rule honest_relay.relay_streams [OF honest_relay.intro [OF assms(1,2)] assms(3-5)]) blast

text \<open>A server that takes two bytes and breaks while the third is written.\<close>

definition full_client :: flaky where
  "full_client = \<lparr>flaky_in = [Some [1, 2, 3]], flaky_out = [], flaky_room = 0\<rparr>"

definition full_server :: flaky where
  "full_server = \<lparr>flaky_in = [], flaky_out = [8], flaky_room = 2\<rparr>"

definition broken_write :: "(flaky, flaky) wire" where
  "broken_write = \<lparr>wire_conn1 = full_client\<lparr>flaky_in := []\<rparr>, wire_conn2 = full_server\<lparr>flaky_out := [8, 1, 2], flaky_room := 0\<rparr>,
     wire_relay = start_relay\<lparr>dir_1 := \<lparr>dir_phase = Over, dir_received = [1, 2, 3], dir_sent = [1, 2]\<rparr>,
       relay_log := log_error quiet ''tcp forward'' (System_Error Eof), relay_cancelled := True\<rparr>\<rparr>"

lemma broken_write_reached:
  "wire_steps (TcpConnection flaky_lib) (TlsConnection flaky_lib) quiet (start_wire full_client full_server) broken_write"
proof -
  let ?s = "start_wire full_client full_server"
  let ?t = "?s\<lparr>wire_conn1 := full_client\<lparr>flaky_in := []\<rparr>,
    wire_relay := start_relay\<lparr>dir_1 := \<lparr>dir_phase = Writing [1, 2, 3], dir_received = [1, 2, 3], dir_sent = []\<rparr>\<rparr>\<rparr>"
  have read: "conn_read (TcpConnection flaky_lib) 4096 (wire_conn1 ?s) = Some (Inr [1, 2, 3], full_client\<lparr>flaky_in := []\<rparr>)"
    by (simp add: TcpConnection_def broken.read_some_eq [unfolded Let_def] TcpConnection_read_def start_wire_def)
      (simp add: flaky_lib_def flaky_read_some_def full_client_def)
  have ph: "dir_phase (dir_1 (wire_relay ?s)) = Reading" by (simp add: start_wire_def start_relay_def new_direction_def)
  have "forward_step (dir_1 (wire_relay ?s)) (Read_Ok [1, 2, 3]) =
      Some (\<lparr>dir_phase = Writing [1, 2, 3], dir_received = [1, 2, 3], dir_sent = []\<rparr>, None)"
    by (simp add: start_wire_def start_relay_def new_direction_def forward_step.simps)
  from wire_step.read_1 [OF ph read read_event.simps(1) this, of "TlsConnection flaky_lib" quiet]
  have one: "wire_step (TcpConnection flaky_lib) (TlsConnection flaky_lib) quiet ?s ?t"
    by (simp add: start_wire_def end_forward_def)
  have wr: "conn_write (TlsConnection flaky_lib) [1, 2, 3] (wire_conn2 ?t) =
      Some (Inl (Raised (System_Error Eof)), full_server\<lparr>flaky_out := [8, 1, 2], flaky_room := 0\<rparr>)"
    by (simp add: TlsConnection_def TlsConnection_write_def flaky_lib_def flaky_write_def full_server_def start_wire_def)
  have ph2: "dir_phase (dir_1 (wire_relay ?t)) = Writing [1, 2, 3]" by simp
  have "forward_step (dir_1 (wire_relay ?t)) (Write_Err 2 (System_Error Eof)) =
      Some (\<lparr>dir_phase = Over, dir_received = [1, 2, 3], dir_sent = [1, 2]\<rparr>, Some (System_Error Eof))"
    by (simp add: forward_step.simps)
  from wire_step.write_1 [OF ph2 wr write_event.simps(2) this, of "TcpConnection flaky_lib" quiet]
  have "wire_step (TcpConnection flaky_lib) (TlsConnection flaky_lib) quiet ?t broken_write"
    by (simp add: start_wire_def end_forward_def broken_write_def start_relay_def)
  with one show ?thesis by (meson converse_rtranclp_into_rtranclp r_into_rtranclp)
qed

theorem relay_sends_beginnings_witness:
  "\<exists>sent. flaky_out (wire_conn2 broken_write) = [8] @ sent \<and> prefix sent [1, 2, 3]"
  using relay_sends_beginnings [OF broken.tcp_honest.honest_peer_axioms broken.tls_honest.honest_peer_axioms TrueI TrueI
      broken_write_reached]
  by (auto simp: full_client_def full_server_def)

end
