(* ===== verification/Proxy.thy ===== *)
theory Proxy
  imports App Relay_Io
begin

text \<open>
  The running proxy as a whole: the application of \<^verbatim>\<open>App\<close> with the connections its sessions work on. A client
  comes with a connection; its handler in the inbound accepts a session, the application routes it, the outbound connects
  and the relay works on the two connections, and the handlers of all clients interleave. A session's connection is in
  nobody else's hands between the inbound's handler and the application's, so the two are one step here; the queue
  between them is \<^verbatim>\<open>Mixed_Inbound\<close>'s. Without the connections this is the system of \<^verbatim>\<open>App\<close>.
\<close>

section \<open>The program's surroundings\<close>

text \<open>The library's functions the handlers use, the classes of the connections on both sides.\<close>

record ('c, 's, 'w) surroundings =
  su_parse_uri :: parse_url
  su_make_address :: make_address
  su_show_ip :: "ip_address \<Rightarrow> string"
  su_messages :: messages
  su_client :: "'c connection"
  su_server :: "('s, 'w) conn_object connection"

text \<open>What the transport of an outbound comes back with for a session, and the connection if it is one.\<close>

fun outbound_transport :: "('s, 'w) client_lib \<Rightarrow> outbound_obj \<Rightarrow> out_tcp_session \<Rightarrow> ('s, 'w) conn_object awaited" where
  "outbound_transport lib Direct_Outbound os = TcpTransport_connect lib (out_address os)"
| "outbound_transport lib (Vless_Outbound tr server uuid) os = Transport_connect lib tr server"

definition reached :: "'d awaited \<Rightarrow> 'd option" where
  "reached r = (case r of Some (Inr c) \<Rightarrow> Some c | _ \<Rightarrow> None)"

section \<open>Steps\<close>

text \<open>
  Beside the system, what each session started from: the connection its client came with, and the connection to its
  server as the transport returned it. Neither is used by a step.
\<close>

record ('c, 'd) proxy =
  px_system :: "('c, 'd) system"
  px_clients :: "'c list"
  px_servers :: "'d option list"

definition start_proxy :: "app \<Rightarrow> ('c, 'd) proxy" where
  "start_proxy app = \<lparr>px_system = start_system app, px_clients = [], px_servers = []\<rparr>"

definition px_stage :: "('c, 'd) proxy \<Rightarrow> nat \<Rightarrow> ('c, 'd) stage" where
  "px_stage p i = sys_stages (px_system p) ! i"

definition px_size :: "('c, 'd) proxy \<Rightarrow> nat" where
  "px_size p = length (sys_stages (px_system p))"

text \<open>A session's stage after a step of its relay.\<close>

definition px_forward :: "nat \<Rightarrow> ('c, 'd) wire \<Rightarrow> bool \<Rightarrow> ('c, 'd) proxy \<Rightarrow> ('c, 'd) proxy" where
  "px_forward i w over p = p\<lparr>px_system := (px_system p)\<lparr>sys_stages :=
     (sys_stages (px_system p))[i := Running (wire_conn1 w) (wire_conn2 w) (wire_relay w) over]\<rparr>\<rparr>"

text \<open>
  \<open>arrives\<close> are the clients that may come; the library answers every \<^verbatim>\<open>connect\<close> anew, as one of \<open>answering\<close>.
\<close>

inductive proxy_step ::
  "('c, 's, 'w) surroundings \<Rightarrow> ('c \<Rightarrow> bool) \<Rightarrow> (('s, 'w) client_lib \<Rightarrow> bool) \<Rightarrow>
   ('c, ('s, 'w) conn_object) proxy \<Rightarrow> ('c, ('s, 'w) conn_object) proxy \<Rightarrow> bool" for su arrives answering where
  accept: "arrives c \<Longrightarrow>
    MixedInbound_handle (su_parse_uri su) (su_make_address su) (su_client su) [] c = Some (Inr (Accepted a d), c') \<Longrightarrow>
    proxy_step su arrives answering p
      \<lparr>px_system = sys_accept (su_show_ip su) (su_messages su) \<lparr>in_conn = c', in_address = a, in_firstData = d\<rparr> (px_system p),
       px_clients = px_clients p @ [c], px_servers = px_servers p @ [None]\<rparr>"
| connected: "i < px_size p \<Longrightarrow> px_stage p i = Connecting conn1 ob os \<Longrightarrow> answering lib \<Longrightarrow>
    Outbound_connect lib (su_server su) ob os = Some r \<Longrightarrow>
    proxy_step su arrives answering p
      (p\<lparr>px_system := sys_connected (su_messages su) i conn1 r (px_system p),
         px_servers := (px_servers p)[i := reached (outbound_transport lib ob os)]\<rparr>)"
| forward: "i < px_size p \<Longrightarrow> px_stage p i = Running conn1 conn2 rl over \<Longrightarrow>
    wire_step (su_client su) (su_server su) (su_messages su) \<lparr>wire_conn1 = conn1, wire_conn2 = conn2, wire_relay = rl\<rparr> w \<Longrightarrow>
    proxy_step su arrives answering p (px_forward i w over p)"
| returned: "i < px_size p \<Longrightarrow> px_stage p i = Running conn1 conn2 rl False \<Longrightarrow> relay_main rl = Relay_Returned r \<Longrightarrow>
    proxy_step su arrives answering p
      (p\<lparr>px_system := (px_system p)\<lparr>sys_stages := (sys_stages (px_system p))[i := Running conn1 conn2 rl True],
         sys_log := sys_log (px_system p) @ App_relay_end (su_messages su) rl\<rparr>\<rparr>)"

inductive proxy_reachable ::
  "('c, 's, 'w) surroundings \<Rightarrow> ('c \<Rightarrow> bool) \<Rightarrow> (('s, 'w) client_lib \<Rightarrow> bool) \<Rightarrow> app \<Rightarrow>
   ('c, ('s, 'w) conn_object) proxy \<Rightarrow> bool" for su arrives answering app where
  start: "proxy_reachable su arrives answering app (start_proxy app)"
| step: "proxy_reachable su arrives answering app p \<Longrightarrow> proxy_step su arrives answering p p' \<Longrightarrow>
    proxy_reachable su arrives answering app p'"

section \<open>The system without the connections\<close>

abbreviation forget_stage :: "('c, 'd) stage \<Rightarrow> (unit, unit) stage" where
  "forget_stage \<equiv> map_stage (\<lambda>_. ()) (\<lambda>_. ())"

definition forget :: "('c, 'd) system \<Rightarrow> (unit, unit) system" where
  "forget s = \<lparr>sys_app = sys_app s, sys_stages = map forget_stage (sys_stages s), sys_log = sys_log s\<rparr>"

lemma stage_fault_eq:
  "stage_fault ms f = (case f of Raised e \<Rightarrow> (log_error ms ''app handle session'' e, Caught e) | UB k \<Rightarrow> ([], Undefined k))"
  by (cases f) simp_all

lemma App_connect_forget:
  "App_connect app tag \<lparr>in_conn = g c, in_address = a, in_firstData = d\<rparr> =
     (case App_connect app tag \<lparr>in_conn = c, in_address = a, in_firstData = d\<rparr> of (app', st) \<Rightarrow> (app', map_stage g h st))"
  by (auto simp: App_connect_def Let_def split: prod.splits option.splits)

lemma App_handleSession_forget:
  "App_handleSession show_ip ms app \<lparr>in_conn = g c, in_address = a, in_firstData = d\<rparr> =
     (case App_handleSession show_ip ms app \<lparr>in_conn = c, in_address = a, in_firstData = d\<rparr> of
        (app', logs, st) \<Rightarrow> (app', logs, map_stage g h st))"
  by (auto simp: App_handleSession_def App_sniff_def Let_def stage_fault_eq App_connect_forget [of _ _ g c, where h = h]
      split: sum.splits option.splits if_splits fault.splits prod.splits)

lemma sys_accept_forget:
  fixes s :: "('c, 'd) system"
  shows "forget (sys_accept show_ip ms \<lparr>in_conn = c, in_address = a, in_firstData = d\<rparr> s) =
     sys_accept show_ip ms \<lparr>in_conn = (), in_address = a, in_firstData = d\<rparr> (forget s)"
  using App_handleSession_forget [of show_ip ms "sys_app s" "\<lambda>_. ()" c a d, where h = "\<lambda>_ :: 'd. ()"]
  by (auto simp: sys_accept_def forget_def split: prod.splits)

lemma sys_connected_forget:
  "forget (sys_connected ms i conn1 r s) = sys_connected ms i () (map_sum id (\<lambda>_. ()) r) (forget s)"
  by (cases r) (auto simp: sys_connected_def App_connected_def forget_def stage_fault_eq map_update split: fault.splits)

text \<open>What may arrive and be answered, once the connections are forgotten.\<close>

definition forgotten_session :: "('c, 's, 'w) surroundings \<Rightarrow> ('c \<Rightarrow> bool) \<Rightarrow> unit in_tcp_session \<Rightarrow> bool" where
  "forgotten_session su arrives s \<longleftrightarrow>
     (\<exists>c c'. arrives c \<and> MixedInbound_handle (su_parse_uri su) (su_make_address su) (su_client su) [] c =
        Some (Inr (Accepted (in_address s) (in_firstData s)), c'))"

definition forgotten_answer ::
  "('c, 's, 'w) surroundings \<Rightarrow> (('s, 'w) client_lib \<Rightarrow> bool) \<Rightarrow> outbound_obj \<Rightarrow> out_tcp_session \<Rightarrow> unit result \<Rightarrow> bool" where
  "forgotten_answer su answering ob os r \<longleftrightarrow>
     (\<exists>lib r'. answering lib \<and> Outbound_connect lib (su_server su) ob os = Some r' \<and> r = map_sum id (\<lambda>_. ()) r')"

abbreviation forgotten_step where
  "forgotten_step su arrives answering \<equiv>
     sys_step (su_show_ip su) (su_messages su) (forgotten_session su arrives) (forgotten_answer su answering)"

lemma forget_nth: "i < length (sys_stages s) \<Longrightarrow> sys_stages (forget s) ! i = forget_stage (sys_stages s ! i)"
  by (simp add: forget_def)

lemma forget_length [simp]: "length (sys_stages (forget s)) = length (sys_stages s)"
  by (simp add: forget_def)

lemmas px_defs = px_stage_def px_size_def px_forward_def

lemma proxy_step_forget:
  "proxy_step su arrives answering p p' \<Longrightarrow>
   forgotten_step su arrives answering (forget (px_system p)) (forget (px_system p'))"
proof (induction rule: proxy_step.induct)
  case (accept c a d c' p)
  then have "forgotten_session su arrives \<lparr>in_conn = (), in_address = a, in_firstData = d\<rparr>"
    by (auto simp: forgotten_session_def)
  from sys_step.accept [of "forgotten_session su arrives", OF this] show ?case by (simp add: sys_accept_forget)
next
  case (connected i p conn1 ob os lib r)
  then have "forgotten_answer su answering ob os (map_sum id (\<lambda>_. ()) r)" by (auto simp: forgotten_answer_def)
  moreover have "sys_stages (forget (px_system p)) ! i = Connecting () ob os"
    using connected(1,2) by (simp add: forget_nth px_defs)
  ultimately have "forgotten_step su arrives answering (forget (px_system p))
      (sys_connected (su_messages su) i () (map_sum id (\<lambda>_. ()) r) (forget (px_system p)))"
    using connected(1) by (intro sys_step.connected) (simp_all add: px_defs)
  then show ?case by (simp add: sys_connected_forget)
next
  case (forward i p conn1 conn2 rl over w)
  have "sys_stages (forget (px_system p)) ! i = Running () () rl over"
    using forward(1,2) by (simp add: forget_nth px_defs)
  from sys_step.forward [OF _ this] wire_step_relay [OF forward(3)] forward(1) show ?case
    by (fastforce simp: forget_def map_update px_defs)
next
  case (returned i p conn1 conn2 rl r)
  have "sys_stages (forget (px_system p)) ! i = Running () () rl False"
    using returned(1,2) by (simp add: forget_nth px_defs)
  from sys_step.returned [OF _ this returned(3)] returned(1) show ?case
    by (fastforce simp: forget_def map_update px_defs)
qed

lemma forget_start: "forget (start_system app) = start_system app"
  by (simp add: forget_def start_system_def)

lemma proxy_reachable_forget:
  "proxy_reachable su arrives answering app p \<Longrightarrow>
   sys_reachable (su_show_ip su) (su_messages su) (forgotten_session su arrives) (forgotten_answer su answering) app
     (forget (px_system p))"
proof (induction rule: proxy_reachable.induct)
  case start
  show ?case by (simp add: start_proxy_def forget_start sys_reachable.start)
next
  case (step p p')
  then show ?case by (blast intro: sys_reachable.step proxy_step_forget)
qed

section \<open>Every session runs on its own\<close>

lemma connecting_session:
  assumes "App_handleSession show_ip ms app s = (app', logs, Connecting conn ob os)"
    and "app_router app = Some r" and "wf_router r"
  obtains name where "sniffDomain (in_firstData s) = Inr name" and "conn = in_conn s"
    and "os = \<lparr>out_address = destination name (in_address s), out_firstData = in_firstData s\<rparr>"
    and "umap_find (app_outbounds app) (route_tag r (out_address os)) = Some (Some ob)"
proof -
  obtain name where name: "sniffDomain (in_firstData s) = Inr name"
    using assms(1) by (cases "sniffDomain (in_firstData s)")
      (auto simp: App_handleSession_def App_sniff_def split_beta Let_def elim: stage_fault.elims)
  let ?tag = "route_tag r (destination name (in_address s))"
  show thesis
  proof (cases "\<exists>ob. umap_find (app_outbounds app) ?tag = Some (Some ob)")
    case True
    then show thesis
      using that [OF name] assms(1) by (auto simp: App_handleSession_eq [OF name assms(2,3)] App_connect_found Let_def)
  next
    case False
    then show thesis
      using assms(1) by (auto simp: App_handleSession_eq [OF name assms(2,3)] App_connect_missing Let_def)
  qed
qed

lemma handled_not_running:
  "App_handleSession show_ip ms app s = (app', logs, st) \<Longrightarrow> st \<noteq> Running c d rl over"
  by (auto simp: App_handleSession_def App_sniff_def App_connect_def Let_def stage_fault_eq
      split: sum.splits option.splits if_splits prod.splits fault.splits)

text \<open>The session that the connection \<open>c0\<close> of a client leads to: its connection now, outbound and target.\<close>

definition session_started ::
  "('c, 's, 'w) surroundings \<Rightarrow> app \<Rightarrow> 'c \<Rightarrow> 'c \<Rightarrow> outbound_obj \<Rightarrow> out_tcp_session \<Rightarrow> bool" where
  "session_started su app c0 conn1 ob os \<longleftrightarrow>
     (\<exists>a d r name. MixedInbound_handle (su_parse_uri su) (su_make_address su) (su_client su) [] c0 = Some (Inr (Accepted a d), conn1) \<and>
        sniffDomain d = Inr name \<and> os = \<lparr>out_address = destination name a, out_firstData = d\<rparr> \<and> app_router app = Some r \<and>
        umap_find (app_outbounds app) (route_tag r (out_address os)) = Some (Some ob))"

text \<open>What has led to the stage of a session: only what concerns its own client and its own server.\<close>

fun session_run ::
  "('c, 's, 'w) surroundings \<Rightarrow> (('s, 'w) client_lib \<Rightarrow> bool) \<Rightarrow> app \<Rightarrow> 'c \<Rightarrow> ('s, 'w) conn_object option \<Rightarrow>
   ('c, ('s, 'w) conn_object) stage \<Rightarrow> bool" where
  "session_run su answering app c0 server (Connecting conn1 ob os) \<longleftrightarrow> session_started su app c0 conn1 ob os"
| "session_run su answering app c0 server (Running c1 c2 rl over) \<longleftrightarrow>
     (\<exists>conn1 ob os lib c conn2. session_started su app c0 conn1 ob os \<and> answering lib \<and>
        outbound_transport lib ob os = Some (Inr c) \<and> server = Some c \<and>
        Outbound_connect lib (su_server su) ob os = Some (Inr conn2) \<and>
        wire_steps (su_client su) (su_server su) (su_messages su) (start_wire conn1 conn2)
          \<lparr>wire_conn1 = c1, wire_conn2 = c2, wire_relay = rl\<rparr>)"
| "session_run su answering app c0 server st \<longleftrightarrow> True"

definition proxy_inv ::
  "('c, 's, 'w) surroundings \<Rightarrow> ('c \<Rightarrow> bool) \<Rightarrow> (('s, 'w) client_lib \<Rightarrow> bool) \<Rightarrow> app \<Rightarrow>
   ('c, ('s, 'w) conn_object) proxy \<Rightarrow> bool" where
  "proxy_inv su arrives answering app p \<longleftrightarrow>
     length (px_clients p) = px_size p \<and> length (px_servers p) = px_size p \<and>
     (\<forall>i < px_size p. arrives (px_clients p ! i) \<and>
        session_run su answering app (px_clients p ! i) (px_servers p ! i) (px_stage p i))"

lemma fault_run: "session_run su answering app c0 server (snd (stage_fault ms f))"
  by (cases f) simp_all

lemma handled_run:
  assumes "MixedInbound_handle (su_parse_uri su) (su_make_address su) (su_client su) [] c0 = Some (Inr (Accepted a d), c)"
    and "App_handleSession show_ip ms app' \<lparr>in_conn = c, in_address = a, in_firstData = d\<rparr> = (app'', logs, st)"
    and "wf_app app'" and "same_outbounds app app'"
  shows "session_run su answering app c0 server st"
proof (cases st)
  case (Connecting conn1 ob os)
  obtain r where r: "app_router app' = Some r" "wf_router r" using assms(3) by (auto simp: wf_app_def)
  obtain name where "sniffDomain d = Inr name" "conn1 = c" "os = \<lparr>out_address = destination name a, out_firstData = d\<rparr>"
    "umap_find (app_outbounds app') (route_tag r (out_address os)) = Some (Some ob)"
    by (rule connecting_session [OF assms(2) [unfolded Connecting] r]) simp
  then show ?thesis
    using assms(1,4) r(1) unfolding Connecting session_run.simps session_started_def same_outbounds_def
    by (intro exI [of _ a] exI [of _ d] exI [of _ r] exI [of _ name]) auto
qed (use handled_not_running [OF assms(2)] in auto)

lemma outbound_reached:
  assumes "Outbound_connect lib con ob os = Some (Inr conn2)"
  shows "\<exists>c. outbound_transport lib ob os = Some (Inr c)"
  using assms by (cases ob) (auto simp: DirectOutbound_connect_def VlessOutbound_connect_def async_bind_eq_Inr)

lemma connected_run:
  assumes "session_started su app c0 conn1 ob os" and "answering lib"
    and "Outbound_connect lib (su_server su) ob os = Some r"
  shows "session_run su answering app c0 (reached (outbound_transport lib ob os)) (snd (App_connected ms conn1 r))"
proof (cases r)
  case (Inl f)
  then show ?thesis by (simp add: App_connected_def fault_run)
next
  case (Inr conn2)
  obtain c where "outbound_transport lib ob os = Some (Inr c)"
    using outbound_reached assms(3) unfolding Inr by blast
  moreover have "wire_steps (su_client su) (su_server su) (su_messages su) (start_wire conn1 conn2)
      \<lparr>wire_conn1 = conn1, wire_conn2 = conn2, wire_relay = start_relay\<rparr>"
    by (simp add: start_wire_def)
  ultimately show ?thesis using assms unfolding Inr by (simp add: App_connected_def reached_def) blast
qed

lemma px_accept_nth:
  assumes "App_handleSession show_ip ms (sys_app (px_system p)) s = (app', logs, st)"
    and "p' = \<lparr>px_system = sys_accept show_ip ms s (px_system p), px_clients = cs, px_servers = ss\<rparr>"
  shows "px_size p' = Suc (px_size p)" "i < px_size p \<Longrightarrow> px_stage p' i = px_stage p i" "px_stage p' (px_size p) = st"
  using assms by (simp_all add: px_defs sys_accept_def nth_append)

lemma proxy_inv_accept:
  assumes "proxy_inv su arrives answering app p" and "arrives c"
    and "MixedInbound_handle (su_parse_uri su) (su_make_address su) (su_client su) [] c = Some (Inr (Accepted a d), c')"
    and "wf_app (sys_app (px_system p))" and "same_outbounds app (sys_app (px_system p))"
    and "p' = \<lparr>px_system = sys_accept show_ip ms \<lparr>in_conn = c', in_address = a, in_firstData = d\<rparr> (px_system p),
      px_clients = px_clients p @ [c], px_servers = px_servers p @ [None]\<rparr>"
  shows "proxy_inv su arrives answering app p'"
proof -
  obtain app' logs st where
    run: "App_handleSession show_ip ms (sys_app (px_system p)) \<lparr>in_conn = c', in_address = a, in_firstData = d\<rparr> =
      (app', logs, st :: ('a, ('b, 'c) conn_object) stage)"
    by (metis prod_cases3)
  note new = px_accept_nth [OF run assms(6)]
  have "session_run su answering app c None st" by (rule handled_run [OF assms(3) run assms(4,5)])
  then show ?thesis
    using assms(1,2) new unfolding proxy_inv_def by (auto simp: assms(6) nth_append less_Suc_eq)
qed

text \<open>A change of one session.\<close>

lemma proxy_inv_update:
  assumes "proxy_inv su arrives answering app p" and "i < px_size p"
    and "sys_stages (px_system p') = (sys_stages (px_system p))[i := st]" and "px_clients p' = px_clients p"
    and "px_servers p' = (px_servers p)[i := server]"
    and "session_run su answering app (px_clients p ! i) server st"
  shows "proxy_inv su arrives answering app p'"
  using assms unfolding proxy_inv_def by (auto simp: px_defs nth_list_update)

lemma proxy_inv_step:
  assumes "proxy_step su arrives answering p p'" and "proxy_inv su arrives answering app p"
    and "wf_app (sys_app (px_system p))" and "same_outbounds app (sys_app (px_system p))"
  shows "proxy_inv su arrives answering app p'"
  using assms
proof (induction rule: proxy_step.induct)
  case (accept c a d c' p)
  then show ?case by (blast intro: proxy_inv_accept)
next
  case (connected i p conn1 ob os lib r)
  then have "session_started su app (px_clients p ! i) conn1 ob os" unfolding proxy_inv_def by fastforce
  from connected_run [where answering = answering, OF this connected(3,4)] show ?case
    by (intro proxy_inv_update [OF connected(5,1)]) (simp_all add: sys_connected_def split_beta Let_def)
next
  case (forward i p conn1 conn2 rl over w)
  then have "session_run su answering app (px_clients p ! i) (px_servers p ! i) (Running conn1 conn2 rl over)"
    unfolding proxy_inv_def by fastforce
  then have run: "session_run su answering app (px_clients p ! i) (px_servers p ! i)
      (Running (wire_conn1 w) (wire_conn2 w) (wire_relay w) over)"
    using forward(3) by (cases w) (simp, meson rtranclp.rtrancl_into_rtrancl)
  show ?case by (rule proxy_inv_update [OF forward(4,1) _ _ _ run]) (simp_all add: px_defs)
next
  case (returned i p conn1 conn2 rl r)
  then have "session_run su answering app (px_clients p ! i) (px_servers p ! i) (Running conn1 conn2 rl False)"
    unfolding proxy_inv_def by fastforce
  then have run: "session_run su answering app (px_clients p ! i) (px_servers p ! i) (Running conn1 conn2 rl True)" by simp
  show ?case by (rule proxy_inv_update [OF returned(4,1) _ _ _ run]) simp_all
qed

lemma proxy_sys_inv:
  assumes "proxy_reachable su arrives answering app p" and "wf_app app"
  shows "wf_app (sys_app (px_system p)) \<and> same_outbounds app (sys_app (px_system p))"
  using sys_inv_reachable [OF proxy_reachable_forget [OF assms(1)] assms(2)] by (simp add: sys_inv_def forget_def)

lemma proxy_inv_reachable:
  "proxy_reachable su arrives answering app p \<Longrightarrow> wf_app app \<Longrightarrow> proxy_inv su arrives answering app p"
proof (induction rule: proxy_reachable.induct)
  case start
  then show ?case by (simp add: proxy_inv_def start_proxy_def start_system_def px_defs)
next
  case (step p p')
  with proxy_sys_inv [OF step.hyps(1)] show ?case by (blast intro: proxy_inv_step)
qed

end
