(* ===== verification/Proxy_Service.thy ===== *)
theory Proxy_Service
  imports Proxy
begin

text \<open>
  What the running proxy of \<^verbatim>\<open>Proxy\<close> does for its clients: the streams of a whole session, from what the client asks
  for to what its server is sent, over connections that may fail at any time.
\<close>

section \<open>What a server is sent, and answers\<close>

text \<open>
  For the bytes \<open>sent\<close> of a client: what arrives at the other end of an outbound, and which part of its answers goes
  back. A VLESS server is sent a request first, and accepts it with two bytes.
\<close>

fun outbound_sends :: "outbound_obj \<Rightarrow> address \<Rightarrow> bytes \<Rightarrow> bytes \<Rightarrow> bool" where
  "outbound_sends Direct_Outbound a sent wire \<longleftrightarrow> wire = sent"
| "outbound_sends (Vless_Outbound tr server uuid) a sent wire \<longleftrightarrow>
     (\<exists>req. vless_request uuid \<lparr>out_address = a, out_firstData = []\<rparr> = Inr req \<and> wire = req @ sent)"

fun outbound_answers :: "outbound_obj \<Rightarrow> bytes \<Rightarrow> bytes \<Rightarrow> bool" where
  "outbound_answers Direct_Outbound wire answer \<longleftrightarrow> wire = answer"
| "outbound_answers (Vless_Outbound tr server uuid) wire answer \<longleftrightarrow> wire = [0, 0] @ answer"

lemma outbound_sends_append: "outbound_sends ob a d wire \<Longrightarrow> outbound_sends ob a (d @ e) (wire @ e)"
  by (cases ob) auto

lemma vless_request_data:
  assumes "vless_request uuid os = Inr req"
  shows "outbound_sends (Vless_Outbound tr server uuid) (out_address os) (out_firstData os) req"
  using assms by (auto simp: vless_request_eq)

lemma Outbound_connect_sound:
  assumes "faithful_peer con incoming outgoing live" and "live c"
    and "Outbound_connect lib con ob os = Some (Inr conn2)" and "outbound_transport lib ob os = Some (Inr c)"
  shows "\<exists>wire. outgoing conn2 = outgoing c @ wire \<and> outbound_sends ob (out_address os) (out_firstData os) wire \<and>
    outbound_answers ob (incoming c) (incoming conn2) \<and> live conn2"
proof (cases ob)
  case Direct_Outbound
  have direct: "DirectOutbound_connect (TcpTransport_connect lib) con os = Some (Inr conn2)"
    using assms(3) unfolding Direct_Outbound by simp
  from faithful_peer.DirectOutbound_connect_sound [OF assms(1) direct] assms(2,4) show ?thesis
    unfolding Direct_Outbound by auto
next
  case (Vless_Outbound tr server uuid)
  have vless: "VlessOutbound_connect (Transport_connect lib tr) con server uuid os = Some (Inr conn2)"
    using assms(3) unfolding Vless_Outbound by simp
  from faithful_peer.VlessOutbound_connect_sound [OF assms(1) vless] assms(2,4) obtain req where
    "vless_request uuid os = Inr req" "incoming c = [0, 0] @ incoming conn2" "outgoing conn2 = outgoing c @ req" "live conn2"
    unfolding Vless_Outbound by auto
  with vless_request_data [OF this(1)] show ?thesis unfolding Vless_Outbound
    by (intro exI [of _ req]) simp
qed

section \<open>A whole session\<close>

text \<open>
  The contract of a session that relays, in the streams of its client, which came with \<open>c0\<close>, and of its server,
  reached as \<open>srv\<close>: the client asked for an address and is sent its protocol's answer and then what the server
  answers; the server the route table names for the sniffed address is sent what the client sends through. Of both
  streams a beginning has arrived.
\<close>

definition serves ::
  "('c, 's, 'w) surroundings \<Rightarrow> ('c \<Rightarrow> bytes) \<Rightarrow> ('c \<Rightarrow> bytes) \<Rightarrow> (('s, 'w) conn_object \<Rightarrow> bytes) \<Rightarrow> (('s, 'w) conn_object \<Rightarrow> bytes) \<Rightarrow>
   app \<Rightarrow> 'c \<Rightarrow> ('s, 'w) conn_object \<Rightarrow> ('c, ('s, 'w) conn_object) wire \<Rightarrow> outbound_obj \<Rightarrow> address \<Rightarrow> bytes \<Rightarrow> bool" where
  "serves su in1 out1 in2 out2 app c0 srv w ob target sent \<longleftrightarrow>
     (\<exists>r a d name payload reply wire answer got.
        client_asked (su_parse_uri su) (su_make_address su) (in1 c0) a payload reply \<and>
        prefix d payload \<and> sniffDomain d = Inr name \<and> target = destination name a \<and>
        app_router app = Some r \<and> umap_find (app_outbounds app) (route_tag r target) = Some (Some ob) \<and>
        out2 (wire_conn2 w) = out2 srv @ wire \<and> outbound_sends ob target sent wire \<and>
        prefix sent payload \<and>
        (dir_phase (dir_1 (wire_relay w)) \<noteq> Over \<longrightarrow> payload = sent @ chunk_of (dir_1 (wire_relay w)) @ in1 (wire_conn1 w)) \<and>
        outbound_answers ob (in2 srv) answer \<and>
        out1 (wire_conn1 w) = out1 c0 @ reply @ got \<and> prefix got answer \<and>
        (dir_phase (dir_2 (wire_relay w)) \<noteq> Over \<longrightarrow> answer = got @ chunk_of (dir_2 (wire_relay w)) @ in2 (wire_conn2 w)))"

lemma session_serves:
  fixes su :: "('c, 's, 'w) surroundings"
  assumes "honest_peer (su_client su) in1 out1 live1" and "honest_peer (su_server su) in2 out2 live2"
    and "live1 c0" and "live2 srv" and "session_started su app c0 conn1 ob os"
    and "outbound_transport lib ob os = Some (Inr srv)" and "Outbound_connect lib (su_server su) ob os = Some (Inr conn2)"
    and "wire_steps (su_client su) (su_server su) ms (start_wire conn1 conn2) w"
  shows "\<exists>sent. serves su in1 out1 in2 out2 app c0 srv w ob (out_address os) sent"
proof -
  have peers: "faithful_peer (su_client su) in1 out1 live1" "faithful_peer (su_server su) in2 out2 live2"
    using assms(1,2) by (auto dest: honest_peer.axioms(1))
  obtain a d r name where st: "MixedInbound_handle (su_parse_uri su) (su_make_address su) (su_client su) [] c0 = Some (Inr (Accepted a d), conn1)"
    "sniffDomain d = Inr name" "os = \<lparr>out_address = destination name a, out_firstData = d\<rparr>" "app_router app = Some r"
    "umap_find (app_outbounds app) (route_tag r (out_address os)) = Some (Some ob)"
    using assms(5) unfolding session_started_def by blast
  from faithful_peer.MixedInbound_handle_asked [OF peers(1) assms(3) st(1)] obtain reply where
    c: "client_asked (su_parse_uri su) (su_make_address su) (in1 c0) a (d @ in1 conn1) reply" "out1 conn1 = out1 c0 @ reply" "live1 conn1"
    by blast
  from Outbound_connect_sound [OF peers(2) assms(4,7,6)] obtain wire where
    o2: "out2 conn2 = out2 srv @ wire" "outbound_sends ob (out_address os) d wire" "outbound_answers ob (in2 srv) (in2 conn2)" "live2 conn2"
    using st(3) by auto
  from honest_relay.relay_streams [OF honest_relay.intro [OF assms(1,2)] c(3) o2(4) assms(8)] obtain sent got where
    s: "out2 (wire_conn2 w) = out2 conn2 @ sent" "prefix sent (in1 conn1)"
      "dir_phase (dir_1 (wire_relay w)) \<noteq> Over \<Longrightarrow> in1 conn1 = sent @ chunk_of (dir_1 (wire_relay w)) @ in1 (wire_conn1 w)"
      "out1 (wire_conn1 w) = out1 conn1 @ got" "prefix got (in2 conn2)"
      "dir_phase (dir_2 (wire_relay w)) \<noteq> Over \<Longrightarrow> in2 conn2 = got @ chunk_of (dir_2 (wire_relay w)) @ in2 (wire_conn2 w)"
    by metis
  have "serves su in1 out1 in2 out2 app c0 srv w ob (out_address os) (d @ sent)"
    unfolding serves_def
    by (intro exI [of _ r] exI [of _ a] exI [of _ d] exI [of _ name] exI [of _ "d @ in1 conn1"] exI [of _ reply]
        exI [of _ "wire @ sent"] exI [of _ "in2 conn2"] exI [of _ got]
        conjI impI c(1) st(2,4,5) o2(3) s(5,6) outbound_sends_append [OF o2(2)])
      (simp_all add: st(3) c(2) o2(1) s(1-4))
  then show ?thesis by blast
qed

text \<open>What the invariant says of a session that relays.\<close>

lemma running_session:
  assumes "wf_app app" and "proxy_reachable su arrives answering app p" and "i < px_size p"
    and "px_stage p i = Running c1 c2 rl over"
  obtains conn1 ob os lb srv conn2 where "arrives (px_clients p ! i)" and "px_servers p ! i = Some srv"
    and "session_started su app (px_clients p ! i) conn1 ob os" and "answering lb"
    and "outbound_transport lb ob os = Some (Inr srv)" and "Outbound_connect lb (su_server su) ob os = Some (Inr conn2)"
    and "wire_steps (su_client su) (su_server su) (su_messages su) (start_wire conn1 conn2)
      \<lparr>wire_conn1 = c1, wire_conn2 = c2, wire_relay = rl\<rparr>"
  using proxy_inv_reachable [OF assms(2,1)] assms(3,4) that unfolding proxy_inv_def by fastforce

text \<open>Connecting through an outbound adds no undefined behaviour to that of its transport.\<close>

lemma vless_handshake_safe:
  assumes "exact_reader con"
  shows "io_safe (vless_handshake con uuid os)"
proof -
  have "no_ub (vec_at d 0) \<and> no_ub (vec_at d 1)" if "conn_read_exactly con 2 c = Some (Inr d, c')" for c d c'
    using exact_reader.exact [OF assms that] by (simp add: vec_at_def)
  then show ?thesis unfolding vless_handshake_def
    by (auto simp: vless_request_eq intro!: io_safe_bind exact_reader.write_safe [OF assms] exact_reader.read_exactly_safe [OF assms])
qed

lemma Outbound_connect_no_ub:
  assumes "exact_reader con" and "Outbound_connect lib con ob os = Some r"
    and "\<And>r. outbound_transport lib ob os = Some r \<Longrightarrow> no_ub r"
  shows "no_ub r"
proof -
  have "\<exists>m. io_safe m \<and> Outbound_connect lib con ob os = async_bind (outbound_transport lib ob os) (run_on (m :: (_, unit) io))"
    using exact_reader.write_safe [OF assms(1)] vless_handshake_safe [OF assms(1)]
    by (cases ob) (auto simp: DirectOutbound_connect_def VlessOutbound_connect_def)
  then obtain m :: "(('a, 'b) conn_object, unit) io"
    where m: "io_safe m" "async_bind (outbound_transport lib ob os) (run_on m) = Some r" using assms(2) by auto
  show ?thesis by (rule no_ub_async_bind [OF m(2) assms(3) no_ub_run_on [OF m(1)]])
qed

text \<open>A configured VLESS outbound has a user id of 16 bytes.\<close>

lemma buildOutbound_uuid: "buildOutbound lib c = Inr (Vless_Outbound tr server uuid) \<Longrightarrow> length uuid = 16"
  by (auto simp: buildOutbound_def buildUuid_def Let_def bind_res_eq_Inr split: if_splits dest!: map_res_length)

lemma build_outbounds_uuid:
  "build_outbounds lib items m = Inr m' \<Longrightarrow> umap_find m' tag = Some (Some (Vless_Outbound tr server uuid)) \<Longrightarrow>
   length uuid = 16 \<or> umap_find m tag = Some (Some (Vless_Outbound tr server uuid))"
proof (induction lib items m rule: build_outbounds.induct)
  case (2 lib item items m)
  then obtain ob where ob: "buildOutbound lib item = Inr ob"
    "build_outbounds lib items (umap_assign m (ob_tag item) (Some ob)) = Inr m'"
    by auto
  from "2.IH" [OF this "2.prems"(2)] show ?case
    using buildOutbound_uuid [of lib item tr server uuid] ob(1) by (cases "tag = ob_tag item") auto
qed simp

lemma prepared_uuid:
  assumes "App_prepare lib c = Inr (dns, app)" and "umap_find (app_outbounds app) tag = Some (Some (Vless_Outbound tr server uuid))"
  shows "length uuid = 16"
proof -
  have "build_outbounds lib (ap_outbounds c) [] = Inr (app_outbounds app)" using assms(1) by (auto simp: App_prepare_def)
  from build_outbounds_uuid [OF this assms(2)] show ?thesis by simp
qed

text \<open>A VLESS server reads what it is sent as a request of this user for the target, and everything sent as its payload.\<close>

lemma vless_stream_parses:
  assumes "length uuid = 16" and "wf_socks_host (addr_host a)" and "outbound_sends (Vless_Outbound tr server uuid) a sent wire"
  shows "parse_vless wire = Some (uuid, a, sent)"
  using assms by (cases a) (auto simp: vless_request_eq parse_vless_layout [simplified] parse_vless_host_encode)

text \<open>The running proxy has no undefined behaviour, if its configuration configures every outbound tag its router
  names, no accepted first data ends in an empty host name, and the library's transports have none.\<close>

lemma proxy_defined:
  assumes "App_prepare lib c = Inr (dns, app)" and "address_parser (bl_address lib)" and "tags_configured c"
    and "exact_reader (su_server su)"
    and "\<And>c a d c'. arrives c \<Longrightarrow> MixedInbound_handle (su_parse_uri su) (su_make_address su) (su_client su) [] c =
      Some (Inr (Accepted a d), c') \<Longrightarrow> \<not> suffix [0, 0, 0] d"
    and "\<And>lb ob os r. answering lb \<Longrightarrow> outbound_transport lb ob os = Some r \<Longrightarrow> no_ub r"
    and "proxy_reachable su arrives answering app p" and "i < px_size p"
  shows "sys_app (px_system p) = app \<and> px_stage p i \<noteq> Undefined k"
proof -
  let ?s = "forget (px_system p)"
  have "defined_inv app ?s"
  proof (rule defined_inv_reachable [OF proxy_reachable_forget [OF assms(7)]])
    fix session :: "unit in_tcp_session"
    assume "forgotten_session su arrives session"
    then have "\<not> suffix [0, 0, 0] (in_firstData session)" using assms(5) by (auto simp: forgotten_session_def)
    from configured_session_connects [OF assms(1-3) this]
    show "\<exists>logs c ob os. App_handleSession (su_show_ip su) (su_messages su) app session = (app, logs, Connecting c ob os :: (unit, unit) stage)"
      by metis
  next
    fix ob os and r :: "unit result"
    assume "forgotten_answer su answering ob os r"
    then obtain lb r' where "answering lb" "Outbound_connect lb (su_server su) ob os = Some r'" "r = map_sum id (\<lambda>_. ()) r'"
      by (auto simp: forgotten_answer_def)
    with Outbound_connect_no_ub [OF assms(4) this(2)] assms(6) show "no_ub r" by (cases r') (auto simp: no_ub_iff)
  qed
  then have "sys_app (px_system p) = app" "\<And>st. st \<in> set (sys_stages (px_system p)) \<Longrightarrow> forget_stage st \<noteq> Undefined k"
    by (auto simp: defined_inv_def forget_def list_all_iff)
  moreover have "px_stage p i \<in> set (sys_stages (px_system p))" using assms(8) by (simp add: px_defs)
  ultimately show ?thesis by (cases "px_stage p i") fastforce+
qed

section \<open>A sample run\<close>

text \<open>A SOCKS5 client through a VLESS outbound over a WebSocket in TLS, from the configuration on; every peer may break.\<close>

definition vless_item :: outbound_config where
  "vless_item = (direct_config ''d'')\<lparr>ob_type := ''vless'', ob_server := ''v'', ob_server_port := 443,
     ob_uuid := print_uuid (replicate 16 7),
     ob_tls := \<lparr>tc_enabled = True, tc_insecure = False, tc_serverName = ''v''\<rparr>,
     ob_transport := \<lparr>tr_type = ''ws'', tr_path = ''/'', tr_host = ''v''\<rparr>\<rparr>"

definition vless_config :: app_config where
  "vless_config = ruled_config\<lparr>ap_outbounds := [vless_item]\<rparr>"

definition vless_outbound :: outbound_obj where
  "vless_outbound = Vless_Outbound (Wss_Transport (WssTransport_new ''v'' ''/'' ''v'' False))
     \<lparr>addr_host = Domain ''v'', addr_port = 443\<rparr> (replicate 16 7)"

definition vless_app :: app where
  "vless_app = \<lparr>app_outbounds = [(''d'', Some vless_outbound)], app_router = Some ruled_router\<rparr>"

definition vless_builder :: builder where
  "vless_builder = ruled_builder\<lparr>bd_config := vless_config\<rparr>"

lemma vless_app_prepared: "App_prepare sample_lib vless_config = Inr (DnsCenter_new None [] [] [], vless_app)"
proof -
  have b: "Builder_new sample_lib vless_config = Inr vless_builder"
    using ruled_set by (simp add: Builder_new_def vless_builder_def ruled_builder_def vless_config_def ruled_config_def umap_assign_def)
  have "buildRouter sample_lib vless_builder = buildRouter sample_lib ruled_builder"
    by (rule buildRouter_cong) (simp_all add: vless_builder_def vless_config_def ruled_builder_def)
  then have r: "buildRouter sample_lib vless_builder = Inr ruled_router" by (simp only: ruled_router_built)
  have d: "buildDnsCenter sample_lib vless_builder = Inr (DnsCenter_new None [] [] [])"
    by (simp add: buildDnsCenter_def vless_builder_def ruled_builder_def vless_config_def ruled_config_def)
  have "buildOutbound sample_lib vless_item = Inr vless_outbound"
    using buildUuid_print [of "replicate 16 7"]
    by (simp add: vless_item_def direct_config_def buildOutbound_def buildTransport_def vless_outbound_def buildAddress_def sample_lib_def)
  then have "build_outbounds sample_lib (ap_outbounds vless_config) [] = Inr [(''d'', Some vless_outbound)]"
    by (simp add: vless_config_def umap_assign_def vless_item_def direct_config_def)
  then show ?thesis by (simp add: App_prepare_def b r d vless_app_def)
qed

text \<open>The server accepts and answers with one byte before its stream breaks.\<close>

definition flaky_ws_server :: flaky_ws where
  "flaky_ws_server = \<lparr>fws_in = [Some (True, [0, 0, 7]), None], fws_out = [], fws_mode = False, fws_room = 3\<rparr>"

definition sample_client_lib :: "(flaky, flaky_ws) client_lib" where
  "sample_client_lib =
     \<lparr>dial = (\<lambda>a. Some (Inr \<lparr>flaky_in = [], flaky_out = [], flaky_room = 0\<rparr>)), set_hostname = (\<lambda>name. Some),
      tls_handshake = (\<lambda>ctx s. Some (Inr s)), ws_over = (\<lambda>s. flaky_ws_server), ws_handshake = (\<lambda>h p w. Some (Inr w))\<rparr>"

definition sample_surroundings :: "(flaky, flaky, flaky_ws) surroundings" where
  "sample_surroundings =
     \<lparr>su_parse_uri = host_only, su_make_address = (\<lambda>s. None), su_show_ip = (\<lambda>ip. ''ip''), su_messages = quiet,
      su_client = TcpConnection flaky_lib, su_server = Object_connection flaky_conn_lib\<rparr>"

definition sample_target :: address where
  "sample_target = \<lparr>addr_host = Ip (IpV4 1 2 3 4), addr_port = 80\<rparr>"

definition greeted_client :: flaky where
  "greeted_client = \<lparr>flaky_in = [None], flaky_out = [5, 0] @ socks_reply, flaky_room = 8\<rparr>"

definition told_server :: "(flaky, flaky_ws) conn_object" where
  "told_server = Wss_Conn \<lparr>ws_stream = \<lparr>fws_in = [None],
     fws_out = [(True, [0] @ replicate 16 7 @ [0, 1, 0, 80, 1, 1, 2, 3, 4, 9, 8])], fws_mode = True, fws_room = 2\<rparr>, ws_buffer = [7]\<rparr>"

definition arrived_proxy :: "(flaky, (flaky, flaky_ws) conn_object) proxy" where
  "arrived_proxy =
     \<lparr>px_system = sys_accept (\<lambda>ip. ''ip'') quiet
        \<lparr>in_conn = greeted_client, in_address = sample_target, in_firstData = [9, 8]\<rparr> (start_system vless_app),
      px_clients = [flaky_socks_client], px_servers = [None]\<rparr>"

definition sample_proxy :: "(flaky, (flaky, flaky_ws) conn_object) proxy" where
  "sample_proxy = arrived_proxy
     \<lparr>px_system := sys_connected quiet 0 greeted_client (Inr told_server) (px_system arrived_proxy),
      px_servers := [Some (Wss_Conn (WssConnection_new flaky_ws_server))]\<rparr>"

abbreviation sample_arrives :: "flaky \<Rightarrow> bool" where
  "sample_arrives \<equiv> \<lambda>c. c = flaky_socks_client"

abbreviation sample_answering :: "(flaky, flaky_ws) client_lib \<Rightarrow> bool" where
  "sample_answering \<equiv> \<lambda>lib. lib = sample_client_lib"

lemma arrived_proxy_stage:
  "sys_stages (px_system arrived_proxy) =
     [Connecting greeted_client vless_outbound \<lparr>out_address = sample_target, out_firstData = [9, 8]\<rparr>]"
proof -
  have "sniffDomain [9, 8] = Inr []" by (simp add: sniffDomain_def)
  then show ?thesis
    by (simp add: arrived_proxy_def sys_accept_def start_system_def Let_def vless_app_def
        App_handleSession_eq [OF _ _ wf_ruled_router] route_tag_d App_connect_found umap_find_def destination_def)
qed

lemma sample_proxy_stage: "sys_stages (px_system sample_proxy) = [Running greeted_client told_server start_relay False]"
  by (simp add: sample_proxy_def sys_connected_def App_connected_def arrived_proxy_stage)

lemma sample_transport:
  "outbound_transport sample_client_lib vless_outbound os = Some (Inr (Wss_Conn (WssConnection_new flaky_ws_server)))"
  by (simp add: vless_outbound_def WssTransport_connect_def sample_client_lib_def)

lemma sample_connect:
  "Outbound_connect sample_client_lib (Object_connection flaky_conn_lib) vless_outbound
     \<lparr>out_address = sample_target, out_firstData = [9, 8]\<rparr> = Some (Inr told_server)"
proof -
  let ?req = "[0] @ replicate 16 7 @ [0, 1, 0, 80, 1, 1, 2, 3, 4, 9, 8]"
  let ?c = "WssConnection_new flaky_ws_server"
  let ?sent = "\<lparr>ws_stream = flaky_ws_server\<lparr>fws_out := [(True, ?req)], fws_mode := True, fws_room := 2\<rparr>, ws_buffer = []\<rparr>"
  let ?got = "\<lparr>ws_stream = flaky_ws_server\<lparr>fws_in := [None], fws_out := [(True, ?req)], fws_mode := True, fws_room := 2\<rparr>,
    ws_buffer = [0, 0, 7]\<rparr>"
  have req: "vless_request (replicate 16 7) \<lparr>out_address = sample_target, out_firstData = [9, 8]\<rparr> = Inr ?req"
    by (simp add: vless_request_eq sample_target_def be16_def hi8_def lo8_def)
  have wr: "Connection_write flaky_conn_lib ?req (Wss_Conn ?c) = Some (Inr (), Wss_Conn ?sent)"
    by (simp add: io_in_def WssConnection_def WssConnection_write_def WssConnection_new_def flaky_conn_lib_def flaky_ws_lib_def
        on_stream_def io_zoom_def flaky_ws_write_def flaky_ws_server_def)
  have "ws_fill flaky_ws_lib 2 ?sent = ws_fill flaky_ws_lib 2 ?got"
    by (subst ws_fill.simps)
      (simp add: ws_read_binary_def on_stream_def io_zoom_def flaky_ws_lib_def flaky_ws_read_def flaky_ws_server_def)
  also have "\<dots> = Some (Inr (), ?got)" by (subst ws_fill.simps) simp
  finally have "Connection_read_exactly flaky_conn_lib 2 (Wss_Conn ?sent) = Some (Inr [0, 0], told_server)"
    by (simp add: io_in_def WssConnection_def WssConnection_read_exactly_def flaky_conn_lib_def ws_take_def told_server_def
        flaky_ws_server_def)
  with req wr have "vless_handshake (Object_connection flaky_conn_lib) (replicate 16 7)
      \<lparr>out_address = sample_target, out_firstData = [9, 8]\<rparr> (Wss_Conn ?c) = Some (Inr (), told_server)"
    by (simp add: vless_handshake_def)
  with sample_transport [of "\<lparr>out_address = sample_target, out_firstData = [9, 8]\<rparr>"] show ?thesis
    by (simp add: vless_outbound_def VlessOutbound_connect_def)
qed

lemma sample_reachable:
  "proxy_reachable sample_surroundings sample_arrives sample_answering vless_app sample_proxy"
proof -
  let ?su = "sample_surroundings"
  have "MixedInbound_handle (su_parse_uri ?su) (su_make_address ?su) (su_client ?su) [] flaky_socks_client =
      Some (Inr (Accepted sample_target [9, 8]), greeted_client)"
    using flaky_socks_session by (simp add: sample_surroundings_def sample_target_def greeted_client_def)
  from proxy_step.accept [of sample_arrives, OF refl this, of sample_answering "start_proxy vless_app"]
  have one: "proxy_step ?su sample_arrives sample_answering (start_proxy vless_app) arrived_proxy"
    by (simp add: start_proxy_def arrived_proxy_def sample_surroundings_def)
  have stage: "0 < px_size arrived_proxy"
    "px_stage arrived_proxy 0 = Connecting greeted_client vless_outbound \<lparr>out_address = sample_target, out_firstData = [9, 8]\<rparr>"
    by (simp_all add: px_defs arrived_proxy_stage)
  have "Outbound_connect sample_client_lib (su_server ?su) vless_outbound
      \<lparr>out_address = sample_target, out_firstData = [9, 8]\<rparr> = Some (Inr told_server)"
    using sample_connect by (simp add: sample_surroundings_def)
  from proxy_step.connected [where answering = sample_answering, OF stage refl this, of sample_arrives]
  have two: "proxy_step ?su sample_arrives sample_answering arrived_proxy sample_proxy"
    by (simp add: sample_transport reached_def sample_proxy_def sample_surroundings_def arrived_proxy_def)
  show ?thesis by (rule proxy_reachable.step [OF proxy_reachable.step [OF proxy_reachable.start one] two])
qed

lemma sample_running: "0 < px_size sample_proxy" "px_stage sample_proxy 0 = Running greeted_client told_server start_relay False"
  by (simp_all add: px_defs sample_proxy_stage)

lemma sample_session:
  assumes "session_started sample_surroundings vless_app (px_clients sample_proxy ! 0) conn1 ob os"
  shows "conn1 = greeted_client" "ob = vless_outbound" "os = \<lparr>out_address = sample_target, out_firstData = [9, 8]\<rparr>"
proof -
  have "sniffDomain [9, 8] = Inr []" by (simp add: sniffDomain_def)
  with assms flaky_socks_session
  show "conn1 = greeted_client" "ob = vless_outbound" "os = \<lparr>out_address = sample_target, out_firstData = [9, 8]\<rparr>"
    by (auto simp: session_started_def sample_proxy_def arrived_proxy_def sample_surroundings_def sample_target_def greeted_client_def
        vless_app_def umap_find_def destination_def split: if_splits)
qed

lemma sample_client_peer: "honest_peer (su_client sample_surroundings) (\<lambda>s. until_reset (flaky_in s)) flaky_out (\<lambda>s. True)"
  by (simp add: sample_surroundings_def broken.tcp_honest.honest_peer_axioms)

abbreviation sample_in :: "(flaky, flaky_ws) conn_object \<Rightarrow> bytes" where
  "sample_in \<equiv> object_incoming (\<lambda>s. until_reset (flaky_in s)) (\<lambda>w. messages_until (fws_in w))"

abbreviation sample_out :: "(flaky, flaky_ws) conn_object \<Rightarrow> bytes" where
  "sample_out \<equiv> object_outgoing flaky_out fws_out"

abbreviation sample_live :: "(flaky, flaky_ws) conn_object \<Rightarrow> bool" where
  "sample_live \<equiv> object_live (\<lambda>s. True) (\<lambda>w. True)"

lemma sample_server_peer: "honest_peer (su_server sample_surroundings) sample_in sample_out sample_live"
  by (simp add: sample_surroundings_def broken_library.object.honest_peer_axioms)

lemma sample_fresh: "outbound_transport sample_client_lib ob os = Some (Inr c) \<Longrightarrow> sample_live c \<and> sample_out c = []"
proof -
  have "Transport_connect sample_client_lib tr a = Some (Inr c) \<Longrightarrow> sample_live c \<and> sample_out c = []" for tr a
    by (cases tr) (auto simp: TcpTransport_connect_def TlsTransport_connect_def WssTransport_connect_def sample_client_lib_def
        WssConnection_new_def flaky_ws_server_def)
  then show "outbound_transport sample_client_lib ob os = Some (Inr c) \<Longrightarrow> sample_live c \<and> sample_out c = []"
    by (cases ob) (auto simp: TcpTransport_connect_def sample_client_lib_def)
qed

section \<open>Properties\<close>



text \<open>C9: the sessions do not get in each other's way: whatever the clients, the library and the schedule do, a session
  that relays works on the connection its own client came with, after the inbound's handler, and on the connection its
  own outbound reached for it, and its relay has run on these two alone.\<close>

theorem sessions_are_separate:
  assumes "App_prepare lib c = Inr (dns, app)" and "address_parser (bl_address lib)"
    and "proxy_reachable su arrives answering app p" and "i < px_size p" and "px_stage p i = Running c1 c2 rl over"
  shows "arrives (px_clients p ! i) \<and>
    (\<exists>conn1 ob os lb srv conn2. session_started su app (px_clients p ! i) conn1 ob os \<and> answering lb \<and>
       outbound_transport lb ob os = Some (Inr srv) \<and> px_servers p ! i = Some srv \<and>
       Outbound_connect lb (su_server su) ob os = Some (Inr conn2) \<and>
       wire_steps (su_client su) (su_server su) (su_messages su) (start_wire conn1 conn2)
         \<lparr>wire_conn1 = c1, wire_conn2 = c2, wire_relay = rl\<rparr>)"
  by (rule running_session [OF prepared_wf [OF assms(1,2)] assms(3-5)]) blast

theorem sessions_are_separate_witness:
  "\<exists>conn2. Outbound_connect sample_client_lib (su_server sample_surroundings) vless_outbound
      \<lparr>out_address = sample_target, out_firstData = [9, 8]\<rparr> = Some (Inr conn2) \<and>
     wire_steps (su_client sample_surroundings) (su_server sample_surroundings) (su_messages sample_surroundings)
       (start_wire greeted_client conn2)
       \<lparr>wire_conn1 = greeted_client, wire_conn2 = told_server, wire_relay = start_relay\<rparr>"
  using sessions_are_separate [OF vless_app_prepared sample_lib_addresses sample_reachable sample_running]
  by (auto dest: sample_session)





end
