(* ===== verification/Proxy_Live.thy ===== *)
theory Proxy_Live
  imports Proxy_Service
begin

text \<open>
  What the running proxy can always still do: finish a session. On connections that deliver all they have before they
  end, TCP and TLS ones, there is from every reachable state a way on, by steps of one session alone, that delivers to its
  server and to its client all that the other one sends.
\<close>

section \<open>Objects of the classes that can be half closed\<close>

locale duplex_library =
  safe_library L inbox outbox mode ready + tcp: half_closing "cl_tcp L" avail sent up +
  tls: half_closing_stream "cl_tls L" avail sent up
  for L :: "('s, 'w) conn_lib" and avail sent up inbox outbox mode ready

text \<open>A WebSocket object cannot be written to after a failed read, so it is not live here.\<close>

abbreviation stream_live :: "('s \<Rightarrow> bool) \<Rightarrow> ('s, 'w) conn_object \<Rightarrow> bool" where
  "stream_live up \<equiv> object_live up (\<lambda>w. False)"

sublocale duplex_library \<subseteq> object: duplex_peer "Object_connection L" "object_incoming avail inbox"
    "object_outgoing sent outbox" "stream_live up" "\<lambda>c. length (object_incoming avail inbox c)"
proof
  fix c c' :: "('s, 'w) conn_object" and n d f
  assume live: "stream_live up c"
  then obtain s where c: "c = Tcp_Conn s \<or> c = Tls_Conn s" "up s" by (cases c) auto
  note enough = tcp.tcp_con.read_exactly_enough [OF c(2), of n] tls.tls_con.read_exactly_enough [OF c(2), of n]
  show "\<exists>c'. conn_read_exactly (Object_connection L) n c = Some (Inr (take n (object_incoming avail inbox c)), c') \<and>
      object_incoming avail inbox c' = drop n (object_incoming avail inbox c) \<and>
      object_outgoing sent outbox c' = object_outgoing sent outbox c \<and> stream_live up c'"
    if "n \<le> length (object_incoming avail inbox c)"
    using c enough that by (auto simp: io_in_eq_Some)
  show "conn_read_exactly (Object_connection L) n c \<noteq> Some (Inr d, c')" if "length (object_incoming avail inbox c) < n"
    using c tcp.tcp_con.read_exactly_short [OF c(2), of n] tls.tls_con.read_exactly_short [OF c(2), of n] that
    by (auto simp: io_in_eq_Some)
  show "\<exists>d c'. conn_read (Object_connection L) n c = Some (Inr d, c') \<and>
      object_incoming avail inbox c = d @ object_incoming avail inbox c' \<and>
      length (object_incoming avail inbox c') < length (object_incoming avail inbox c) \<and>
      object_outgoing sent outbox c' = object_outgoing sent outbox c \<and> stream_live up c'"
    if "object_incoming avail inbox c \<noteq> []" "0 < n"
  proof -
    have ne: "avail s \<noteq> []" using c(1) that(1) by auto
    from tcp.tcp_con.read_some [OF c(2) ne that(2)] obtain d p where
      tcp: "conn_read (TcpConnection (cl_tcp L)) n s = Some (Inr d, p)" "avail s = d @ avail p"
        "length (avail p) < length (avail s)" "sent p = sent s" "up p" by blast
    from tls.tls_con.read_some [OF c(2) ne that(2)] obtain e q where
      tls: "conn_read (TlsConnection (cl_tls L)) n s = Some (Inr e, q)" "avail s = e @ avail q"
        "length (avail q) < length (avail s)" "sent q = sent s" "up q" by blast
    from c(1) show ?thesis
    proof
      assume "c = Tcp_Conn s"
      then show ?thesis using tcp(1,3-) tcp(2) [symmetric] by (intro exI [of _ d] exI [of _ "Tcp_Conn p"]) (simp add: io_in_def)
    next
      assume "c = Tls_Conn s"
      then show ?thesis using tls(1,3-) tls(2) [symmetric] by (intro exI [of _ e] exI [of _ "Tls_Conn q"]) (simp add: io_in_def)
    qed
  qed
  show "d = [] \<and> object_incoming avail inbox c' = [] \<and>
      object_outgoing sent outbox c' = object_outgoing sent outbox c \<and> stream_live up c'"
    if empty: "object_incoming avail inbox c = []" and run: "conn_read (Object_connection L) n c = Some (Inr d, c')"
  proof -
    from c(1) show ?thesis
    proof
      assume o: "c = Tcp_Conn s"
      then obtain p where "conn_read (TcpConnection (cl_tcp L)) n s = Some (Inr d, p)" "c' = Tcp_Conn p"
        using run by (auto simp: io_in_eq_Some)
      then show ?thesis using o empty tcp.tcp_con.read_none [OF c(2), of n d p] by simp
    next
      assume o: "c = Tls_Conn s"
      then obtain p where "conn_read (TlsConnection (cl_tls L)) n s = Some (Inr d, p)" "c' = Tls_Conn p"
        using run by (auto simp: io_in_eq_Some)
      then show ?thesis using o empty tls.tls_con.read_none [OF c(2), of n d p] by simp
    qed
  qed
  show "\<exists>c'. conn_write (Object_connection L) d c = Some (Inr (), c') \<and>
      object_incoming avail inbox c' = object_incoming avail inbox c \<and>
      object_outgoing sent outbox c' = object_outgoing sent outbox c @ d \<and>
      length (object_incoming avail inbox c') = length (object_incoming avail inbox c) \<and> stream_live up c'"
    using c tcp.tcp_con.write_all [OF c(2), of d] tls.tls_con.write_all [OF c(2), of d]
    by (elim disjE exE conjE) (simp_all add: io_in_def)
  show "\<exists>r c'. conn_close (Object_connection L) c = Some (r, c') \<and>
      object_outgoing sent outbox c' = object_outgoing sent outbox c"
    using c tcp.tcp_con.close_ends [OF c(2)] tls.tls_con.close_ends [OF c(2)]
    by (elim disjE exE conjE) (simp_all add: io_in_def)
  show "object_incoming avail inbox c = [] \<and> object_incoming avail inbox c' = [] \<and>
      object_outgoing sent outbox c' = object_outgoing sent outbox c \<and> stream_live up c'"
    if run: "conn_read (Object_connection L) n c = Some (Inl f, c')"
  proof -
    from c(1) show ?thesis
    proof
      assume o: "c = Tcp_Conn s"
      then obtain p where "conn_read (TcpConnection (cl_tcp L)) n s = Some (Inl f, p)" "c' = Tcp_Conn p"
        using run by (auto simp: io_in_eq_Some)
      then show ?thesis using o tcp.tcp_duplex.read_end [OF c(2), of n f p] by simp
    next
      assume o: "c = Tls_Conn s"
      then obtain p where "conn_read (TlsConnection (cl_tls L)) n s = Some (Inl f, p)" "c' = Tls_Conn p"
        using run by (auto simp: io_in_eq_Some)
      then show ?thesis using o tls.tls_duplex.read_end [OF c(2), of n f p] by simp
    qed
  qed
qed

definition script_conn_lib :: "(script, ws_script) conn_lib" where
  "script_conn_lib =
     \<lparr>cl_tcp = stream_lib.truncate script_lib, cl_tls = script_lib, cl_ws = ws_script_lib, cl_wss = ws_script_lib\<rparr>"

interpretation scripted_library: duplex_library script_conn_lib "\<lambda>s. concat (script_in s)" script_out script_up
    wss_in wss_out wss_mode "\<lambda>s. True"
proof -
  have fields: "lib_read_some (stream_lib.truncate script_lib) = lib_read_some script_lib"
    "lib_read_full (stream_lib.truncate script_lib) = lib_read_full script_lib"
    "lib_write_all (stream_lib.truncate script_lib) = lib_write_all script_lib"
    "lib_close (stream_lib.truncate script_lib) = lib_close script_lib"
    by (simp_all add: stream_lib.truncate_def)
  have "half_closing (stream_lib.truncate script_lib) (\<lambda>s. concat (script_in s)) script_out script_up"
    using scripted_duplex.half_closing_axioms
    unfolding half_closing_def half_closing_axioms_def byte_stream_def byte_stream_axioms_def sized_stream_def fields .
  moreover from this have "sized_stream (stream_lib.truncate script_lib)"
    unfolding half_closing_def byte_stream_def by blast
  ultimately show "duplex_library script_conn_lib (\<lambda>s. concat (script_in s)) script_out script_up wss_in wss_out wss_mode (\<lambda>s. True)"
    unfolding duplex_library_def safe_library_def script_conn_lib_def conn_lib.simps
    using scripted.sized_ssl_stream_axioms scripted_ws.message_ports_axioms scripted_duplex.half_closing_stream_axioms by blast
qed

section \<open>One session alone\<close>

context byte_peer
begin

lemma is_faithful: "faithful_peer con incoming outgoing live"
  by unfold_locales

end

lemma px_forward_same:
  assumes "i < px_size p" and "px_stage p i = Running (wire_conn1 w) (wire_conn2 w) (wire_relay w) over"
  shows "px_forward i w over p = p"
proof -
  have "(sys_stages (px_system p))[i := Running (wire_conn1 w) (wire_conn2 w) (wire_relay w) over] = sys_stages (px_system p)"
    using assms by (simp add: px_defs) (metis list_update_id)
  then show ?thesis by (simp add: px_forward_def)
qed

lemma px_forward_twice: "px_forward i w' over (px_forward i w over p) = px_forward i w' over p"
  by (simp add: px_forward_def)

lemma px_forward_stage:
  "i < px_size p \<Longrightarrow> px_stage (px_forward i w over p) i = Running (wire_conn1 w) (wire_conn2 w) (wire_relay w) over"
  "j \<noteq> i \<Longrightarrow> px_stage (px_forward i w over p) j = px_stage p j"
  "px_size (px_forward i w over p) = px_size p"
  by (simp_all add: px_defs)

abbreviation proxy_steps ::
  "('c, 's, 'w) surroundings \<Rightarrow> ('c \<Rightarrow> bool) \<Rightarrow> (('s, 'w) client_lib \<Rightarrow> bool) \<Rightarrow>
   ('c, ('s, 'w) conn_object) proxy \<Rightarrow> ('c, ('s, 'w) conn_object) proxy \<Rightarrow> bool" where
  "proxy_steps su arrives answering \<equiv> (proxy_step su arrives answering)\<^sup>*\<^sup>*"

text \<open>The steps of a relay are steps of the proxy.\<close>

lemma proxy_forwards:
  assumes "wire_steps (su_client su) (su_server su) (su_messages su) w w'" and "i < px_size p"
    and "px_stage p i = Running (wire_conn1 w) (wire_conn2 w) (wire_relay w) over"
  shows "proxy_steps su arrives answering p (px_forward i w' over p)"
  using assms(1)
proof (induction rule: rtranclp_induct)
  case base
  show ?case by (simp add: px_forward_same [OF assms(2,3)])
next
  case (step u v)
  have eq: "\<lparr>wire_conn1 = wire_conn1 u, wire_conn2 = wire_conn2 u, wire_relay = wire_relay u\<rparr> = u" by (cases u) simp
  have "proxy_step su arrives answering (px_forward i u over p) (px_forward i v over (px_forward i u over p))"
    by (rule proxy_step.forward [OF _ px_forward_stage(1) [OF assms(2)]]) (use step(2) assms(2) in \<open>simp_all add: px_forward_stage eq\<close>)
  with step.IH show ?case by (simp add: px_forward_twice)
qed

section \<open>Properties\<close>


text \<open>A SOCKS5 client whose payload comes in two parts, and a server of the direct outbound.\<close>

definition direct_client_lib :: "(script, ws_script) client_lib" where
  "direct_client_lib =
     \<lparr>dial = (\<lambda>a. Some (Inr \<lparr>script_in = [[7], [6]], script_out = [], script_eof = True\<rparr>)), set_hostname = (\<lambda>name. Some),
      tls_handshake = (\<lambda>ctx s. Some (Inr s)), ws_over = (\<lambda>s. \<lparr>wss_in = [], wss_out = [], wss_mode = False\<rparr>),
      ws_handshake = (\<lambda>h p w. None)\<rparr>"

definition direct_surroundings :: "(script, script, ws_script) surroundings" where
  "direct_surroundings =
     \<lparr>su_parse_uri = host_only, su_make_address = (\<lambda>s. None), su_show_ip = (\<lambda>ip. ''ip''), su_messages = quiet,
      su_client = TcpConnection script_lib, su_server = Object_connection script_conn_lib\<rparr>"

definition two_part_client :: script where
  "two_part_client = \<lparr>script_in = [[5, 1, 0], [5, 1, 0, 1, 1, 2, 3, 4, 0, 80], [9], [8]], script_out = [], script_eof = True\<rparr>"

definition asked_client :: script where
  "asked_client = \<lparr>script_in = [], script_out = [5, 0] @ socks_reply, script_eof = True\<rparr>"

definition sent_server :: "(script, ws_script) conn_object" where
  "sent_server = Tcp_Conn \<lparr>script_in = [[7], [6]], script_out = [9, 8], script_eof = True\<rparr>"

lemma two_part_session:
  "MixedInbound_handle host_only (\<lambda>s. None) (TcpConnection script_lib) [] two_part_client =
     Some (Inr (Accepted sample_target [9, 8]), asked_client)"
  by code_simp

definition asked_proxy :: "(script, (script, ws_script) conn_object) proxy" where
  "asked_proxy =
     \<lparr>px_system = sys_accept (\<lambda>ip. ''ip'') quiet
        \<lparr>in_conn = asked_client, in_address = sample_target, in_firstData = [9, 8]\<rparr> (start_system ruled_app),
      px_clients = [two_part_client], px_servers = [None]\<rparr>"

definition direct_proxy :: "(script, (script, ws_script) conn_object) proxy" where
  "direct_proxy = asked_proxy
     \<lparr>px_system := sys_connected quiet 0 asked_client (Inr sent_server) (px_system asked_proxy),
      px_servers := [Some (Tcp_Conn \<lparr>script_in = [[7], [6]], script_out = [], script_eof = True\<rparr>)]\<rparr>"

lemma asked_proxy_stage:
  "sys_stages (px_system asked_proxy) =
     [Connecting asked_client Direct_Outbound \<lparr>out_address = sample_target, out_firstData = [9, 8]\<rparr>]"
proof -
  have "sniffDomain [9, 8] = Inr []" by (simp add: sniffDomain_def)
  then show ?thesis
    by (simp add: asked_proxy_def sys_accept_def start_system_def Let_def ruled_app_def
        App_handleSession_eq [OF _ _ wf_ruled_router] route_tag_d App_connect_found umap_find_def destination_def)
qed

lemma direct_running:
  "0 < px_size direct_proxy" "px_stage direct_proxy 0 = Running asked_client sent_server start_relay False"
  by (simp_all add: px_defs direct_proxy_def sys_connected_def App_connected_def asked_proxy_stage)

lemma direct_reached:
  "outbound_transport direct_client_lib Direct_Outbound os =
     Some (Inr (Tcp_Conn \<lparr>script_in = [[7], [6]], script_out = [], script_eof = True\<rparr>))"
  by (simp add: TcpTransport_connect_def direct_client_lib_def)

lemma direct_connect:
  "Outbound_connect direct_client_lib (Object_connection script_conn_lib) Direct_Outbound
     \<lparr>out_address = sample_target, out_firstData = [9, 8]\<rparr> = Some (Inr sent_server)"
  by (simp add: DirectOutbound_connect_def TcpTransport_connect_def direct_client_lib_def run_on_def io_in_def TcpConnection_def
      TcpConnection_write_def script_conn_lib_def stream_lib.truncate_def script_lib_def sent_server_def)

lemma direct_reachable:
  "proxy_reachable direct_surroundings (\<lambda>c. c = two_part_client) (\<lambda>lib. lib = direct_client_lib) ruled_app direct_proxy"
proof -
  let ?su = "direct_surroundings" and ?arrives = "\<lambda>c. c = two_part_client" and ?answering = "\<lambda>lib. lib = direct_client_lib"
  have "MixedInbound_handle (su_parse_uri ?su) (su_make_address ?su) (su_client ?su) [] two_part_client =
      Some (Inr (Accepted sample_target [9, 8]), asked_client)"
    using two_part_session by (simp add: direct_surroundings_def)
  from proxy_step.accept [of ?arrives, OF refl this, of ?answering "start_proxy ruled_app"]
  have one: "proxy_step ?su ?arrives ?answering (start_proxy ruled_app) asked_proxy"
    by (simp add: start_proxy_def asked_proxy_def direct_surroundings_def)
  have stage: "0 < px_size asked_proxy"
    "px_stage asked_proxy 0 = Connecting asked_client Direct_Outbound \<lparr>out_address = sample_target, out_firstData = [9, 8]\<rparr>"
    by (simp_all add: px_defs asked_proxy_stage)
  have "Outbound_connect direct_client_lib (su_server ?su) Direct_Outbound
      \<lparr>out_address = sample_target, out_firstData = [9, 8]\<rparr> = Some (Inr sent_server)"
    using direct_connect by (simp add: direct_surroundings_def)
  from proxy_step.connected [where answering = ?answering, OF stage refl this, of ?arrives]
  have two: "proxy_step ?su ?arrives ?answering asked_proxy direct_proxy"
    unfolding direct_reached by (simp add: reached_def direct_proxy_def direct_surroundings_def asked_proxy_def)
  show ?thesis by (rule proxy_reachable.step [OF proxy_reachable.step [OF proxy_reachable.start one] two])
qed

abbreviation script_object_in :: "(script, ws_script) conn_object \<Rightarrow> bytes" where
  "script_object_in \<equiv> object_incoming (\<lambda>s. concat (script_in s)) wss_in"

abbreviation script_object_out :: "(script, ws_script) conn_object \<Rightarrow> bytes" where
  "script_object_out \<equiv> object_outgoing script_out wss_out"

lemma direct_lib_live: "outbound_transport direct_client_lib ob os = Some (Inr c) \<Longrightarrow> stream_live script_up c"
proof -
  have "Transport_connect direct_client_lib tr a = Some (Inr c) \<Longrightarrow> stream_live script_up c" for tr a
    by (cases tr) (auto simp: TcpTransport_connect_def TlsTransport_connect_def WssTransport_connect_def direct_client_lib_def
        script_up_def)
  then show "outbound_transport direct_client_lib ob os = Some (Inr c) \<Longrightarrow> stream_live script_up c"
    by (cases ob) (auto simp: TcpTransport_connect_def direct_client_lib_def script_up_def)
qed


end
