(* ===== verification/Tcp_Client.thy ===== *)
theory Tcp_Client
  imports Address Log Io
begin

text \<open>
  \<^verbatim>\<open>tcp/tcpclient.cpp\<close>: connecting to an address. For a domain, one coroutine per
  resolved address tries to connect; the first to succeed stores its socket and cancels the
  timer the main coroutine waits on. The coroutines and the main one share the result and
  the timer, so they are steps of one state. A socket is its remote endpoint with the
  handle \<open>'h\<close> the library gave it.
\<close>

section \<open>The race\<close>

datatype task = Connecting ip_address | Ended

datatype 'h main = Waiting | Returned "(endpoint \<times> 'h) result"

record 'h race =
  race_tasks :: "task list"
  race_result :: "(endpoint \<times> 'h) option"
  race_cancelled :: bool
  race_main :: "'h main"
  race_log :: "string list"

definition start_race :: "ip_address list \<Rightarrow> 'h race" where
  "start_race ips =
     \<lparr>race_tasks = map Connecting ips, race_result = None, race_cancelled = False, race_main = Waiting,
      race_log = []\<rparr>"

text \<open>
  The rest of \<^verbatim>\<open>connect_address_work\<close> once the library reports on the connect of
  task \<open>i\<close> to \<open>ip\<close>.
\<close>

definition connect_address_work :: "messages \<Rightarrow> u16 \<Rightarrow> nat \<Rightarrow> ip_address \<Rightarrow> exn + 'h \<Rightarrow> 'h race \<Rightarrow> 'h race" where
  "connect_address_work ms port i ip outcome s =
     (let s = s\<lparr>race_tasks := (race_tasks s)[i := Ended]\<rparr>
      in case outcome of
           Inl e \<Rightarrow> s\<lparr>race_log := race_log s @ log_error ms ''connect address work'' e\<rparr>
         | Inr h \<Rightarrow>
             if race_result s \<noteq> None then s
             else s\<lparr>race_result := Some (\<lparr>ep_address = ip, ep_port = port\<rparr>, h), race_cancelled := True\<rparr>)"

text \<open>The rest of \<^verbatim>\<open>connect_address\<close> once the timer has been cancelled.\<close>

definition connect_address_resume :: "'h race \<Rightarrow> 'h race" where
  "connect_address_resume s =
     s\<lparr>race_main := Returned (case race_result s of
         None \<Rightarrow> throw_error ''all tries to connect address fail''
       | Some sock \<Rightarrow> Inr sock)\<rparr>"

inductive race_step :: "messages \<Rightarrow> u16 \<Rightarrow> 'h race \<Rightarrow> 'h race \<Rightarrow> bool" for ms port where
  task: "i < length (race_tasks s) \<Longrightarrow> race_tasks s ! i = Connecting ip \<Longrightarrow>
    race_step ms port s (connect_address_work ms port i ip outcome s)"
| resume: "race_cancelled s \<Longrightarrow> race_main s = Waiting \<Longrightarrow> race_step ms port s (connect_address_resume s)"

inductive race_reachable :: "messages \<Rightarrow> u16 \<Rightarrow> ip_address list \<Rightarrow> 'h race \<Rightarrow> bool" for ms port ips where
  start: "race_reachable ms port ips (start_race ips)"
| step: "race_reachable ms port ips s \<Longrightarrow> race_step ms port s s' \<Longrightarrow> race_reachable ms port ips s'"

inductive_cases race_stepE: "race_step ms port s s'"

text \<open>
  The same as a function of the order in which the library reports: each event names a
  task and what its connect gave. \<open>None\<close> stands for a main coroutine that still waits.
\<close>

fun run_race :: "messages \<Rightarrow> u16 \<Rightarrow> (nat \<times> (exn + 'h)) list \<Rightarrow> 'h race \<Rightarrow> 'h race" where
  "run_race ms port [] s = (if race_cancelled s \<and> race_main s = Waiting then connect_address_resume s else s)"
| "run_race ms port ((i, outcome) # es) s =
     (if i < length (race_tasks s) then
        (case race_tasks s ! i of
           Connecting ip \<Rightarrow> run_race ms port es (connect_address_work ms port i ip outcome s)
         | Ended \<Rightarrow> run_race ms port es s)
      else run_race ms port es s)"

definition connect_ip :: "(endpoint \<Rightarrow> exn + 'h) \<Rightarrow> ip_address \<Rightarrow> u16 \<Rightarrow> (endpoint \<times> 'h) result" where
  "connect_ip async_connect ip port =
     (let ep = \<lparr>ep_address = ip, ep_port = port\<rparr>
      in case async_connect ep of Inl e \<Rightarrow> Inl (Raised e) | Inr h \<Rightarrow> Inr (ep, h))"

definition connect_address ::
  "messages \<Rightarrow> (endpoint \<Rightarrow> exn + 'h) \<Rightarrow> (string \<Rightarrow> ip_address list awaited) \<Rightarrow> (nat \<times> (exn + 'h)) list \<Rightarrow>
   address \<Rightarrow> (endpoint \<times> 'h) result option" where
  "connect_address ms async_connect resolve events a =
     (case addr_host a of
        Ip v \<Rightarrow> Some (connect_ip async_connect v (addr_port a))
      | Domain d \<Rightarrow>
          async_bind (resolve d) (\<lambda>ips.
            case race_main (run_race ms (addr_port a) events (start_race ips)) of
              Waiting \<Rightarrow> None
            | Returned r \<Rightarrow> Some r))"

section \<open>The invariant\<close>

definition race_inv :: "u16 \<Rightarrow> ip_address list \<Rightarrow> 'h race \<Rightarrow> bool" where
  "race_inv port ips s \<longleftrightarrow>
     length (race_tasks s) = length ips \<and>
     (\<forall>i < length ips. race_tasks s ! i = Connecting (ips ! i) \<or> race_tasks s ! i = Ended) \<and>
     (race_cancelled s \<longleftrightarrow> race_result s \<noteq> None) \<and>
     (\<forall>ep h. race_result s = Some (ep, h) \<longrightarrow> ep_address ep \<in> set ips \<and> ep_port ep = port) \<and>
     (case race_main s of Waiting \<Rightarrow> True | Returned r \<Rightarrow> \<exists>sock. race_result s = Some sock \<and> r = Inr sock)"

lemma race_inv_start: "race_inv port ips (start_race ips)"
  by (simp add: race_inv_def start_race_def)

lemma race_inv_work:
  assumes "race_inv port ips s" "i < length (race_tasks s)" "race_tasks s ! i = Connecting ip"
  shows "race_inv port ips (connect_address_work ms port i ip outcome s)"
proof -
  have "ip = ips ! i" "i < length ips" using assms by (auto simp: race_inv_def)
  then have "ip \<in> set ips" by simp
  with assms show ?thesis
    by (cases outcome)
      (auto simp: race_inv_def connect_address_work_def Let_def nth_list_update split: main.splits)
qed

lemma race_inv_resume: "race_inv port ips s \<Longrightarrow> race_cancelled s \<Longrightarrow> race_inv port ips (connect_address_resume s)"
  by (auto simp: race_inv_def connect_address_resume_def)

lemma race_inv_reachable: "race_reachable ms port ips s \<Longrightarrow> race_inv port ips s"
  by (induction rule: race_reachable.induct)
    (auto elim!: race_stepE intro: race_inv_start race_inv_work race_inv_resume)

lemma step_keeps_result: "race_step ms port s s' \<Longrightarrow> race_result s = Some sock \<Longrightarrow> race_result s' = Some sock"
  by (auto elim!: race_stepE simp: connect_address_work_def connect_address_resume_def Let_def
      split: sum.splits)

lemma run_race_reachable:
  "race_reachable ms port ips s \<Longrightarrow> race_reachable ms port ips (run_race ms port es s)"
proof (induction ms port es s rule: run_race.induct)
  case (1 ms port s)
  then show ?case by (auto intro: race_reachable.step race_step.resume)
next
  case (2 ms port i outcome es s)
  then show ?case
    by (auto split: task.splits intro: race_reachable.step race_step.task)
qed

section \<open>Progress\<close>

definition all_ended :: "'h race \<Rightarrow> bool" where
  "all_ended s \<longleftrightarrow> list_all (\<lambda>t. t = Ended) (race_tasks s)"

lemma stuck_without_result:
  assumes "race_inv port ips s" "race_result s = None" "all_ended s"
  shows "race_main s = Waiting" "\<not> race_step ms port s s'"
  using assms by (auto simp: race_inv_def all_ended_def list_all_length elim!: race_stepE split: main.splits)

lemma run_race_prefix_failed:
  "\<forall>e \<in> set es. \<exists>x. snd e = Inl x \<Longrightarrow> race_result s = None \<Longrightarrow> \<not> race_cancelled s \<Longrightarrow> race_main s = Waiting \<Longrightarrow>
   race_main (run_race ms port es s) = Waiting"
proof (induction ms port es s rule: run_race.induct)
  case (2 ms port i outcome es s)
  then obtain x where "outcome = Inl x" by auto
  with 2 show ?case
    by (auto simp: connect_address_work_def Let_def split: task.splits)
qed simp

text \<open>Once a socket is stored the run returns it, whatever is reported later.\<close>

lemma run_race_stored:
  "race_result s = Some sock \<Longrightarrow> race_cancelled s \<Longrightarrow> race_main s = Waiting \<Longrightarrow>
   race_main (run_race ms port es s) = Returned (Inr sock)"
proof (induction ms port es s rule: run_race.induct)
  case (2 ms port i outcome es s)
  then show ?case
    by (auto simp: connect_address_work_def Let_def split: task.splits sum.splits)
qed (simp add: connect_address_resume_def)

lemma run_race_first:
  "\<forall>e \<in> set pre. \<exists>x. snd e = Inl x \<Longrightarrow> race_result s = None \<Longrightarrow> \<not> race_cancelled s \<Longrightarrow> race_main s = Waiting \<Longrightarrow>
   i < length (race_tasks s) \<Longrightarrow> race_tasks s ! i = Connecting ip \<Longrightarrow> i \<notin> fst ` set pre \<Longrightarrow>
   race_main (run_race ms port (pre @ (i, Inr h) # post) s) =
     Returned (Inr (\<lparr>ep_address = ip, ep_port = port\<rparr>, h))"
proof (induction pre arbitrary: s)
  case Nil
  then show ?case
    by (simp add: run_race_stored connect_address_work_def Let_def)
next
  case (Cons e pre)
  obtain j x where e: "e = (j, Inl x)" using Cons.prems(1) by (cases e) auto
  have j: "j \<noteq> i" using Cons.prems(7) e by auto
  have IH: "race_main (run_race ms port (pre @ (i, Inr h) # post) s') = Returned (Inr (\<lparr>ep_address = ip, ep_port = port\<rparr>, h))"
    if "race_result s' = None" "\<not> race_cancelled s'" "race_main s' = Waiting"
      "i < length (race_tasks s')" "race_tasks s' ! i = Connecting ip" for s'
    using Cons.IH [of s'] Cons.prems(1,7) that by simp
  show ?case
    using Cons.prems j IH [of s] IH [of "connect_address_work ms port j _ (Inl x) s"]
    by (auto simp: e connect_address_work_def Let_def split: task.splits)
qed

text \<open>What is left to happen: the attempts that are still connecting, and the return of the main coroutine.\<close>

definition race_left :: "'h race \<Rightarrow> nat" where
  "race_left s = length (filter (\<lambda>t. t \<noteq> Ended) (race_tasks s)) + (if race_main s = Waiting then 1 else 0)"

lemma filter_update_less:
  "i < length xs \<Longrightarrow> P (xs ! i) \<Longrightarrow> \<not> P y \<Longrightarrow> length (filter P xs) = Suc (length (filter P (xs[i := y])))"
  by (induction xs arbitrary: i) (auto split: nat.splits)

lemma race_step_decreases: "race_step ms port s s' \<Longrightarrow> race_left s = Suc (race_left s')"
  by (auto elim!: race_stepE simp: race_left_def connect_address_work_def connect_address_resume_def Let_def
      filter_update_less [where y = Ended] split: sum.splits)

lemma race_run_length: "(race_step ms port ^^ n) s s' \<Longrightarrow> race_left s = n + race_left s'"
  by (induction n arbitrary: s') (auto dest: race_step_decreases)

section \<open>The socket\<close>

lemma run_race_endpoint:
  assumes "race_main (run_race ms port es (start_race ips)) = Returned r"
  obtains ep h where "r = Inr (ep, h)" and "ep_address ep \<in> set ips" and "ep_port ep = port"
proof -
  have "race_inv port ips (run_race ms port es (start_race ips))"
    by (rule race_inv_reachable [OF run_race_reachable [OF race_reachable.start]])
  then obtain sock where "r = Inr sock" "race_result (run_race ms port es (start_race ips)) = Some sock"
    "\<forall>ep h. race_result (run_race ms port es (start_race ips)) = Some (ep, h) \<longrightarrow> ep_address ep \<in> set ips \<and> ep_port ep = port"
    using assms by (auto simp: race_inv_def)
  then show thesis using that by (cases sock) auto
qed

text \<open>The socket of \<^verbatim>\<open>connect_address\<close> is connected to the address, or to one the name resolved to.\<close>

lemma connect_address_endpoint:
  assumes "connect_address ms async_connect resolve events a = Some (Inr (ep, h))"
  shows "ep_port ep = addr_port a \<and>
    (case addr_host a of
       Ip v \<Rightarrow> ep_address ep = v
     | Domain d \<Rightarrow> \<exists>ips. resolve d = Some (Inr ips) \<and> ep_address ep \<in> set ips)"
proof (cases "addr_host a")
  case (Ip v)
  then show ?thesis using assms by (auto simp: connect_address_def connect_ip_def Let_def split: sum.splits)
next
  case (Domain d)
  with assms obtain ips where ips: "resolve d = Some (Inr ips)"
    "(case race_main (run_race ms (addr_port a) events (start_race ips)) of Waiting \<Rightarrow> None | Returned r \<Rightarrow> Some r) =
      Some (Inr (ep, h))"
    by (auto simp: connect_address_def async_bind_eq_Inr)
  then have "race_main (run_race ms (addr_port a) events (start_race ips)) = Returned (Inr (ep, h))"
    by (simp split: main.splits)
  from run_race_endpoint [OF this] ips(1) Domain show ?thesis by auto
qed

lemma connect_address_no_ub:
  assumes "connect_address ms async_connect resolve events a = Some r" and "\<And>d r. resolve d = Some r \<Longrightarrow> no_ub r"
  shows "no_ub r"
proof (cases "addr_host a")
  case (Ip v)
  then show ?thesis using assms(1) by (auto simp: connect_address_def connect_ip_def Let_def split: sum.splits)
next
  case (Domain d)
  show ?thesis
  proof (rule no_ub_async_bind)
    show "async_bind (resolve d) (\<lambda>ips. case race_main (run_race ms (addr_port a) events (start_race ips)) of
        Waiting \<Rightarrow> None | Returned r \<Rightarrow> Some r) = Some r"
      using assms(1) Domain by (simp add: connect_address_def)
  qed (auto simp: assms(2) split: main.splits elim: run_race_endpoint)
qed

lemma connect_ip_no_ub: "no_ub (connect_ip async_connect ip port)"
  by (simp add: connect_ip_def Let_def split: sum.split)

section \<open>Properties\<close>

text \<open>In every reachable state of a race, the timer is cancelled exactly when a socket is stored,
  a stored socket is connected to the requested port of one of the resolved addresses, and whatever the
  main coroutine returned is the stored socket: the error \<^verbatim>\<open>all tries to connect address
  fail\<close> is never thrown.\<close>

theorem race_invariant:
  "race_reachable ms port ips s \<Longrightarrow>
   (race_cancelled s \<longleftrightarrow> race_result s \<noteq> None) \<and>
   (\<forall>ep h. race_result s = Some (ep, h) \<longrightarrow> ep_address ep \<in> set ips \<and> ep_port ep = port) \<and>
   (\<forall>r. race_main s = Returned r \<longrightarrow> (\<exists>sock. race_result s = Some sock \<and> r = Inr sock))"
  using race_inv_reachable [of ms port ips s] by (auto simp: race_inv_def split: main.splits)

definition sample_ips :: "ip_address list" where
  "sample_ips = [IpV4 1 1 1 1, IpV4 2 2 2 2]"

definition sample_race :: "unit race" where
  "sample_race = run_race \<lparr>code_message = (\<lambda>c. ''''), exn_what = (\<lambda>e. '''')\<rparr> 443
     [(0, Inl (System_Error Eof)), (1, Inr ())] (start_race sample_ips)"

lemma sample_race_reachable:
  "race_reachable \<lparr>code_message = (\<lambda>c. ''''), exn_what = (\<lambda>e. '''')\<rparr> 443 sample_ips sample_race"
  unfolding sample_race_def by (intro run_race_reachable race_reachable.start)

lemma sample_race_main: "race_main sample_race = Returned (Inr (\<lparr>ep_address = IpV4 2 2 2 2, ep_port = 443\<rparr>, ()))"
  by code_simp

theorem race_invariant_witness:
  "race_result sample_race = Some (\<lparr>ep_address = IpV4 2 2 2 2, ep_port = 443\<rparr>, ())"
  using race_invariant [OF sample_race_reachable] sample_race_main by auto

text \<open>C27: the first connect to succeed decides: connecting to a domain returns its socket, whatever
  failed before and whatever is reported later.\<close>

theorem connect_first_success:
  "resolve d = Some (Inr ips) \<Longrightarrow> i < length ips \<Longrightarrow> \<forall>e \<in> set pre. \<exists>x. snd e = Inl x \<Longrightarrow> i \<notin> fst ` set pre \<Longrightarrow>
   connect_address ms async_connect resolve (pre @ (i, Inr h) # post) \<lparr>addr_host = Domain d, addr_port = port\<rparr> =
     Some (Inr (\<lparr>ep_address = ips ! i, ep_port = port\<rparr>, h))"
  using run_race_first [of pre "start_race ips" i "ips ! i" ms port h post]
  by (simp add: connect_address_def start_race_def)

theorem connect_first_success_witness:
  "connect_address \<lparr>code_message = (\<lambda>c. ''''), exn_what = (\<lambda>e. '''')\<rparr> (\<lambda>ep. Inr ())
     (\<lambda>d. Some (Inr sample_ips)) ([(0, Inl (System_Error Eof))] @ (1, Inr ()) # []) \<lparr>addr_host = Domain ''h'', addr_port = 80\<rparr> =
     Some (Inr (\<lparr>ep_address = sample_ips ! 1, ep_port = 80\<rparr>, ()))"
  by (rule connect_first_success) (simp_all add: sample_ips_def)



text \<open>A state without a next step: every attempt has ended, and there is nothing to return or it was returned.\<close>

lemma relpowp_race_reachable: "(race_step ms port ^^ n) (start_race ips) s \<Longrightarrow> race_reachable ms port ips s"
  by (induction n arbitrary: s) (auto intro: race_reachable.intros)

lemma race_stuck_iff:
  assumes "race_inv port ips s"
  shows "(\<forall>s'. \<not> race_step ms port s s') \<longleftrightarrow>
    all_ended s \<and> (race_main s = Waiting \<longrightarrow> race_result s = None)"
proof
  assume stuck: "\<forall>s'. \<not> race_step ms port s s'"
  have "race_tasks s ! i = Ended" if "i < length (race_tasks s)" for i
    using stuck that assms race_step.task [of i s "ips ! i" ms port] by (auto simp: race_inv_def)
  moreover have "race_main s = Waiting \<Longrightarrow> race_result s = None"
    using stuck assms race_step.resume [of s ms port] by (auto simp: race_inv_def)
  ultimately show "all_ended s \<and> (race_main s = Waiting \<longrightarrow> race_result s = None)"
    by (simp add: all_ended_def list_all_length)
next
  assume "all_ended s \<and> (race_main s = Waiting \<longrightarrow> race_result s = None)"
  then show "\<forall>s'. \<not> race_step ms port s s'"
    using assms by (auto simp: race_inv_def all_ended_def list_all_length elim!: race_stepE)
qed

text \<open>C25: a race always comes to an end: from \<open>n\<close> resolved addresses every sequence of steps, in any order and
  with any outcomes, has at most \<open>n + 1\<close> steps, one for each attempt and one for the return; and it stops exactly
  when every attempt has ended and the main coroutine has returned, or waits for a socket that no attempt got.\<close>

theorem race_terminates:
  "(race_step ms port ^^ k) (start_race ips) s \<Longrightarrow>
   k \<le> length ips + 1 \<and>
   ((\<forall>s'. \<not> race_step ms port s s') \<longleftrightarrow>
      set (race_tasks s) \<subseteq> {Ended} \<and> (race_main s = Waiting \<longrightarrow> race_result s = None))"
  using race_run_length [where s = "start_race ips" and s' = s and n = k]
    race_stuck_iff [OF race_inv_reachable [OF relpowp_race_reachable], of k ms port ips s ms]
  by (auto simp: race_left_def start_race_def all_ended_def list_all_iff)

definition sample_messages :: messages where
  "sample_messages = \<lparr>code_message = (\<lambda>c. []), exn_what = (\<lambda>e. [])\<rparr>"

lemma first_sample_step:
  "(race_step sample_messages 443 ^^ 1) (start_race sample_ips)
     (connect_address_work sample_messages 443 0 (IpV4 1 1 1 1) (Inr ()) (start_race sample_ips))"
  unfolding relpowp_1 by (rule race_step.task) (simp_all add: start_race_def sample_ips_def)

theorem race_terminates_witness:
  "1 \<le> length sample_ips + 1 \<and> (\<exists>s'. race_step sample_messages 443
     (connect_address_work sample_messages 443 0 (IpV4 1 1 1 1) (Inr ()) (start_race sample_ips)) s')"
  using race_terminates [OF first_sample_step]
  by (simp add: connect_address_work_def start_race_def sample_ips_def)

end
