(* ===== verification/Dns_Service.thy ===== *)
theory Dns_Service
  imports Dns_Center
begin

text \<open>
  The DNS center at work (\<^verbatim>\<open>dns/dns.cpp\<close>): the coroutines \<^verbatim>\<open>mainWork_\<close>,
  \<^verbatim>\<open>handleClient_\<close>, \<^verbatim>\<open>resolve\<close> and the sweep of the cache share the center and
  interleave at their awaits, so they are steps of one state. \<open>arrives\<close> are the datagrams that
  may reach the center's socket, \<open>answers\<close> what a server may give for a query. The invariant
  says where every address in the cache and every datagram sent comes from.
\<close>

section \<open>The coroutines\<close>

datatype 'srv dns_task =
    Asking_Client udp_session 'srv
  | Asking_Name string bytes 'srv
  | Ended_With "unit result"

text \<open>\<open>sv_main\<close> is where \<^verbatim>\<open>mainWork_\<close> is (in its loop, suspended on a waiter, or
  ended), \<open>sv_resolved\<close> what calls of \<^verbatim>\<open>resolve\<close> have returned.\<close>

datatype main_stage = In_Loop | Waits_For nat | Main_Ended

record 'srv dns_service =
  sv_center :: "'srv dns_center"
  sv_main :: main_stage
  sv_tasks :: "'srv dns_task list"
  sv_resolved :: "(string \<times> ip_address list result) list"
  sv_log :: "string list"

definition start_service :: "messages \<Rightarrow> udp_lib \<Rightarrow> 'srv dns_center \<Rightarrow> 'srv dns_service" where
  "start_service ms lib dc =
     (let (dc, running, logs) = DnsCenter_mainWork_start ms lib dc
      in \<lparr>sv_center = dc, sv_main = (if running then In_Loop else Main_Ended), sv_tasks = [], sv_resolved = [],
          sv_log = logs\<rparr>)"

definition set_client :: "udp_client \<Rightarrow> 'srv dns_service \<Rightarrow> 'srv dns_service" where
  "set_client c s = s\<lparr>sv_center := (sv_center s)\<lparr>dc_client := Some c\<rparr>\<rparr>"

text \<open>\<^verbatim>\<open>handleClient_\<close> up to the wait for the server, and after it.\<close>

definition client_begin :: "messages \<Rightarrow> udp_session \<Rightarrow> 'srv dns_service \<Rightarrow> 'srv dns_service" where
  "client_begin ms u s =
     (let logs = relay_begin_log (us_data u)
      in case relay_begin (sv_center s) (us_data u) of
           Inr srv \<Rightarrow> s\<lparr>sv_tasks := sv_tasks s @ [Asking_Client u srv], sv_log := sv_log s @ logs\<rparr>
         | Inl (Raised e) \<Rightarrow>
             s\<lparr>sv_tasks := sv_tasks s @ [Ended_With (Inr ())], sv_log := sv_log s @ logs @ log_error ms ''dns handle'' e\<rparr>
         | Inl (UB k) \<Rightarrow> s\<lparr>sv_tasks := sv_tasks s @ [Ended_With (Inl (UB k))]\<rparr>)"

definition client_send :: "udp_lib \<Rightarrow> udp_session \<Rightarrow> bytes \<Rightarrow> 'srv dns_center \<Rightarrow> 'srv dns_center result" where
  "client_send lib u data dc =
     (case dc_client dc of
        None \<Rightarrow> Inl (UB Null_Deref)
      | Some c \<Rightarrow> bind_res (UdpClient_send lib c (u\<lparr>us_data := data\<rparr>)) (\<lambda>c. Inr (dc\<lparr>dc_client := Some c\<rparr>)))"

definition client_end ::
  "(ip_address \<Rightarrow> string) \<Rightarrow> messages \<Rightarrow> udp_lib \<Rightarrow> nat \<Rightarrow> udp_session \<Rightarrow> bytes result \<Rightarrow> 'srv dns_service \<Rightarrow> 'srv dns_service" where
  "client_end show_ip ms lib i u r s =
     (let logs = (case r of Inl f \<Rightarrow> [] | Inr data \<Rightarrow> relay_end_log show_ip (us_data u) data)
      in case bind_res (bind_res r relay_end) (\<lambda>data. client_send lib u data (sv_center s)) of
           Inr dc \<Rightarrow> s\<lparr>sv_center := dc, sv_tasks := (sv_tasks s)[i := Ended_With (Inr ())], sv_log := sv_log s @ logs\<rparr>
         | Inl (Raised e) \<Rightarrow>
             s\<lparr>sv_tasks := (sv_tasks s)[i := Ended_With (Inr ())], sv_log := sv_log s @ logs @ log_error ms ''dns handle'' e\<rparr>
         | Inl (UB k) \<Rightarrow> s\<lparr>sv_tasks := (sv_tasks s)[i := Ended_With (Inl (UB k))]\<rparr>)"

text \<open>\<^verbatim>\<open>resolve\<close>, likewise; its exceptions go to the caller.\<close>

definition name_begin :: "u16 \<Rightarrow> time_point \<Rightarrow> string \<Rightarrow> 'srv dns_service \<Rightarrow> 'srv dns_service" where
  "name_begin randomId now d s =
     (let logs = lookup_log (dc_cache (sv_center s)) d
      in case resolve_begin randomId (sv_center s) now d of
           (Inl f, dc) \<Rightarrow> s\<lparr>sv_center := dc, sv_resolved := sv_resolved s @ [(d, Inl f)], sv_log := sv_log s @ logs\<rparr>
         | (Inr (Cached ips), dc) \<Rightarrow>
             s\<lparr>sv_center := dc, sv_resolved := sv_resolved s @ [(d, Inr ips)], sv_log := sv_log s @ logs\<rparr>
         | (Inr (Query q), dc) \<Rightarrow>
             (let logs = logs @ relay_begin_log q
              in case relay_begin dc q of
                   Inl f \<Rightarrow> s\<lparr>sv_center := dc, sv_resolved := sv_resolved s @ [(d, Inl f)], sv_log := sv_log s @ logs\<rparr>
                 | Inr srv \<Rightarrow>
                     s\<lparr>sv_center := dc, sv_tasks := sv_tasks s @ [Asking_Name d q srv], sv_log := sv_log s @ logs\<rparr>))"

definition name_end ::
  "(ip_address \<Rightarrow> string) \<Rightarrow> nat \<Rightarrow> time_point \<Rightarrow> string \<Rightarrow> bytes \<Rightarrow> bytes result \<Rightarrow> 'srv dns_service \<Rightarrow> 'srv dns_service" where
  "name_end show_ip i now d q r s =
     (let s = s\<lparr>sv_tasks := (sv_tasks s)[i := Ended_With (Inr ())]\<rparr>
      in case bind_res r relay_end of
           Inl f \<Rightarrow> s\<lparr>sv_resolved := sv_resolved s @ [(d, Inl f)]\<rparr>
         | Inr data \<Rightarrow>
             (let (res, dc) = resolve_end (sv_center s) now d data
              in s\<lparr>sv_center := dc, sv_resolved := sv_resolved s @ [(d, res)],
                   sv_log := sv_log s @ relay_end_log show_ip q data @ store_log d\<rparr>))"

text \<open>The sweep of the cache, and a datagram that arrives at the socket.\<close>

definition service_sweep :: "time_point \<Rightarrow> 'srv dns_service \<Rightarrow> 'srv dns_service" where
  "service_sweep now s =
     (let c = dc_cache (sv_center s)
      in s\<lparr>sv_center := (sv_center s)\<lparr>dc_cache := DnsCache_sweep c now\<rparr>, sv_log := sv_log s @ sweep_log c now\<rparr>)"

definition service_receive :: "messages \<Rightarrow> endpoint \<Rightarrow> bytes \<Rightarrow> udp_client \<Rightarrow> udp_client" where
  "service_receive ms sender d c = fst (UdpClient_receive_work ms c [Datagram sender d])"

section \<open>Steps\<close>

inductive service_step ::
  "(ip_address \<Rightarrow> string) \<Rightarrow> messages \<Rightarrow> udp_lib \<Rightarrow> (endpoint \<Rightarrow> bytes \<Rightarrow> bool) \<Rightarrow> ('srv \<Rightarrow> bytes \<Rightarrow> bytes result \<Rightarrow> bool) \<Rightarrow>
   'srv dns_service \<Rightarrow> 'srv dns_service \<Rightarrow> bool" for show_ip ms lib arrives answers where
  datagram: "sv_main s \<noteq> Main_Ended \<Longrightarrow> dc_client (sv_center s) = Some c \<Longrightarrow> arrives sender d \<Longrightarrow>
    service_step show_ip ms lib arrives answers s (set_client (service_receive ms sender d c) s)"
| main_get: "sv_main s = In_Loop \<Longrightarrow> dc_client (sv_center s) = Some c \<Longrightarrow> UdpClient_session c = (Got u, c') \<Longrightarrow>
    service_step show_ip ms lib arrives answers s (client_begin ms u (set_client c' s))"
| main_wait: "sv_main s = In_Loop \<Longrightarrow> dc_client (sv_center s) = Some c \<Longrightarrow> UdpClient_session c = (Suspended w, c') \<Longrightarrow>
    service_step show_ip ms lib arrives answers s ((set_client c' s)\<lparr>sv_main := Waits_For w\<rparr>)"
| main_resume: "sv_main s = Waits_For w \<Longrightarrow> dc_client (sv_center s) = Some c \<Longrightarrow>
    AsyncQueue_get_resume (uc_sessions c) w = Some (Inr u) \<Longrightarrow>
    service_step show_ip ms lib arrives answers s (client_begin ms u (s\<lparr>sv_main := In_Loop\<rparr>))"
| client_answered: "i < length (sv_tasks s) \<Longrightarrow> sv_tasks s ! i = Asking_Client u srv \<Longrightarrow> answers srv (us_data u) r \<Longrightarrow>
    service_step show_ip ms lib arrives answers s (client_end show_ip ms lib i u r s)"
| name_called: "service_step show_ip ms lib arrives answers s (name_begin randomId now d s)"
| name_answered: "i < length (sv_tasks s) \<Longrightarrow> sv_tasks s ! i = Asking_Name d q srv \<Longrightarrow> answers srv q r \<Longrightarrow>
    service_step show_ip ms lib arrives answers s (name_end show_ip i now d q r s)"
| sweep: "service_step show_ip ms lib arrives answers s (service_sweep now s)"
| stopped: "service_step show_ip ms lib arrives answers s (s\<lparr>sv_center := DnsCenter_stop (sv_center s)\<rparr>)"

inductive service_reachable ::
  "(ip_address \<Rightarrow> string) \<Rightarrow> messages \<Rightarrow> udp_lib \<Rightarrow> (endpoint \<Rightarrow> bytes \<Rightarrow> bool) \<Rightarrow> ('srv \<Rightarrow> bytes \<Rightarrow> bytes result \<Rightarrow> bool) \<Rightarrow>
   'srv dns_service \<Rightarrow> 'srv dns_service \<Rightarrow> bool" for show_ip ms lib arrives answers s0 where
  start: "service_reachable show_ip ms lib arrives answers s0 s0"
| step: "service_reachable show_ip ms lib arrives answers s0 s \<Longrightarrow> service_step show_ip ms lib arrives answers s s' \<Longrightarrow>
    service_reachable show_ip ms lib arrives answers s0 s'"

inductive_cases service_stepE: "service_step show_ip ms lib arrives answers s s'"

section \<open>Where values come from\<close>

text \<open>A session of the socket, and an answer to a client, to a name, as the environment allows them.\<close>

definition arrived :: "(endpoint \<Rightarrow> bytes \<Rightarrow> bool) \<Rightarrow> udp_session \<Rightarrow> bool" where
  "arrived arrives u \<longleftrightarrow> (\<exists>d. arrives (us_endpoint u) d \<and> us_data u = take udp_buffer_size d)"

definition asked_for :: "'srv dns_center \<Rightarrow> bytes \<Rightarrow> 'srv \<Rightarrow> bool" where
  "asked_for dc query srv \<longleftrightarrow> (\<exists>name. parse_dns_query query = Inr name \<and> chosen_server dc name = Some srv)"

definition client_answer ::
  "'srv dns_center \<Rightarrow> (endpoint \<Rightarrow> bytes \<Rightarrow> bool) \<Rightarrow> ('srv \<Rightarrow> bytes \<Rightarrow> bytes result \<Rightarrow> bool) \<Rightarrow> udp_session \<Rightarrow> bool" where
  "client_answer dc arrives answers out \<longleftrightarrow>
     (\<exists>u srv ips. arrived arrives u \<and> us_endpoint out = us_endpoint u \<and> asked_for dc (us_data u) srv \<and>
        answers srv (us_data u) (Inr (us_data out)) \<and> parse_dns_response (us_data out) = Inr ips)"

definition name_query :: "'srv dns_center \<Rightarrow> string \<Rightarrow> bytes \<Rightarrow> 'srv \<Rightarrow> bool" where
  "name_query dc d q srv \<longleftrightarrow>
     (\<exists>i. build_dns_query i d False = Inr q \<and> chosen_server dc (strip_dot (strip_dot d)) = Some srv)"

definition name_origin ::
  "'srv dns_center \<Rightarrow> ('srv \<Rightarrow> bytes \<Rightarrow> bytes result \<Rightarrow> bool) \<Rightarrow> string \<Rightarrow> ip_address list \<Rightarrow> bool" where
  "name_origin dc answers d ips \<longleftrightarrow>
     (\<exists>q srv data. name_query dc d q srv \<and> answers srv q (Inr data) \<and> parse_dns_response data = Inr ips)"

section \<open>The invariant\<close>

definition queue_holds :: "('a \<Rightarrow> bool) \<Rightarrow> 'a async_queue \<Rightarrow> bool" where
  "queue_holds P q \<longleftrightarrow>
     list_all P (queue_items q) \<and> list_all (\<lambda>w. \<forall>v. waiter_value w = Some v \<longrightarrow> P v) (waiter_store q) \<and>
     list_all (\<lambda>w. w < length (waiter_store q)) (get_waiters q)"

lemma queue_holds_new: "queue_holds P new_queue"
  by (simp add: queue_holds_def new_queue_def)

lemma list_all_upd: "list_all P xs \<Longrightarrow> P x \<Longrightarrow> list_all P (xs[i := x])"
  by (auto simp: list_all_iff dest: set_update_subset_insert [THEN subsetD])

lemma queue_holds_put: "queue_holds P q \<Longrightarrow> P v \<Longrightarrow> queue_holds P (AsyncQueue_put q v)"
  by (auto simp: queue_holds_def AsyncQueue_put_def GetWaiter_complete_def Let_def intro!: list_all_upd split: list.splits)

lemma queue_holds_get:
  assumes "queue_holds P q" and "AsyncQueue_get q = (t, q')"
  shows "queue_holds P q' \<and> length (waiter_store q) \<le> length (waiter_store q') \<and>
    (case t of Got v \<Rightarrow> P v | Suspended w \<Rightarrow> w < length (waiter_store q'))"
  using assms
  by (auto simp: queue_holds_def AsyncQueue_get_def new_waiter_def Let_def list_all_iff split: list.splits) (blast intro: less_SucI)

lemma queue_holds_resume:
  "queue_holds P q \<Longrightarrow> w < length (waiter_store q) \<Longrightarrow> AsyncQueue_get_resume q w = Some (Inr v) \<Longrightarrow> P v"
  by (auto simp: queue_holds_def AsyncQueue_get_resume_def list_all_length split: if_splits option.splits)

lemma length_store_put [simp]: "length (waiter_store (AsyncQueue_put q v)) = length (waiter_store q)"
  by (simp add: AsyncQueue_put_def Let_def split: list.split)

definition client_ok ::
  "'srv dns_center \<Rightarrow> (endpoint \<Rightarrow> bytes \<Rightarrow> bool) \<Rightarrow> ('srv \<Rightarrow> bytes \<Rightarrow> bytes result \<Rightarrow> bool) \<Rightarrow> main_stage \<Rightarrow> udp_client \<Rightarrow> bool" where
  "client_ok dc arrives answers main c \<longleftrightarrow>
     queue_holds (arrived arrives) (uc_sessions c) \<and> list_all (client_answer dc arrives answers) (uc_sent c) \<and>
     (\<forall>w. main = Waits_For w \<longrightarrow> w < length (waiter_store (uc_sessions c)))"

fun task_ok :: "'srv dns_center \<Rightarrow> (endpoint \<Rightarrow> bytes \<Rightarrow> bool) \<Rightarrow> bool \<Rightarrow> 'srv dns_task \<Rightarrow> bool" where
  "task_ok dc arrives serving (Asking_Client u srv) \<longleftrightarrow> serving \<and> arrived arrives u \<and> asked_for dc (us_data u) srv"
| "task_ok dc arrives serving (Asking_Name d q srv) \<longleftrightarrow> name_query dc d q srv"
| "task_ok dc arrives serving (Ended_With r) \<longleftrightarrow> no_ub r"

definition same_rules :: "'srv dns_center \<Rightarrow> 'srv dns_center \<Rightarrow> bool" where
  "same_rules dc dc' \<longleftrightarrow> dc_rules dc' = dc_rules dc \<and> dc_servers dc' = dc_servers dc \<and> dc_final dc' = dc_final dc"

lemma same_rules_chosen: "same_rules dc dc' \<Longrightarrow> chosen_server dc' = chosen_server dc"
  by (auto simp: same_rules_def chosen_server_def fun_eq_iff cong: option.case_cong)

definition cache_ok :: "'srv dns_center \<Rightarrow> ('srv \<Rightarrow> bytes \<Rightarrow> bytes result \<Rightarrow> bool) \<Rightarrow> dns_cache \<Rightarrow> bool" where
  "cache_ok dc answers m \<longleftrightarrow> wf_umap m \<and> (\<forall>d it. umap_find m d = Some it \<longrightarrow> name_origin dc answers d (item_ips it))"

definition resolved_ok :: "'srv dns_center \<Rightarrow> ('srv \<Rightarrow> bytes \<Rightarrow> bytes result \<Rightarrow> bool) \<Rightarrow> string \<times> ip_address list result \<Rightarrow> bool" where
  "resolved_ok dc answers p \<longleftrightarrow> no_ub (snd p) \<and> (\<forall>ips. snd p = Inr ips \<longrightarrow> name_origin dc answers (fst p) ips)"

definition service_inv ::
  "'srv dns_center \<Rightarrow> (endpoint \<Rightarrow> bytes \<Rightarrow> bool) \<Rightarrow> ('srv \<Rightarrow> bytes \<Rightarrow> bytes result \<Rightarrow> bool) \<Rightarrow> 'srv dns_service \<Rightarrow> bool" where
  "service_inv dc arrives answers s \<longleftrightarrow>
     same_rules dc (sv_center s) \<and> cache_ok dc answers (dc_cache (sv_center s)) \<and>
     (\<forall>c. dc_client (sv_center s) = Some c \<longrightarrow> client_ok dc arrives answers (sv_main s) c) \<and>
     list_all (task_ok dc arrives (dc_client (sv_center s) \<noteq> None)) (sv_tasks s) \<and> list_all (resolved_ok dc answers) (sv_resolved s)"

section \<open>Every operation keeps it\<close>

lemma cache_ok_lookup:
  assumes "cache_ok dc answers m" and "DnsCache_lookup m now d = (ips, m')"
  shows "cache_ok dc answers m' \<and> (ips \<noteq> [] \<longrightarrow> name_origin dc answers d ips)"
  using assms by (auto simp: cache_ok_def DnsCache_lookup_def wf_umap_assign split: option.splits if_splits)

lemma cache_ok_store: "cache_ok dc answers m \<Longrightarrow> name_origin dc answers d ips \<Longrightarrow> cache_ok dc answers (DnsCache_store m now d ips)"
  by (auto simp: cache_ok_def DnsCache_store_def wf_umap_assign)

lemma cache_ok_sweep: "cache_ok dc answers m \<Longrightarrow> cache_ok dc answers (DnsCache_sweep m now)"
  by (auto simp: cache_ok_def DnsCache_sweep_def wf_umap_erase_if umap_find_erase_if split: option.splits if_splits)

lemma relay_begin_asked:
  "same_rules dc dc' \<Longrightarrow> relay_begin dc' q = Inr srv \<Longrightarrow> asked_for dc q srv"
proof -
  assume same: "same_rules dc dc'" and r: "relay_begin dc' q = Inr srv"
  then obtain name where n: "parse_dns_query q = Inr name" by (auto simp: relay_begin_def)
  from r show ?thesis
    using n same_rules_chosen [OF same] by (auto simp: relay_begin_eq [OF n] asked_for_def split: option.splits)
qed

lemma relay_begin_no_ub: "no_ub (relay_begin dc q)"
  by (auto simp: relay_begin_def DnsCenter_match_find intro!: no_ub_bind no_ub_parse_dns_query split: option.splits)

lemma relay_end_Inr: "relay_end data = Inr data' \<longleftrightarrow> data' = data \<and> (\<exists>ips. parse_dns_response data = Inr ips)"
  by (auto simp: relay_end_def bind_res_eq_Inr)

lemma relay_end_no_ub: "no_ub (relay_end data)"
  by (auto simp: relay_end_def intro: no_ub_bind no_ub_parse_dns_response)

lemma inv_client_begin:
  assumes "service_inv dc arrives answers s" and "arrived arrives u" and "dc_client (sv_center s) \<noteq> None"
  shows "service_inv dc arrives answers (client_begin ms u s)"
proof (cases "relay_begin (sv_center s) (us_data u)")
  case (Inl f)
  then have "no_ub (Inl f :: 'a result)" using relay_begin_no_ub [of "sv_center s" "us_data u"] by simp
  then show ?thesis
    using assms Inl by (cases f) (auto simp: client_begin_def service_inv_def)
next
  case (Inr srv)
  have "same_rules dc (sv_center s)" using assms(1) by (simp add: service_inv_def)
  from relay_begin_asked [OF this Inr] show ?thesis
    using assms Inr by (auto simp: client_begin_def service_inv_def)
qed

lemma inv_set_client:
  "service_inv dc arrives answers s \<Longrightarrow> dc_client (sv_center s) = Some c0 \<Longrightarrow>
   client_ok dc arrives answers (sv_main s) c \<Longrightarrow> service_inv dc arrives answers (set_client c s)"
  by (auto simp: service_inv_def set_client_def same_rules_def)

lemma client_ok_receive:
  "client_ok dc arrives answers main c \<Longrightarrow> arrives sender d \<Longrightarrow>
   client_ok dc arrives answers main (service_receive ms sender d c)"
  by (auto simp: client_ok_def service_receive_def arrived_def intro!: queue_holds_put)

lemma client_ok_session:
  assumes "client_ok dc arrives answers In_Loop c" and "UdpClient_session c = (t, c')"
  shows "(\<forall>u. t = Got u \<longrightarrow> arrived arrives u \<and> client_ok dc arrives answers In_Loop c') \<and>
    (\<forall>w. t = Suspended w \<longrightarrow> client_ok dc arrives answers (Waits_For w) c')"
  using assms queue_holds_get [of "arrived arrives" "uc_sessions c"]
  by (fastforce simp: client_ok_def UdpClient_session_def split: prod.splits)

lemma client_send_ok:
  assumes "service_inv dc arrives answers s" and "client_send lib u data (sv_center s) = Inr dc'"
    and "arrived arrives u" and "asked_for dc (us_data u) srv" and "answers srv (us_data u) (Inr data)"
    and "parse_dns_response data = Inr ips"
  shows "same_rules dc dc' \<and> dc_cache dc' = dc_cache (sv_center s) \<and>
    (\<exists>c. dc_client dc' = Some c \<and> client_ok dc arrives answers (sv_main s) c)"
proof -
  obtain c where c: "dc_client (sv_center s) = Some c" "client_ok dc arrives answers (sv_main s) c"
    using assms(1,2) by (auto simp: service_inv_def client_send_def split: option.splits)
  have "client_answer dc arrives answers (u\<lparr>us_data := data\<rparr>)"
    using assms(3-6) by (auto simp: client_answer_def)
  then show ?thesis
    using assms(1,2) c
    by (auto simp: client_send_def UdpClient_send_def client_ok_def service_inv_def same_rules_def)
qed

lemma client_send_no_ub:
  "dc_client (sv_center s) \<noteq> None \<Longrightarrow> no_ub (client_send lib u data (sv_center s))"
  by (auto simp: client_send_def UdpClient_send_def check_call_def intro!: no_ub_bind split: option.splits)

lemma inv_client_end:
  assumes inv: "service_inv dc arrives answers s" and i: "i < length (sv_tasks s)" "sv_tasks s ! i = Asking_Client u srv"
    and r: "answers srv (us_data u) r" "no_ub r"
  shows "service_inv dc arrives answers (client_end show_ip ms lib i u r s)"
proof -
  let ?m = "bind_res (bind_res r relay_end) (\<lambda>data. client_send lib u data (sv_center s))"
  have "task_ok dc arrives (dc_client (sv_center s) \<noteq> None) (Asking_Client u srv)"
    using inv i unfolding service_inv_def by (metis list_all_length)
  then have u: "arrived arrives u" "asked_for dc (us_data u) srv" and c: "dc_client (sv_center s) \<noteq> None" by simp_all
  have "no_ub ?m" using r(2) by (intro no_ub_bind relay_end_no_ub client_send_no_ub [OF c])
  then show ?thesis
  proof (cases ?m)
    case (Inl f)
    then show ?thesis
      using inv \<open>no_ub ?m\<close> by (cases f) (auto simp: client_end_def Let_def service_inv_def intro!: list_all_upd)
  next
    case (Inr dc')
    then obtain data ips where "r = Inr data" "parse_dns_response data = Inr ips"
      "client_send lib u data (sv_center s) = Inr dc'"
      by (auto simp: relay_end_Inr)
    with client_send_ok [OF inv this(3) u _ this(2)] r(1) inv c Inr show ?thesis
      by (auto simp: client_end_def Let_def service_inv_def intro!: list_all_upd)
  qed
qed

lemma build_no_ub: "no_ub (build_dns_query i d v6)"
  by (auto simp: build_dns_query_eq intro!: no_ub_bind no_ub_encodeQname)

lemma inv_name_begin:
  assumes inv: "service_inv dc arrives answers s"
  shows "service_inv dc arrives answers (name_begin randomId now d s)"
proof -
  obtain ips cache where l: "DnsCache_lookup (dc_cache (sv_center s)) now d = (ips, cache)" by fastforce
  let ?dc = "(sv_center s)\<lparr>dc_cache := cache\<rparr>"
  have "cache_ok dc answers (dc_cache (sv_center s))" using inv by (simp add: service_inv_def)
  from cache_ok_lookup [OF this l] have cache: "cache_ok dc answers cache" "ips \<noteq> [] \<longrightarrow> name_origin dc answers d ips"
    by simp_all
  have same: "same_rules dc ?dc" using inv by (simp add: service_inv_def same_rules_def)
  have ask: "name_query dc d q srv" if "build_dns_query randomId d False = Inr q" "relay_begin ?dc q = Inr srv" for q srv
    using relay_begin_asked [OF same that(2)] query_roundtrip [OF that(1)] that(1)
    by (auto simp: asked_for_def name_query_def)
  have "no_ub (relay_begin ?dc q)" "no_ub (build_dns_query randomId d False)" for q
    by (rule relay_begin_no_ub, rule build_no_ub)
  then have no_ub: "relay_begin ?dc q = Inl f \<Longrightarrow> no_ub (Inl f :: ip_address list result)"
    "bind_res (build_dns_query randomId d False) (\<lambda>q. Inr (Query q)) = Inl f \<Longrightarrow>
      no_ub (Inl f :: ip_address list result)" for q f
    by (metis no_ub_iff sum.sel(1), auto simp: bind_res_def no_ub_iff split: sum.splits)
  show ?thesis
    using inv cache same ask no_ub
    by (auto simp: name_begin_def resolve_begin_def l service_inv_def resolved_ok_def Let_def split: sum.splits)
qed

lemma inv_name_end:
  assumes inv: "service_inv dc arrives answers s" and i: "i < length (sv_tasks s)" "sv_tasks s ! i = Asking_Name d q srv"
    and r: "answers srv q r" "no_ub r"
  shows "service_inv dc arrives answers (name_end show_ip i now d q r s)"
proof -
  have "task_ok dc arrives (dc_client (sv_center s) \<noteq> None) (Asking_Name d q srv)"
    using inv i unfolding service_inv_def by (metis list_all_length)
  then have "name_origin dc answers d ips" if "r = Inr data" "parse_dns_response data = Inr ips" for data ips
    using r that by (auto simp: name_origin_def)
  moreover have "no_ub (bind_res r relay_end)" using r(2) by (intro no_ub_bind relay_end_no_ub)
  then have "bind_res r relay_end = Inl f \<Longrightarrow> no_ub (Inl f :: ip_address list result)" for f
    by (metis no_ub_iff sum.sel(1))
  ultimately show ?thesis
    using inv
    by (auto simp: name_end_def resolve_end_def relay_end_def service_inv_def resolved_ok_def same_rules_def Let_def
        intro!: list_all_upd cache_ok_store split: sum.splits prod.splits dest!: bind_res_eq_Inr [THEN iffD1])
qed

lemma inv_sweep: "service_inv dc arrives answers s \<Longrightarrow> service_inv dc arrives answers (service_sweep now s)"
  by (auto simp: service_inv_def service_sweep_def same_rules_def Let_def intro: cache_ok_sweep)

lemma inv_stopped: "service_inv dc arrives answers s \<Longrightarrow>
  service_inv dc arrives answers (s\<lparr>sv_center := DnsCenter_stop (sv_center s)\<rparr>)"
  by (auto simp: service_inv_def DnsCenter_stop_def same_rules_def UdpClient_close_def client_ok_def split: option.splits)

lemma inv_start:
  "service_inv (DnsCenter_new ep rs servers final) arrives answers
     (start_service ms lib (DnsCenter_new ep rs servers final))"
proof -
  have "UdpClient_start lib (UdpClient_new a) b = Inr c \<Longrightarrow> uc_sessions c = new_queue \<and> uc_sent c = []" for a b c
    by (auto simp: UdpClient_start_def UdpClient_new_def check_call_def split: option.splits if_splits)
  then show ?thesis
    by (auto simp: service_inv_def start_service_def DnsCenter_mainWork_start_def DnsCenter_new_def same_rules_def
        cache_ok_def client_ok_def queue_holds_new UdpClient_new_def Let_def split: option.splits sum.splits fault.splits)
qed

lemma inv_step:
  assumes step: "service_step show_ip ms lib arrives answers s s'" and inv: "service_inv dc arrives answers s"
    and safe: "\<And>srv q r. answers srv q r \<Longrightarrow> no_ub r"
  shows "service_inv dc arrives answers s'"
  using step
proof (cases rule: service_step.cases)
  case (datagram c sender d)
  then have "client_ok dc arrives answers (sv_main s) c" using inv by (simp add: service_inv_def)
  then show ?thesis using datagram inv by (auto intro!: inv_set_client client_ok_receive)
next
  case (main_get c u c')
  then have "client_ok dc arrives answers In_Loop c" using inv by (auto simp: service_inv_def)
  from client_ok_session [OF this main_get(4)] have u: "arrived arrives u" and "client_ok dc arrives answers (sv_main s) c'"
    using main_get by simp_all
  from inv_set_client [OF inv main_get(3) this(2)] u show ?thesis
    using main_get by (auto intro: inv_client_begin simp: set_client_def)
next
  case (main_wait c w c')
  then have "client_ok dc arrives answers In_Loop c" using inv by (auto simp: service_inv_def)
  from client_ok_session [OF this main_wait(4)] show ?thesis
    using main_wait inv by (auto simp: service_inv_def set_client_def same_rules_def)
next
  case (main_resume w c u)
  then have "client_ok dc arrives answers (Waits_For w) c" using inv by (auto simp: service_inv_def)
  then have "arrived arrives u" using main_resume by (auto simp: client_ok_def intro: queue_holds_resume)
  moreover have "service_inv dc arrives answers (s\<lparr>sv_main := In_Loop\<rparr>)"
    using inv by (auto simp: service_inv_def client_ok_def)
  ultimately show ?thesis using main_resume by (auto intro: inv_client_begin)
qed (use inv safe in \<open>auto intro: inv_client_end inv_name_begin inv_name_end inv_sweep inv_stopped\<close>)

lemma inv_reachable:
  assumes "service_reachable show_ip ms lib arrives answers s0 s" and "service_inv dc arrives answers s0"
    and "\<And>srv q r. answers srv q r \<Longrightarrow> no_ub r"
  shows "service_inv dc arrives answers s"
  using assms(1) by (induction rule: service_reachable.induct) (auto intro: assms(2) inv_step [OF _ _ assms(3)])

section \<open>The steps and the whole calls\<close>

text \<open>Taken one right after the other, the two halves are the whole call of the center.\<close>

lemma handle_client_steps:
  assumes "relay_begin (sv_center s) (us_data u) = Inr srv" and "ask srv (us_data u) = Some r" and "no_ub r"
    and "dc_client (sv_center s) \<noteq> None"
  shows "\<exists>logs. DnsCenter_handleClient ms ask lib (sv_center s) u =
    Some (Inr (sv_center (client_end show_ip ms lib (length (sv_tasks s)) u r (client_begin ms u s)), logs))"
proof -
  have "no_ub (bind_res r relay_end)" using assms(3) by (intro no_ub_bind relay_end_no_ub)
  then show ?thesis
    using assms
    by (auto simp: DnsCenter_handleClient_def DnsCenter_relay_def relay_end_def client_begin_def client_end_def client_send_def
        UdpClient_send_def check_call_def Let_def async_bind_def bind_res_def no_ub_iff split: sum.splits option.splits fault.splits)
qed

lemma resolve_steps:
  assumes "resolve_begin i (sv_center s) now d = (Inr (Query q), dc)" and "relay_begin dc q = Inr srv"
    and "ask srv q = Some (Inr data)" and "parse_dns_response data = Inr ips"
  shows "\<exists>dc'. DnsCenter_resolve ask i now later d (sv_center s) = Some (Inr ips, dc') \<and>
    sv_center (name_end show_ip (length (sv_tasks s)) later d q (Inr data) (name_begin i now d s)) = dc' \<and>
    sv_resolved (name_end show_ip (length (sv_tasks s)) later d q (Inr data) (name_begin i now d s)) =
      sv_resolved s @ [(d, Inr ips)]"
  using assms
  by (simp add: DnsCenter_resolve_def DnsCenter_relay_def name_begin_def name_end_def relay_end_def resolve_end_def
      Let_def async_bind_def)

section \<open>Properties\<close>

text \<open>C14: whatever datagrams arrive, however the calls, answers and sweeps interleave, in every state the
  running DNS center reaches: the addresses a call of resolve has returned for a name are those of a valid
  response that the server its rules choose for that name gave to the query for it; every datagram sent is
  such a response to a query that came from the endpoint it goes to, unchanged; and no coroutine has run
  into undefined behaviour, as long as no server call does.\<close>

theorem dns_service_sound:
  assumes "service_reachable show_ip ms lib arrives answers
      (start_service ms lib (DnsCenter_new ep rs servers final)) s"
    and "\<And>srv q r. answers srv q r \<Longrightarrow> no_ub r"
  shows "(\<forall>d r. (d, r) \<in> set (sv_resolved s) \<longrightarrow> no_ub r \<and>
            (\<forall>ips. r = Inr ips \<longrightarrow> name_origin (DnsCenter_new ep rs servers final) answers d ips)) \<and>
         (\<forall>c out. dc_client (sv_center s) = Some c \<longrightarrow> out \<in> set (uc_sent c) \<longrightarrow>
            client_answer (DnsCenter_new ep rs servers final) arrives answers out) \<and>
         (\<forall>r. Ended_With r \<in> set (sv_tasks s) \<longrightarrow> no_ub r)"
proof -
  let ?dc = "DnsCenter_new ep rs servers final"
  have inv: "service_inv ?dc arrives answers s"
    using assms(2) by (rule inv_reachable [OF assms(1) inv_start])
  then have "resolved_ok ?dc answers (d, r)" if "(d, r) \<in> set (sv_resolved s)" for d r
    using that by (auto simp: service_inv_def list_all_iff)
  moreover have "client_answer ?dc arrives answers out" if "dc_client (sv_center s) = Some c" "out \<in> set (uc_sent c)" for c out
    using inv that by (auto simp: service_inv_def client_ok_def list_all_iff)
  moreover have "no_ub r" if "Ended_With r \<in> set (sv_tasks s)" for r
    using inv that by (auto simp: service_inv_def list_all_iff)
  ultimately show ?thesis unfolding resolved_ok_def by simp
qed

text \<open>A run: a client's query arrives, the main loop takes it, and the second server answers.\<close>

definition service_center :: "nat dns_center" where
  "service_center = DnsCenter_new (Some \<lparr>ep_address = IpV4 127 0 0 1, ep_port = 53\<rparr>) (dc_rules sample_center)
     (dc_servers sample_center) (dc_final sample_center)"

definition quiet_messages :: messages where
  "quiet_messages = \<lparr>code_message = (\<lambda>c. []), exn_what = (\<lambda>e. [])\<rparr>"

definition client_at :: endpoint where
  "client_at = \<lparr>ep_address = IpV4 10 0 0 2, ep_port = 5353\<rparr>"

definition client_session :: udp_session where
  "client_session = \<lparr>us_endpoint = client_at, us_data = sample_query\<rparr>"

definition served_client :: udp_client where
  "served_client = service_receive quiet_messages client_at sample_query
     (UdpClient_new (dc_endpoint service_center)\<lparr>uc_socket := Udp_Bound \<lparr>ep_address = IpV4 127 0 0 1, ep_port = 53\<rparr>\<rparr>)"

definition served :: "nat dns_service" where
  "served = client_end (\<lambda>ip. []) quiet_messages open_udp 0 client_session (Inr sample_answer)
     (client_begin quiet_messages client_session (set_client (snd (UdpClient_session served_client))
       (set_client served_client (start_service quiet_messages open_udp service_center))))"

lemma served_reachable:
  "service_reachable (\<lambda>ip. []) quiet_messages open_udp (\<lambda>e d. e = client_at \<and> d = sample_query)
     (\<lambda>srv q r. srv = 1 \<and> r = Inr sample_answer) (start_service quiet_messages open_udp service_center) served"
proof -
  let ?s0 = "start_service quiet_messages open_udp service_center"
  let ?s1 = "set_client served_client ?s0"
  let ?s2 = "client_begin quiet_messages client_session (set_client (snd (UdpClient_session served_client)) ?s1)"
  let ?step = "service_step (\<lambda>ip. []) quiet_messages open_udp (\<lambda>e d. e = client_at \<and> d = sample_query)
     (\<lambda>srv q r. srv = (1::nat) \<and> r = Inr sample_answer)"
  have "?step ?s0 ?s1"
    unfolding served_client_def
    by (rule service_step.datagram)
      (simp_all add: start_service_def DnsCenter_mainWork_start_def service_center_def DnsCenter_new_def
        UdpClient_start_def UdpClient_new_def open_udp_def check_call_def)
  moreover have "?step ?s1 ?s2"
  proof (rule service_step.main_get)
    show "sv_main ?s1 = In_Loop" "dc_client (sv_center ?s1) = Some served_client"
      by (simp_all add: set_client_def start_service_def DnsCenter_mainWork_start_def service_center_def DnsCenter_new_def
        UdpClient_start_def UdpClient_new_def open_udp_def check_call_def)
    have "fst (UdpClient_session served_client) = Got client_session" by code_simp
    then show "UdpClient_session served_client = (Got client_session, snd (UdpClient_session served_client))"
      by (metis prod.collapse)
  qed
  moreover have "sv_tasks ?s2 = [Asking_Client client_session 1]" by code_simp
  then have "?step ?s2 served"
    unfolding served_def by (intro service_step.client_answered) simp_all
  ultimately show ?thesis by (meson service_reachable.intros)
qed

theorem dns_service_sound_witness:
  "\<exists>c. dc_client (sv_center served) = Some c \<and> uc_sent c = [client_session\<lparr>us_data := sample_answer\<rparr>] \<and>
     client_answer service_center (\<lambda>e d. e = client_at \<and> d = sample_query) (\<lambda>srv q r. srv = 1 \<and> r = Inr sample_answer)
       (client_session\<lparr>us_data := sample_answer\<rparr>)"
proof -
  have "map_option uc_sent (dc_client (sv_center served)) = Some [client_session\<lparr>us_data := sample_answer\<rparr>]"
    by code_simp
  then obtain c where c: "dc_client (sv_center served) = Some c" "uc_sent c = [client_session\<lparr>us_data := sample_answer\<rparr>]"
    by auto
  have "no_ub r" if "srv = (1::nat) \<and> r = Inr sample_answer" for srv and r :: "bytes result" using that by simp
  from dns_service_sound [OF served_reachable [unfolded service_center_def] this]
  show ?thesis using c by (simp add: service_center_def)
qed

end
