(* ===== verification/Proxy_Program.thy ===== *)
theory Proxy_Program
  imports Proxy_Live Tcp_Client Dns_Service
begin

text \<open>
  The program as a whole: the running proxy of \<^verbatim>\<open>Proxy\<close> and the running DNS center of \<^verbatim>\<open>Dns_Service\<close> in one state,
  as \<^verbatim>\<open>App::run\<close> starts them. What is open in the two is closed here: a transport's \<^verbatim>\<open>connect_address\<close> is
  \<^verbatim>\<open>Tcp_Client\<close>'s, on what calls of the center's \<^verbatim>\<open>resolve\<close> have returned, and a server of the center answers as
  \<^verbatim>\<open>Dns_Servers\<close> has it. Every step is one of the two parts, so that what holds of each alone holds of the
  program; and the addresses that sessions are connected to can be followed back to the DNS servers.
\<close>

section \<open>The program's surroundings\<close>

text \<open>
  The library beside the connections: what the handshakes of a transport come to (a \<open>client_lib\<close>, whose \<open>dial\<close> is not
  used), the UDP sockets and the datagrams that may arrive at the center's, what an HTTPS server's stream comes to
  (likewise without \<open>hs_connect\<close>), and the streams on a connected socket.
\<close>

record ('c, 's, 'w, 'h, 't) environment =
  en_su :: "('c, 's, 'w) surroundings"
  en_arrives :: "'c \<Rightarrow> bool"
  en_transport :: "('s, 'w) client_lib \<Rightarrow> bool"
  en_stream :: "endpoint \<times> 'h \<Rightarrow> 's"
  en_udp :: udp_lib
  en_datagram :: "endpoint \<Rightarrow> bytes \<Rightarrow> bool"
  en_https :: "'t https_lib \<Rightarrow> bool"
  en_tls :: "endpoint \<times> 'h \<Rightarrow> 't"

text \<open>\<^verbatim>\<open>connect_address\<close> with the stream a transport makes of the socket, and \<^verbatim>\<open>connect_ip\<close> for a DNS server.\<close>

definition tcp_dial ::
  "messages \<Rightarrow> (endpoint \<Rightarrow> exn + 'h) \<Rightarrow> (string \<Rightarrow> ip_address list awaited) \<Rightarrow> (nat \<times> (exn + 'h)) list \<Rightarrow>
   (endpoint \<times> 'h \<Rightarrow> 's) \<Rightarrow> address \<Rightarrow> 's awaited" where
  "tcp_dial ms async_connect resolve events stream a =
     async_bind (connect_address ms async_connect resolve events a) (\<lambda>socket. Some (Inr (stream socket)))"

definition https_dial :: "(endpoint \<Rightarrow> exn + 'h) \<Rightarrow> (endpoint \<times> 'h \<Rightarrow> 't) \<Rightarrow> endpoint \<Rightarrow> 't awaited" where
  "https_dial async_connect stream ep =
     Some (bind_res (connect_ip async_connect (ep_address ep) (ep_port ep)) (\<lambda>socket. Inr (stream socket)))"

text \<open>How the library may answer a transport: \<open>resolved\<close> are the results that calls of \<^verbatim>\<open>resolve\<close> have had.\<close>

definition connecting ::
  "('c, 's, 'w, 'h, 't) environment \<Rightarrow> (string \<times> ip_address list result) list \<Rightarrow> ('s, 'w) client_lib \<Rightarrow> bool" where
  "connecting en resolved lib \<longleftrightarrow>
     (\<exists>lib0 async_connect resolve events. en_transport en lib0 \<and>
        (\<forall>d r. resolve d = Some r \<longrightarrow> (d, r) \<in> set resolved) \<and>
        lib = lib0\<lparr>dial := tcp_dial (su_messages (en_su en)) async_connect resolve events (en_stream en)\<rparr>)"

text \<open>What a server of the center may answer to a query.\<close>

definition server_answers :: "('c, 's, 'w, 'h, 't) environment \<Rightarrow> dns_server \<Rightarrow> bytes \<Rightarrow> bytes result \<Rightarrow> bool" where
  "server_answers en srv q r \<longleftrightarrow>
     (\<exists>ul events hl async_connect. en_https en hl \<and>
        DnsServer_relay (su_messages (en_su en)) ul events (hl\<lparr>hs_connect := https_dial async_connect (en_tls en)\<rparr>) srv q = Some r)"

section \<open>Steps\<close>

record ('c, 's, 'w) program =
  pg_proxy :: "('c, ('s, 'w) conn_object) proxy"
  pg_dns :: "dns_server dns_service"

definition start_program ::
  "('c, 's, 'w, 'h, 't) environment \<Rightarrow> dns_server dns_center \<Rightarrow> app \<Rightarrow> ('c, 's, 'w) program" where
  "start_program en dc app =
     \<lparr>pg_proxy = start_proxy app, pg_dns = start_service (su_messages (en_su en)) (en_udp en) dc\<rparr>"

inductive program_step ::
  "('c, 's, 'w, 'h, 't) environment \<Rightarrow> ('c, 's, 'w) program \<Rightarrow> ('c, 's, 'w) program \<Rightarrow> bool" for en where
  proxy: "proxy_step (en_su en) (en_arrives en) (connecting en (sv_resolved (pg_dns p))) (pg_proxy p) q \<Longrightarrow>
    program_step en p (p\<lparr>pg_proxy := q\<rparr>)"
| dns: "service_step (su_show_ip (en_su en)) (su_messages (en_su en)) (en_udp en) (en_datagram en) (server_answers en) (pg_dns p) s \<Longrightarrow>
    program_step en p (p\<lparr>pg_dns := s\<rparr>)"

inductive program_reachable ::
  "('c, 's, 'w, 'h, 't) environment \<Rightarrow> dns_server dns_center \<Rightarrow> app \<Rightarrow> ('c, 's, 'w) program \<Rightarrow> bool" for en dc app where
  start: "program_reachable en dc app (start_program en dc app)"
| step: "program_reachable en dc app p \<Longrightarrow> program_step en p p' \<Longrightarrow> program_reachable en dc app p'"

section \<open>Its parts\<close>

abbreviation dns_reachable ::
  "('c, 's, 'w, 'h, 't) environment \<Rightarrow> dns_server dns_center \<Rightarrow> dns_server dns_service \<Rightarrow> bool" where
  "dns_reachable en dc \<equiv>
     service_reachable (su_show_ip (en_su en)) (su_messages (en_su en)) (en_udp en) (en_datagram en) (server_answers en)
       (start_service (su_messages (en_su en)) (en_udp en) dc)"

text \<open>The answers a transport may get at any time.\<close>

definition may_connect :: "('c, 's, 'w, 'h, 't) environment \<Rightarrow> dns_server dns_center \<Rightarrow> ('s, 'w) client_lib \<Rightarrow> bool" where
  "may_connect en dc lib \<longleftrightarrow> (\<exists>s. dns_reachable en dc s \<and> connecting en (sv_resolved s) lib)"

lemma proxy_step_mono:
  assumes "\<And>lib. answering lib \<Longrightarrow> answering' lib"
  shows "proxy_step su arrives answering p p' \<Longrightarrow> proxy_step su arrives answering' p p'"
  by (induction rule: proxy_step.induct) (auto intro: proxy_step.intros assms)

lemma program_parts:
  "program_reachable en dc app p \<Longrightarrow>
   proxy_reachable (en_su en) (en_arrives en) (may_connect en dc) app (pg_proxy p) \<and> dns_reachable en dc (pg_dns p)"
proof (induction rule: program_reachable.induct)
  case start
  show ?case by (simp add: start_program_def proxy_reachable.start service_reachable.start)
next
  case (step p p')
  from step.hyps(2) show ?case
  proof cases
    case (proxy q)
    have "proxy_step (en_su en) (en_arrives en) (may_connect en dc) (pg_proxy p) q"
      using step.IH by (intro proxy_step_mono [OF _ proxy(2)]) (auto simp: may_connect_def)
    then show ?thesis using proxy(1) step.IH by (auto intro: proxy_reachable.step)
  next
    case (dns s)
    then show ?thesis using step.IH by (auto intro: service_reachable.step)
  qed
qed

text \<open>A server of the center answers without undefined behaviour if the library's HTTPS stream does.\<close>

definition https_defined :: "'t https_lib \<Rightarrow> bool" where
  "https_defined hl \<longleftrightarrow>
     (\<forall>ctx s r. hs_handshake hl ctx s = Some r \<longrightarrow> no_ub r) \<and> (\<forall>rq s r. hs_write hl rq s = Some r \<longrightarrow> no_ub r) \<and>
     (\<forall>s r. hs_read_body hl s = Some r \<longrightarrow> no_ub r)"

lemma no_ub_https_relay:
  assumes "HttpsDnsServer_relay (hl\<lparr>hs_connect := https_dial async_connect stream\<rparr>) s data = Some r" and "https_defined hl"
  shows "no_ub r"
proof -
  have "no_ub r" if "https_dial async_connect stream ep = Some r" for ep and r :: "'a result"
    using that by (auto simp: https_dial_def intro!: no_ub_bind connect_ip_no_ub)
  then show ?thesis
    using assms unfolding HttpsDnsServer_relay_def https_defined_def
    by (auto elim!: no_ub_async_bind split: option.splits)
qed

lemma server_answers_no_ub:
  assumes "server_answers en srv q r" and "\<And>hl. en_https en hl \<Longrightarrow> https_defined hl"
  shows "no_ub r"
  using assms by (cases srv) (auto simp: server_answers_def intro: no_ub_udp_relay no_ub_https_relay)

lemma prepared_center:
  assumes "App_prepare lib c = Inr (dc, app)"
  obtains ep rs servers final where "dc = DnsCenter_new ep rs servers final"
  using assms by (auto simp: App_prepare_def buildDnsCenter_def bind_res_eq_Inr Let_def split: if_splits)

lemma center_inv:
  assumes "App_prepare lib c = Inr (dc, app)" and "\<And>hl. en_https en hl \<Longrightarrow> https_defined hl" and "dns_reachable en dc s"
  shows "service_inv dc (en_datagram en) (server_answers en) s"
proof -
  obtain ep rs servers final where dc: "dc = DnsCenter_new ep rs servers final" by (rule prepared_center [OF assms(1)])
  show ?thesis by (rule inv_reachable [OF assms(3)]) (auto simp: dc intro: inv_start server_answers_no_ub [OF _ assms(2)])
qed

text \<open>What the running center's \<^verbatim>\<open>resolve\<close> has returned.\<close>

lemma resolved_origin:
  assumes "App_prepare lib c = Inr (dc, app)" and "\<And>hl. en_https en hl \<Longrightarrow> https_defined hl" and "dns_reachable en dc s"
    and "(d, r) \<in> set (sv_resolved s)"
  shows "no_ub r \<and> (\<forall>ips. r = Inr ips \<longrightarrow> name_origin dc (server_answers en) d ips)"
proof -
  have "service_inv dc (en_datagram en) (server_answers en) s" by (rule center_inv [OF assms(1-3)])
  then show ?thesis using assms(4) by (auto simp: service_inv_def list_all_iff resolved_ok_def)
qed

section \<open>Where a session's bytes go\<close>

text \<open>The address an outbound connects to for a session, and what it means to be connected to it.\<close>

fun outbound_dials :: "outbound_obj \<Rightarrow> out_tcp_session \<Rightarrow> address" where
  "outbound_dials Direct_Outbound os = out_address os"
| "outbound_dials (Vless_Outbound tr server uuid) os = server"

definition endpoint_of ::
  "('c, 's, 'w, 'h, 't) environment \<Rightarrow> dns_server dns_center \<Rightarrow> address \<Rightarrow> endpoint \<Rightarrow> bool" where
  "endpoint_of en dc a ep \<longleftrightarrow> ep_port ep = addr_port a \<and>
     (case addr_host a of
        Ip v \<Rightarrow> ep_address ep = v
      | Domain d \<Rightarrow> \<exists>ips. name_origin dc (server_answers en) d ips \<and> ep_address ep \<in> set ips)"

lemma transport_dials:
  assumes "outbound_transport lib ob os = Some (Inr c)"
  obtains s where "dial lib (outbound_dials ob os) = Some (Inr s)"
    and "outbound_transport (lib\<lparr>dial := \<lambda>a. Some (Inr s)\<rparr>) ob os = Some (Inr c)"
proof (cases ob)
  case Direct_Outbound
  then show thesis using assms that by (auto simp: TcpTransport_connect_def async_bind_eq_Inr)
next
  case (Vless_Outbound tr server uuid)
  then show thesis
    using assms that
    by (cases tr)
      (auto simp: TcpTransport_connect_def TlsTransport_connect_def WssTransport_connect_def async_bind_eq_Inr cong: option.case_cong)
qed

lemma connecting_endpoint:
  assumes "App_prepare lib c = Inr (dc, app)" and "\<And>hl. en_https en hl \<Longrightarrow> https_defined hl"
    and "may_connect en dc lb" and "outbound_transport lb ob os = Some (Inr srv)"
  shows "\<exists>lb0 ep h. en_transport en lb0 \<and> endpoint_of en dc (outbound_dials ob os) ep \<and>
    outbound_transport (lb0\<lparr>dial := \<lambda>a. Some (Inr (en_stream en (ep, h)))\<rparr>) ob os = Some (Inr srv)"
proof -
  let ?a = "outbound_dials ob os"
  obtain s where s: "dial lb ?a = Some (Inr s)" "outbound_transport (lb\<lparr>dial := \<lambda>a. Some (Inr s)\<rparr>) ob os = Some (Inr srv)"
    by (rule transport_dials [OF assms(4)])
  obtain sv lb0 ac resolve events where l: "dns_reachable en dc sv" "en_transport en lb0"
    "\<forall>d r. resolve d = Some r \<longrightarrow> (d, r) \<in> set (sv_resolved sv)"
    "lb = lb0\<lparr>dial := tcp_dial (su_messages (en_su en)) ac resolve events (en_stream en)\<rparr>"
    using assms(3) by (auto simp: may_connect_def connecting_def)
  then obtain ep h where e: "connect_address (su_messages (en_su en)) ac resolve events ?a = Some (Inr (ep, h))"
    "s = en_stream en (ep, h)"
    using s(1) by (auto simp: tcp_dial_def async_bind_eq_Inr)
  have "endpoint_of en dc ?a ep"
    using connect_address_endpoint [OF e(1)] l(3) resolved_origin [OF assms(1,2) l(1)]
    by (fastforce simp: endpoint_of_def split: host.splits)
  then show ?thesis
    using s(2) l(2) unfolding l(4) e(2) by (intro exI [of _ lb0] exI [of _ ep] exI [of _ h]) simp
qed

text \<open>A transport has no undefined behaviour of its own.\<close>

definition transport_defined :: "('s, 'w) client_lib \<Rightarrow> bool" where
  "transport_defined lib \<longleftrightarrow>
     (\<forall>ctx s r. tls_handshake lib ctx s = Some r \<longrightarrow> no_ub r) \<and> (\<forall>h p w r. ws_handshake lib h p w = Some r \<longrightarrow> no_ub r)"

lemma transport_no_ub:
  assumes "transport_defined lib" and "\<And>a r. dial lib a = Some r \<Longrightarrow> no_ub r"
    and "outbound_transport lib ob os = Some r"
  shows "no_ub r"
proof -
  have "no_ub r" if "Transport_connect lib tr a = Some r" for tr a
    using that assms(1) unfolding transport_defined_def
    by (cases tr) (auto simp: TcpTransport_connect_def TlsTransport_connect_def WssTransport_connect_def
        elim!: no_ub_async_bind intro: assms(2) split: option.splits)
  then show ?thesis
    using assms(3) by (cases ob) (auto simp: TcpTransport_connect_def elim!: no_ub_async_bind intro: assms(2))
qed

lemma may_connect_no_ub:
  assumes "App_prepare lib c = Inr (dc, app)" and "\<And>hl. en_https en hl \<Longrightarrow> https_defined hl"
    and "\<And>lb. en_transport en lb \<Longrightarrow> transport_defined lb"
    and "may_connect en dc lb" and "outbound_transport lb ob os = Some r"
  shows "no_ub r"
proof (rule transport_no_ub [OF _ _ assms(5)])
  obtain sv lb0 ac resolve events where l: "dns_reachable en dc sv" "en_transport en lb0"
    "\<forall>d r. resolve d = Some r \<longrightarrow> (d, r) \<in> set (sv_resolved sv)"
    "lb = lb0\<lparr>dial := tcp_dial (su_messages (en_su en)) ac resolve events (en_stream en)\<rparr>"
    using assms(4) by (auto simp: may_connect_def connecting_def)
  then show "transport_defined lb" using assms(3) [OF l(2)] by (simp add: transport_defined_def)
  have "no_ub r" if "resolve d = Some r" for d r
    using resolved_origin [OF assms(1,2) l(1)] l(3) that by blast
  then show "no_ub r" if "dial lb a = Some r" for a r
    using that by (auto simp: l(4) tcp_dial_def elim!: no_ub_async_bind connect_address_no_ub)
qed

section \<open>A sample run\<close>

text \<open>A SOCKS5 client asks for \<^verbatim>\<open>a.io:80\<close>; the only DNS server is asked over UDP and answers with \<^verbatim>\<open>1.2.3.4\<close>.\<close>

definition local_resolver :: endpoint where
  "local_resolver = \<lparr>ep_address = IpV4 127 0 0 1, ep_port = 53\<rparr>"

definition named_config :: app_config where
  "named_config = ruled_config\<lparr>ap_dns :=
     \<lparr>dn_listen = [], dn_listen_port = 0,
      dn_servers = [\<lparr>ds_tag = ''u'', ds_type = ''udp'', ds_server = ''127.0.0.1'', ds_server_port = 53, ds_host = [], ds_path = [],
        ds_tls = \<lparr>tc_enabled = False, tc_insecure = False, tc_serverName = []\<rparr>\<rparr>],
      dn_rules = [], dn_final = ''u''\<rparr>\<rparr>"

definition named_center :: "dns_server dns_center" where
  "named_center = DnsCenter_new None [] [(''u'', Udp_Dns_Server local_resolver)] ''u''"

lemma named_prepared: "App_prepare sample_lib named_config = Inr (named_center, ruled_app)"
proof -
  let ?b = "ruled_builder\<lparr>bd_config := named_config\<rparr>"
  have b: "Builder_new sample_lib named_config = Inr ?b"
    using ruled_set by (simp add: Builder_new_def ruled_builder_def named_config_def ruled_config_def umap_assign_def)
  have d: "buildDnsCenter sample_lib ?b = Inr named_center"
    by (simp add: buildDnsCenter_def named_config_def named_center_def buildDnsServer_def make_address_throw_def sample_lib_def
        local_resolver_def umap_emplace_def Let_def)
  have "buildRouter sample_lib ?b = buildRouter sample_lib ruled_builder"
    by (rule buildRouter_cong) (simp_all add: named_config_def ruled_builder_def)
  then have r: "buildRouter sample_lib ?b = Inr ruled_router" by (simp only: ruled_router_built)
  have "build_outbounds sample_lib (ap_outbounds named_config) [] = Inr [(''d'', Some Direct_Outbound)]"
    by (simp add: named_config_def ruled_config_def direct_config_def buildOutbound_def buildTransport_def umap_assign_def)
  then show ?thesis by (simp add: App_prepare_def b r d ruled_app_def)
qed

definition named_client :: script where
  "named_client = \<lparr>script_in = [[5, 1, 0], [5, 1, 0, 3, 4, 0x61, 0x2E, 0x69, 0x6F, 0, 80], [9], [8]], script_out = [], script_eof = True\<rparr>"

definition named_target :: address where
  "named_target = \<lparr>addr_host = Domain ''a.io'', addr_port = 80\<rparr>"

definition named_stream :: script where
  "named_stream = \<lparr>script_in = [[7], [6]], script_out = [], script_eof = True\<rparr>"

definition silent_https :: "unit https_lib" where
  "silent_https =
     \<lparr>hs_connect = (\<lambda>ep. None), hs_hostname = (\<lambda>name. Some), hs_handshake = (\<lambda>ctx s. None), hs_write = (\<lambda>rq s. None),
      hs_read_body = (\<lambda>s. None)\<rparr>"

definition named_environment :: "(script, script, ws_script, script, unit) environment" where
  "named_environment =
     \<lparr>en_su = direct_surroundings, en_arrives = (\<lambda>c. c = named_client), en_transport = (\<lambda>lb. lb = direct_client_lib),
      en_stream = snd, en_udp = open_udp, en_datagram = (\<lambda>e d. False), en_https = (\<lambda>hl. hl = silent_https), en_tls = (\<lambda>s. ())\<rparr>"

definition named_lib :: "(script, ws_script) client_lib" where
  "named_lib = direct_client_lib\<lparr>dial := tcp_dial quiet (\<lambda>ep. Inr named_stream) [''a.io'' \<mapsto> Inr [IpV4 1 2 3 4]]
     [(0, Inr named_stream)] snd\<rparr>"

definition named_dns :: "dns_server dns_service" where
  "named_dns = name_end (\<lambda>ip. ''ip'') 0 1 ''a.io'' sample_query (Inr sample_answer)
     (name_begin 7 0 ''a.io'' (start_service quiet open_udp named_center))"

definition named_arrived :: "(script, (script, ws_script) conn_object) proxy" where
  "named_arrived =
     \<lparr>px_system = sys_accept (\<lambda>ip. ''ip'') quiet
        \<lparr>in_conn = asked_client, in_address = named_target, in_firstData = [9, 8]\<rparr> (start_system ruled_app),
      px_clients = [named_client], px_servers = [None]\<rparr>"

definition named_program :: "(script, script, ws_script) program" where
  "named_program =
     \<lparr>pg_proxy = named_arrived
        \<lparr>px_system := sys_connected quiet 0 asked_client (Inr sent_server) (px_system named_arrived),
         px_servers := [Some (Tcp_Conn named_stream)]\<rparr>,
      pg_dns = named_dns\<rparr>"

lemma named_client_session:
  "MixedInbound_handle host_only (\<lambda>s. None) (TcpConnection script_lib) [] named_client =
     Some (Inr (Accepted named_target [9, 8]), asked_client)"
  by code_simp

lemma named_resolved:
  "sv_resolved named_dns = [(''a.io'', Inr [IpV4 1 2 3 4])]"
  "sv_tasks (name_begin 7 0 ''a.io'' (start_service quiet open_udp named_center)) =
     [Asking_Name ''a.io'' sample_query (Udp_Dns_Server local_resolver)]"
  by code_simp+

lemma named_dialled:
  "tcp_dial quiet (\<lambda>ep. Inr named_stream) [''a.io'' \<mapsto> Inr [IpV4 1 2 3 4]] [(0, Inr named_stream)] snd named_target =
     Some (Inr named_stream)"
  by code_simp

lemma named_server_answers: "server_answers named_environment (Udp_Dns_Server local_resolver) sample_query (Inr sample_answer)"
proof -
  have relay: "UdpDnsServer_relay quiet open_udp local_resolver [Datagram local_resolver sample_answer] sample_query =
      Some (Inr sample_answer)"
    by (subst udp_relay_returns_first_datagram) (simp_all add: open_udp_def udp_buffer_size_def sample_answer_def)
  show ?thesis
    unfolding server_answers_def named_environment_def
    by (intro exI [of _ open_udp] exI [of _ "\<lambda>ep. [Datagram local_resolver sample_answer]"] exI [of _ silent_https]
        exI [of _ "\<lambda>ep. Inr named_stream"]) (simp add: relay direct_surroundings_def)
qed

lemma named_dns_reachable: "dns_reachable named_environment named_center named_dns"
proof -
  let ?step = "service_step (su_show_ip (en_su named_environment)) (su_messages (en_su named_environment)) (en_udp named_environment)
    (en_datagram named_environment) (server_answers named_environment)"
  let ?s0 = "start_service quiet open_udp named_center"
  have one: "?step ?s0 (name_begin 7 0 ''a.io'' ?s0)" by (rule service_step.name_called)
  have asking: "0 < length (sv_tasks (name_begin 7 0 ''a.io'' ?s0))"
    "sv_tasks (name_begin 7 0 ''a.io'' ?s0) ! 0 = Asking_Name ''a.io'' sample_query (Udp_Dns_Server local_resolver)"
    by (simp_all add: named_resolved)
  have two: "?step (name_begin 7 0 ''a.io'' ?s0) named_dns"
    using service_step.name_answered [where answers = "server_answers named_environment" and i = 0 and now = 1 and s = "name_begin 7 0 ''a.io'' ?s0", OF asking named_server_answers,
      of "\<lambda>ip. ''ip''" quiet open_udp "\<lambda>e d. False"]
    by (simp add: named_dns_def named_environment_def direct_surroundings_def)
  show ?thesis
    using service_reachable.step [OF service_reachable.step [OF service_reachable.start one] two]
    by (simp add: named_environment_def direct_surroundings_def)
qed

lemma named_arrived_stage:
  "sys_stages (px_system named_arrived) =
     [stage.Connecting asked_client Direct_Outbound \<lparr>out_address = named_target, out_firstData = [9, 8]\<rparr>]"
proof -
  have "sniffDomain [9, 8] = Inr []" by (simp add: sniffDomain_def)
  then show ?thesis
    by (simp add: named_arrived_def sys_accept_def start_system_def Let_def ruled_app_def
        App_handleSession_eq [OF _ _ wf_ruled_router] route_tag_d App_connect_found umap_find_def destination_def)
qed

lemma named_running:
  "0 < px_size (pg_proxy named_program)"
  "px_stage (pg_proxy named_program) 0 = Running asked_client sent_server start_relay False"
  by (simp_all add: px_defs named_program_def sys_connected_def App_connected_def named_arrived_stage)

lemma named_connect:
  "Outbound_connect named_lib (su_server direct_surroundings) Direct_Outbound
     \<lparr>out_address = named_target, out_firstData = [9, 8]\<rparr> = Some (Inr sent_server)"
  "outbound_transport named_lib Direct_Outbound \<lparr>out_address = named_target, out_firstData = [9, 8]\<rparr> =
     Some (Inr (Tcp_Conn named_stream))"
  by (simp_all add: direct_surroundings_def DirectOutbound_connect_def TcpTransport_connect_def named_lib_def named_dialled
      run_on_def io_in_def TcpConnection_def TcpConnection_write_def script_conn_lib_def stream_lib.truncate_def script_lib_def
      sent_server_def) (simp_all add: named_stream_def)

lemma named_reachable: "program_reachable named_environment named_center ruled_app named_program"
proof -
  let ?p = "\<lambda>q s. \<lparr>pg_proxy = q, pg_dns = s\<rparr> :: (script, script, ws_script) program"
  have dns: "program_reachable named_environment named_center ruled_app (?p (start_proxy ruled_app) s)"
    if "dns_reachable named_environment named_center s" for s
    using that
  proof (induction rule: service_reachable.induct)
    case start
    show ?case using program_reachable.start [of named_environment named_center ruled_app] by (simp add: start_program_def)
  next
    case (step s s')
    from program_step.dns [of named_environment "?p (start_proxy ruled_app) s" s'] step show ?case
      by (auto intro: program_reachable.step)
  qed
  have "MixedInbound_handle (su_parse_uri (en_su named_environment)) (su_make_address (en_su named_environment))
      (su_client (en_su named_environment)) [] named_client = Some (Inr (Accepted named_target [9, 8]), asked_client)"
    using named_client_session by (simp add: named_environment_def direct_surroundings_def)
  from proxy_step.accept [of "en_arrives named_environment", OF _ this, where p = "start_proxy ruled_app"]
  have one: "proxy_step (en_su named_environment) (en_arrives named_environment) answering (start_proxy ruled_app) named_arrived"
    for answering
    by (simp add: start_proxy_def named_arrived_def named_environment_def direct_surroundings_def)
  have stage: "0 < px_size named_arrived"
    "px_stage named_arrived 0 = stage.Connecting asked_client Direct_Outbound \<lparr>out_address = named_target, out_firstData = [9, 8]\<rparr>"
    by (simp_all add: px_defs named_arrived_stage)
  have "connecting named_environment (sv_resolved named_dns) named_lib"
    unfolding connecting_def
    by (intro exI [of _ direct_client_lib] exI [of _ "\<lambda>ep. Inr named_stream"]
        exI [of _ "[''a.io'' \<mapsto> Inr [IpV4 1 2 3 4]]"] exI [of _ "[(0, Inr named_stream)]"])
      (simp add: named_environment_def named_lib_def direct_surroundings_def named_resolved)
  from proxy_step.connected [where answering = "connecting named_environment (sv_resolved named_dns)" and su = "en_su named_environment",
      OF stage this, of "Inr sent_server" "en_arrives named_environment"]
  have two: "proxy_step (en_su named_environment) (en_arrives named_environment) (connecting named_environment (sv_resolved named_dns))
      named_arrived (pg_proxy named_program)"
    using named_connect by (simp add: named_environment_def direct_surroundings_def reached_def named_program_def named_arrived_def)
  from program_step.proxy [where p = "?p (start_proxy ruled_app) named_dns" and en = named_environment, simplified, OF one]
  have three: "program_step named_environment (?p (start_proxy ruled_app) named_dns) (?p named_arrived named_dns)" .
  from program_step.proxy [where p = "?p named_arrived named_dns" and en = named_environment, simplified, OF two]
  have "program_step named_environment (?p named_arrived named_dns) (?p (pg_proxy named_program) named_dns)" .
  from program_reachable.step [OF program_reachable.step [OF dns [OF named_dns_reachable] three] this]
  show ?thesis by (simp add: named_program_def)
qed

section \<open>Properties\<close>


lemma silent_https_defined: "en_https named_environment hl \<Longrightarrow> https_defined hl"
  by (simp add: named_environment_def https_defined_def silent_https_def)




end
