(* ===== verification/Spec2Isabelle.thy ===== *)
theory Spec2Isabelle
  imports Proxy_Program
begin

text \<open>
  A model of \<^verbatim>\<open>one\<close>, a proxy server in C++23 on Boost.Asio coroutines, and the theorems that make its parts
  correct. File names are relative to \<^verbatim>\<open>src/src/\<close> of the repository.

  \<^bold>\<open>The program.\<close> \<^verbatim>\<open>main.cpp\<close> starts \<^verbatim>\<open>App\<close> with a configuration file. The \<^verbatim>\<open>Builder\<close> turns the parsed
  configuration into a router, outbounds, inbounds and a DNS center. A mixed inbound takes the connections of its
  listener, speaks SOCKS5 or HTTP with the client and puts a session (connection, destination, first data) into its
  queue. \<^verbatim>\<open>App\<close> takes the sessions out, replaces the destination by the TLS server name if the first data shows one,
  asks the router for an outbound, connects through it (directly or by VLESS over a transport) and relays the two
  connections. Domains are resolved by the DNS center: a cache in front of UDP or HTTPS servers chosen by rules.

  \<^bold>\<open>The theories,\<close> in the order of the code they model.
  \<^item> \<^verbatim>\<open>Prelude\<close>: integer types (\<^verbatim>\<open>utils/headers.hpp\<close>), exceptions and undefined behaviour as values
    (\<open>fault\<close>, \<open>'a result\<close>), loops that collect, checked indexing, bytes and characters.
  \<^item> \<^verbatim>\<open>Std_String\<close>, \<^verbatim>\<open>Umap\<close>: what the source uses of \<^verbatim>\<open>std::string\<close> and
    \<^verbatim>\<open>std::unordered_map\<close>; the locale \<open>keyed_map\<close> is the contract of a map that is filled in a loop.
  \<^item> \<^verbatim>\<open>Io\<close>: coroutines on the state of a connection. \<open>None\<close> is a computation that never returns. Loops that
    wait for input are \<open>partial_function\<close>s, so \<open>None\<close> is also a loop without end.
  \<^item> \<^verbatim>\<open>Bytes\<close> (\<^verbatim>\<open>utils/bytes.cpp\<close>), \<^verbatim>\<open>Address\<close> (\<^verbatim>\<open>common/address.*\<close>), \<^verbatim>\<open>Ip_Net\<close>
    (\<^verbatim>\<open>router/ipnet.*\<close>), \<^verbatim>\<open>First_Match\<close> (the contract of an ordered rule table), \<^verbatim>\<open>Router\<close>
    (\<^verbatim>\<open>router/rule.*\<close>, \<^verbatim>\<open>router/router.*\<close>).
  \<^item> \<^verbatim>\<open>Dns_Message\<close>, \<^verbatim>\<open>Dns_Query\<close>, \<^verbatim>\<open>Dns_Response\<close> (\<^verbatim>\<open>dns/message.cpp\<close>): the wire format as
    an abstract syntax with an encoder, the query builder and both parsers compared with it.
  \<^item> \<^verbatim>\<open>Sniff\<close> (\<^verbatim>\<open>sniff/sniff.cpp\<close>): the ClientHello sniffer, compared with an encoder of well-formed hellos.
  \<^item> \<^verbatim>\<open>Dns_Cache\<close>, \<^verbatim>\<open>Dns_Servers\<close>, \<^verbatim>\<open>Dns_Center\<close> (\<^verbatim>\<open>dns/*\<close>), \<^verbatim>\<open>Udp_Client\<close>
    (\<^verbatim>\<open>udp/*\<close>), and \<^verbatim>\<open>Dns_Service\<close>: the coroutines of the center (the main loop, one handler per
    client query, calls of \<^verbatim>\<open>resolve\<close>, the sweep) as steps of one shared state.
  \<^item> \<^verbatim>\<open>Fifo\<close>, \<^verbatim>\<open>Async_Queue\<close> (\<^verbatim>\<open>utils/asyncqueue.hpp\<close>): the queue refines a channel in which
    the k-th get receives the k-th put.
  \<^item> \<^verbatim>\<open>Connection\<close>, \<^verbatim>\<open>Ws_Connection\<close> (\<^verbatim>\<open>connections/*\<close>): the four connection classes over the
    streams of the library; the locales \<open>exact_reader\<close> and \<open>byte_peer\<close> are what the protocol handlers need of a
    connection, proved of each class from the laws of the library's stream (\<open>byte_stream\<close>, \<open>ssl_stream\<close>,
    \<open>message_stream\<close>), which a scripted peer satisfies. The locales \<open>faithful_peer\<close> and \<open>honest_peer\<close> ask for
    less: an operation may fail at any time, but the bytes it returns are the next ones and a failed write has sent a
    beginning of its data; all four classes keep them over streams that may fail (\<open>honest_stream\<close>,
    \<open>honest_messages\<close>). \<^verbatim>\<open>Conn_Object\<close>: the pointers to the base class, with the virtual calls, and the
    contract of a library of all four (\<open>honest_library\<close>).
  \<^item> \<^verbatim>\<open>Socks5\<close>, \<^verbatim>\<open>Http_Inbound\<close>, \<^verbatim>\<open>Mixed_Inbound\<close> (\<^verbatim>\<open>inbounds/*\<close>),
    \<^verbatim>\<open>Listener\<close> (\<^verbatim>\<open>listeners/*\<close>), \<^verbatim>\<open>Log\<close> (\<^verbatim>\<open>utils/log.cpp\<close>).
  \<^item> \<^verbatim>\<open>Tcp_Client\<close> (\<^verbatim>\<open>tcp/tcpclient.cpp\<close>), \<^verbatim>\<open>Relay\<close> (\<^verbatim>\<open>connections/relay.cpp\<close>): several
    coroutines around one timer, as step relations with reachability and invariants; \<^verbatim>\<open>Relay_Io\<close>: the relay on
    its two connections, a refinement of \<^verbatim>\<open>Relay\<close>; the locales \<open>duplex_peer\<close> and \<open>relayed\<close> are what it
    relies on, kept by TCP and TLS connections (a WebSocket that has failed cannot be written to any more).
  \<^item> \<^verbatim>\<open>Tls_Context\<close>, \<^verbatim>\<open>Transport\<close> (\<^verbatim>\<open>transports/*\<close>), \<^verbatim>\<open>Outbound\<close>
    (\<^verbatim>\<open>outbounds/*\<close>).
  \<^item> \<^verbatim>\<open>Json\<close> (\<^verbatim>\<open>utils/json.*\<close>), \<^verbatim>\<open>Config\<close> (\<^verbatim>\<open>config/config.*\<close>), \<^verbatim>\<open>Builder\<close>
    (\<^verbatim>\<open>common/builder.*\<close>, \<^verbatim>\<open>utils/file.cpp\<close>), \<^verbatim>\<open>App\<close> (\<^verbatim>\<open>common/app.*\<close>,
    \<^verbatim>\<open>main.cpp\<close>): the start of the program and the handlers of all sessions as steps of one shared state.
  \<^item> \<^verbatim>\<open>Proxy\<close>: the whole program as one step relation. A client arrives, the inbound talks to it, its
    session is queued, taken out, sniffed, routed, connected and relayed, each piece the definition of the component
    that the code calls there, with the pieces of all sessions interleaved; it refines the steps of \<^verbatim>\<open>App\<close>, in
    which connecting and relaying are left open. \<^verbatim>\<open>Proxy_Service\<close>: what clients and servers see of the running
    proxy over a library that may fail at any time; \<^verbatim>\<open>Proxy_Live\<close>: what they see when nothing fails (locale
    \<open>duplex_library\<close>). \<^verbatim>\<open>Proxy_Program\<close>: the running proxy and the running DNS center in one state. A
    transport connects by the race of \<^verbatim>\<open>Tcp_Client\<close> on what the center has resolved, and the center's servers
    answer as \<^verbatim>\<open>Dns_Servers\<close> has it, so that only the library is left open.
  \<^item> This theory: one session without failures in full, from the client's first byte through route and outbound into
    the relay, for SOCKS5 and for HTTP requests, to the direct server or into the payload of a VLESS request.

  \<^bold>\<open>State and operations.\<close> A class is a record of its fields and its methods are functions on the record; a
  definition has the name of the function it models, prefixed by the class for a method. A coroutine runs without
  interruption between two \<^verbatim>\<open>co_await\<close>s, as the program has one thread. An operation on one connection is an
  \<open>io\<close> computation. Where coroutines share state, the awaited events are explicit: the queue stores its waiters, the
  relay, the race of connection attempts, the DNS center and the application are step relations with their reachable
  states; a handler is cut into the pieces between its awaits, and the pieces of all handlers interleave freely.
  Exceptions are values of \<open>exn\<close>; undefined behaviour is the separate fault \<open>UB\<close>, which no handler catches, so
  safety theorems are statements that it does not occur.

  \<^bold>\<open>What is shown.\<close> Routing, DNS rules: the first rule that matches decides. Wire formats: the DNS response parser
  accepts exactly the encodings of messages and returns exactly their addresses, queries, VLESS requests, UUIDs,
  configurations and integers are read back as written, the sniffer finds the server name of every well-formed
  hello. Memory safety of the parsers on arbitrary bytes, with the exact exceptions where it fails. Queues,
  listeners and inbounds: nothing is lost, duplicated or reordered. The running
  DNS center: every address and every answer comes from the server chosen for the name. The running application: its
  state stays well-formed, which outbound serves a session, with which bytes, and when that is undefined. The running
  proxy: at every moment, whatever fails, each server has been sent a beginning of what the request of one client asks
  for, each client a beginning of the protocol's replies and of what its server answered, no session sees bytes of
  another, and without failures everything arrives. The running program: the socket of a session is connected to the
  address its outbound asks for, a name being one that the chosen DNS server resolved, and there is no undefined
  behaviour but at the faults that the theorems on single components name. The race of connection attempts stops. Where the code does something
  other than it means to, the theorem states what it does.

  \<^bold>\<open>Parameters.\<close> Boost.Asio sockets and acceptors, TLS, WebSocket and HTTP streams, the URL and JSON parsers, IP
  address parsing and printing, regular expressions, the file system, clocks and random ids are arguments of the
  definitions, with documented behaviour as locale assumptions or hypotheses; each is instantiated concretely in the
  witnesses. Sizes (\<^verbatim>\<open>std::size_t\<close>) are natural numbers, as no value the code forms comes near \<open>2 ^ 64\<close>; the
  signed positions of the byte writers and all machine words keep their width.

  \<^bold>\<open>Bounds.\<close> No definition uses fuel. \<open>MixedInbound_mainWork\<close> and \<open>take_sessions\<close> take the number of rounds
  to look at; their theorems hold for every number that covers the accepted connections.

  \<^bold>\<open>Not modelled.\<close> \<^verbatim>\<open>listeners/tls.*\<close> and \<^verbatim>\<open>listeners/wss.*\<close>, which are empty; construction and
  destruction of the library's objects, executors and smart pointers, which carry no logic; exhaustion of memory.
  An exception of a detached coroutine that nothing catches (the session handlers of an inbound) ends that coroutine
  only, as Boost.Asio's \<^verbatim>\<open>detached\<close> ignores it.
\<close>

section \<open>From the client to the outbound\<close>

context byte_peer
begin

text \<open>A connection that opens with 5 and is accepted spoke SOCKS5.\<close>

lemma mixed_handle_socks:
  assumes "live c" and "incoming c = 5 # rest" and "MixedInbound_handle parse_uri mk con users c = Some (Inr (Accepted a d), c')"
  obtains methods rsv where "incoming c = 5 # socks_greeting methods @ socks_request rsv a @ d @ incoming c'"
    and "outgoing c' = outgoing c @ [5, 0] @ socks_reply" and "live c'"
  using MixedInbound_handle_asked [OF assms(1,3)] assms(2) that by (auto simp: client_asked_def socks_asked_def)

text \<open>A connection that opens with anything else spoke HTTP; a request other than CONNECT is forwarded.\<close>

lemma mixed_handle_forward:
  assumes "live c" and "incoming c = fb # bs" and "fb \<noteq> 5"
    and "find_in crlf (string_of_bytes (incoming c)) = Some pos"
    and "request_words (take pos (string_of_bytes (incoming c))) = (m, t, v)" and "m \<noteq> ''CONNECT''"
    and "parse_uri t = Some u" and "drop (pos + 2) (incoming c) \<noteq> []"
  shows "\<exists>d c'. MixedInbound_handle parse_uri mk con users c =
      Some (Inr (Accepted (with_port 80 \<lparr>addr_host = host_of mk (url_host u), addr_port = url_port_number u\<rparr>)
        (bytes_of_string (m @ '' '' @ url_path u @ '' '' @ v @ crlf) @ d)), c') \<and>
    drop (pos + 2) (incoming c) = d @ incoming c' \<and> outgoing c' = outgoing c \<and> live c'"
proof -
  let ?a = "\<lparr>addr_host = host_of mk (url_host u), addr_port = url_port_number u\<rparr>"
  obtain c1 where c1: "conn_read_exactly con 1 c = Some (Inr [fb], c1)" "incoming c1 = bs" "outgoing c1 = outgoing c" "live c1"
    using read_exactly_prefix [OF assms(1), of "[fb]" bs] assms(2) by auto
  have handle: "MixedInbound_handle parse_uri mk con users c = handleHttp parse_uri mk con fb c1"
    using c1(1) assms(3) by (simp add: MixedInbound_handle_def)
  from handleHttp_line [OF c1(4), of fb pos m t v parse_uri u mk] assms(2,4-7) c1(2)
  obtain pre c2 where c2: "handleHttp parse_uri mk con fb c1 = http_forward con ?a m (url_path u) v pre c2"
    "string_of_bytes (drop (pos + 2) (incoming c)) = pre @ string_of_bytes (incoming c2)" "outgoing c2 = outgoing c1" "live c2"
    by (auto simp: Let_def drop_map)
  have "pre @ string_of_bytes (incoming c2) \<noteq> []" using assms(8) unfolding c2(2) [symmetric] by simp
  from http_forward_returns [OF c2(4) this, of ?a m "url_path u" v] obtain d c3 where
    c3: "handleHttp parse_uri mk con fb c1 = Some (Inr (Accepted (with_port 80 ?a)
        (bytes_of_string (m @ '' '' @ url_path u @ '' '' @ v @ crlf) @ bytes_of_string d)), c3)"
      "pre @ string_of_bytes (incoming c2) = d @ string_of_bytes (incoming c3)" "outgoing c3 = outgoing c2" "live c3"
    unfolding c2(1) by blast
  have "bytes_of_string (string_of_bytes (drop (pos + 2) (incoming c))) = bytes_of_string d @ incoming c3"
    unfolding c2(2) c3(2) by simp
  then show ?thesis using handle c3(1,3,4) c2(3) c1(3)
    by (intro exI [of _ "bytes_of_string d"] exI [of _ c3]) (simp only: bytes_of_string_of_bytes simp_thms)
qed

end

text \<open>What a SOCKS5 client sends reaches the outbound: when a connection that opens with 5 became a session and
  the session awaits its outbound, the bytes taken from the client are the version, a greeting, a CONNECT request for
  the session's address, and the first data, which the outbound is given unchanged; everything after it is still to be
  read from the connection the relay gets; the outbound is the one the route table names for the sniffed destination;
  and the client has been sent the two replies of the protocol and nothing else.\<close>

theorem socks_client_reaches_outbound:
  assumes "byte_peer con incoming outgoing live pieces" and "live c" and "incoming c = 5 # rest"
    and "MixedInbound_handle parse_uri mk con [] c = Some (Inr (Accepted a d), c')"
    and "app_router app = Some r" and "wf_router r"
    and "App_handleSession show_ip ms app \<lparr>in_conn = c', in_address = a, in_firstData = d\<rparr> =
      (app', logs, stage.Connecting conn ob os)"
  shows "\<exists>methods rsv name.
    incoming c = 5 # socks_greeting methods @ socks_request rsv a @ out_firstData os @ incoming conn \<and>
    outgoing conn = outgoing c @ [5, 0] @ socks_reply \<and>
    sniffDomain (out_firstData os) = Inr name \<and> out_address os = destination name a \<and>
    umap_find (app_outbounds app) (route_tag r (out_address os)) = Some (Some ob)"
proof -
  obtain methods rsv where m: "incoming c = 5 # socks_greeting methods @ socks_request rsv a @ d @ incoming c'"
    "outgoing c' = outgoing c @ [5, 0] @ socks_reply"
    by (rule byte_peer.mixed_handle_socks [OF assms(1-4)])
  obtain name where "sniffDomain d = Inr name" "conn = c'"
    "os = \<lparr>out_address = destination name a, out_firstData = d\<rparr>"
    "umap_find (app_outbounds app) (route_tag r (out_address os)) = Some (Some ob)"
    using connecting_session [OF assms(7,5,6)] by auto
  then show ?thesis using m by auto
qed

text \<open>A client that asks for \<^verbatim>\<open>1.2.3.4:80\<close> and sends one byte.\<close>

definition socks_connection :: script where
  "socks_connection = \<lparr>script_in = [], script_out = [5, 0] @ socks_reply, script_eof = True\<rparr>"

lemma socks_client_session:
  "MixedInbound_handle host_only (\<lambda>s. None) (TcpConnection script_lib) [] socks_script =
     Some (Inr (Accepted \<lparr>addr_host = Ip (IpV4 1 2 3 4), addr_port = 80\<rparr> [9]), socks_connection)"
  by code_simp

lemma socks_client_stage:
  "App_handleSession (\<lambda>ip. ''ip'') quiet ruled_app
     \<lparr>in_conn = socks_connection, in_address = \<lparr>addr_host = Ip (IpV4 1 2 3 4), addr_port = 80\<rparr>, in_firstData = [9]\<rparr> =
     (ruled_app, route_log (\<lambda>ip. ''ip'') [] \<lparr>addr_host = Ip (IpV4 1 2 3 4), addr_port = 80\<rparr> ''d'',
      stage.Connecting socks_connection Direct_Outbound
        \<lparr>out_address = \<lparr>addr_host = Ip (IpV4 1 2 3 4), addr_port = 80\<rparr>, out_firstData = [9]\<rparr>
        :: (script, nat) stage)"
proof -
  have "sniffDomain [9] = Inr []" by (simp add: sniffDomain_def)
  then show ?thesis
    by (simp add: App_handleSession_eq [OF _ _ wf_ruled_router] ruled_app_def route_tag_d App_connect_found
        umap_find_def Let_def destination_def)
qed

theorem socks_client_reaches_outbound_witness:
  "\<exists>methods rsv. concat (script_in socks_script) =
     5 # socks_greeting methods @ socks_request rsv \<lparr>addr_host = Ip (IpV4 1 2 3 4), addr_port = 80\<rparr> @ [9]"
proof -
  have up: "script_up socks_script" by (simp add: socks_script_def script_up_def)
  have router: "app_router ruled_app = Some ruled_router" by (simp add: ruled_app_def)
  have "concat (script_in socks_script) = 5 # [1, 0, 5, 1, 0, 1, 1, 2, 3, 4, 0, 80, 9]"
    by (simp add: socks_script_def)
  from socks_client_reaches_outbound [OF scripted.tcp_con.byte_peer_axioms up this socks_client_session router
      wf_ruled_router socks_client_stage]
  show ?thesis by (auto simp: socks_connection_def)
qed

section \<open>Through the relay\<close>

text \<open>What the relay has moved, and what the direct outbound has done before.\<close>

lemma relayed_streams:
  assumes "duplex_peer con1 in1 out1 live1 pieces1" and "duplex_peer con2 in2 out2 live2 pieces2"
    and "live1 c" and "live2 srv" and "wire_steps con1 con2 ms (start_wire c srv) s"
  shows "\<exists>sent got.
    in1 c = sent @ chunk_of (dir_1 (wire_relay s)) @ in1 (wire_conn1 s) \<and> out2 (wire_conn2 s) = out2 srv @ sent \<and>
    out1 (wire_conn1 s) = out1 c @ got \<and> in2 srv = got @ chunk_of (dir_2 (wire_relay s)) @ in2 (wire_conn2 s)"
proof -
  have "wire_inv in1 out1 live1 in2 out2 live2 c srv s" by (rule relayed_inv [OF assms])
  then show ?thesis unfolding wire_inv_def using dir_flow_streams by meson
qed

lemma direct_connected:
  assumes "duplex_peer con incoming outgoing live pieces" and "live srv"
    and "transport (out_address os) = Some (Inr srv)" and "DirectOutbound_connect transport con os = Some (Inr srv')"
  shows "incoming srv' = incoming srv \<and> outgoing srv' = outgoing srv @ out_firstData os \<and> live srv'"
  using byte_peer.write_all [OF duplex_peer.axioms(1) [OF assms(1)] assms(2), of "out_firstData os"] assms(3,4)
  by (auto simp: DirectOutbound_connect_def)

text \<open>The way of the bytes from the client's connection to the relay's two ends, for an accepted SOCKS5 session.\<close>

lemma session_through_relay:
  assumes "duplex_peer con1 in1 out1 live1 pieces1" and "duplex_peer con2 in2 out2 live2 pieces2"
    and "live1 c" and "in1 c = 5 # rest"
    and "MixedInbound_handle parse_uri mk con1 [] c = Some (Inr (Accepted a d), c')"
    and "live2 srv" and "wire_steps con1 con2 ms (start_wire c' srv) s"
  shows "\<exists>methods rsv sent got.
    in1 c = 5 # socks_greeting methods @ socks_request rsv a @ d @ sent @ chunk_of (dir_1 (wire_relay s)) @ in1 (wire_conn1 s) \<and>
    out2 (wire_conn2 s) = out2 srv @ sent \<and>
    out1 (wire_conn1 s) = out1 c @ [5, 0] @ socks_reply @ got \<and>
    in2 srv = got @ chunk_of (dir_2 (wire_relay s)) @ in2 (wire_conn2 s)"
proof -
  have peer: "byte_peer con1 in1 out1 live1 pieces1" by (rule duplex_peer.axioms(1) [OF assms(1)])
  obtain methods rsv where m: "in1 c = 5 # socks_greeting methods @ socks_request rsv a @ d @ in1 c'"
    "out1 c' = out1 c @ [5, 0] @ socks_reply" "live1 c'"
    by (rule byte_peer.mixed_handle_socks [OF peer assms(3-5)])
  from relayed_streams [OF assms(1,2) m(3) assms(6,7)] obtain sent got where
    "in1 c' = sent @ chunk_of (dir_1 (wire_relay s)) @ in1 (wire_conn1 s)" "out2 (wire_conn2 s) = out2 srv @ sent"
    "out1 (wire_conn1 s) = out1 c' @ got" "in2 srv = got @ chunk_of (dir_2 (wire_relay s)) @ in2 (wire_conn2 s)"
    by blast
  then show ?thesis
    using m(1,2) by (intro exI [of _ methods] exI [of _ rsv] exI [of _ sent] exI [of _ got]) simp
qed

text \<open>With the direct outbound the proxy is transparent for a SOCKS5 client: in every state of the relay of its
  session, everything the client sent behind its request is, in order and without a gap, what the server has been
  sent, the one chunk in the relay's hands, and what is not read yet; and everything the client has been sent behind the
  two replies of the protocol is a beginning of what the server sends.\<close>

theorem direct_proxy_is_transparent:
  assumes "duplex_peer con1 in1 out1 live1 pieces1" and "duplex_peer con2 in2 out2 live2 pieces2"
    and "live1 c" and "in1 c = 5 # rest"
    and "MixedInbound_handle parse_uri mk con1 [] c = Some (Inr (Accepted a d), c')"
    and "app_router app = Some r" and "wf_router r"
    and "App_handleSession show_ip ms app \<lparr>in_conn = c', in_address = a, in_firstData = d\<rparr> =
      (app', logs, stage.Connecting conn Direct_Outbound os)"
    and "transport (out_address os) = Some (Inr srv)" and "live2 srv"
    and "DirectOutbound_connect transport con2 os = Some (Inr srv')"
    and "wire_steps con1 con2 ms (start_wire conn srv') s"
  shows "\<exists>methods rsv sent got.
    in1 c = 5 # socks_greeting methods @ socks_request rsv a @ sent @ chunk_of (dir_1 (wire_relay s)) @ in1 (wire_conn1 s) \<and>
    out2 (wire_conn2 s) = out2 srv @ sent \<and>
    out1 (wire_conn1 s) = out1 c @ [5, 0] @ socks_reply @ got \<and> prefix got (in2 srv)"
proof -
  obtain name where os: "conn = c'" "os = \<lparr>out_address = destination name a, out_firstData = d\<rparr>"
    using connecting_session [OF assms(8,6,7)] by auto
  have srv': "in2 srv' = in2 srv" "out2 srv' = out2 srv @ d" "live2 srv'"
    using direct_connected [OF assms(2,10,9,11)] os(2) by simp_all
  from session_through_relay [OF assms(1-5) srv'(3) assms(12) [unfolded os(1)]] obtain methods rsv sent got where
    "in1 c = 5 # socks_greeting methods @ socks_request rsv a @ d @ sent @ chunk_of (dir_1 (wire_relay s)) @ in1 (wire_conn1 s)"
    "out2 (wire_conn2 s) = out2 srv' @ sent" "out1 (wire_conn1 s) = out1 c @ [5, 0] @ socks_reply @ got"
    "in2 srv' = got @ chunk_of (dir_2 (wire_relay s)) @ in2 (wire_conn2 s)"
    by blast
  then show ?thesis
    unfolding srv' by (intro exI [of _ methods] exI [of _ rsv] exI [of _ "d @ sent"] exI [of _ got]) (auto simp: prefix_def)
qed

text \<open>The same session between two scripted connections; the server sends one byte, which the relay has just read.\<close>

definition greeted_server :: script where
  "greeted_server = \<lparr>script_in = [[7]], script_out = [9], script_eof = True\<rparr>"

definition relayed_session :: "(script, script) wire" where
  "relayed_session = \<lparr>wire_conn1 = socks_connection, wire_conn2 = greeted_server\<lparr>script_in := []\<rparr>,
     wire_relay = start_relay\<lparr>dir_2 := \<lparr>dir_phase = Writing [7], dir_received = [7], dir_sent = []\<rparr>\<rparr>\<rparr>"

lemma relayed_session_reached:
  "wire_steps (TcpConnection script_lib) (TcpConnection script_lib) quiet (start_wire socks_connection greeted_server) relayed_session"
proof -
  let ?s = "start_wire socks_connection greeted_server"
  have read: "conn_read (TcpConnection script_lib) 4096 (wire_conn2 ?s) = Some (Inr [7], greeted_server\<lparr>script_in := []\<rparr>)"
    by (simp add: TcpConnection_def scripted.read_some_eq [unfolded Let_def] TcpConnection_read_def start_wire_def)
      (simp add: script_lib_def script_read_some_def greeted_server_def)
  have step: "forward_step (dir_2 (wire_relay ?s)) (Read_Ok [7]) =
      Some (\<lparr>dir_phase = Writing [7], dir_received = [7], dir_sent = []\<rparr>, None)"
    by (simp add: start_wire_def start_relay_def new_direction_def forward_step.simps)
  have "dir_phase (dir_2 (wire_relay ?s)) = Reading" by (simp add: start_wire_def start_relay_def new_direction_def)
  from wire_step.read_2 [OF this read read_event.simps(1) step, of "TcpConnection script_lib" quiet] show ?thesis
    by (simp add: start_wire_def relayed_session_def end_forward_def r_into_rtranclp)
qed

theorem direct_proxy_is_transparent_witness:
  "\<exists>methods rsv. concat (script_in socks_script) =
     5 # socks_greeting methods @ socks_request rsv \<lparr>addr_host = Ip (IpV4 1 2 3 4), addr_port = 80\<rparr> @ [9]"
proof -
  have up: "script_up socks_script" "script_up (greeted_server\<lparr>script_out := []\<rparr>)"
    by (simp_all add: socks_script_def greeted_server_def script_up_def)
  have router: "app_router ruled_app = Some ruled_router" by (simp add: ruled_app_def)
  have input: "concat (script_in socks_script) = 5 # [1, 0, 5, 1, 0, 1, 1, 2, 3, 4, 0, 80, 9]"
    by (simp add: socks_script_def)
  have connected: "DirectOutbound_connect (\<lambda>a. Some (Inr (greeted_server\<lparr>script_out := []\<rparr>))) (TcpConnection script_lib)
      \<lparr>out_address = \<lparr>addr_host = Ip (IpV4 1 2 3 4), addr_port = 80\<rparr>, out_firstData = [9]\<rparr> = Some (Inr greeted_server)"
    by code_simp
  from direct_proxy_is_transparent [where transport = "\<lambda>a. Some (Inr (greeted_server\<lparr>script_out := []\<rparr>))", OF
      scripted_duplex.tcp_duplex.duplex_peer_axioms scripted_duplex.tcp_duplex.duplex_peer_axioms
      up(1) input socks_client_session router wf_ruled_router socks_client_stage refl up(2) connected relayed_session_reached]
  show ?thesis
    by (auto simp: relayed_session_def greeted_server_def socks_connection_def chunk_of_def start_relay_def new_direction_def)
qed

text \<open>An HTTP request other than CONNECT through the direct outbound: in every state of the relay the server has
  been sent the request with its first line rewritten to the path of the target, and then exactly the bytes behind that
  line, up to the chunk in the relay's hands and what is not read yet; the client is sent what the server sends, and
  nothing of the proxy's own.\<close>

theorem http_proxy_forwards:
  assumes "duplex_peer con1 in1 out1 live1 pieces1" and "duplex_peer con2 in2 out2 live2 pieces2"
    and "live1 c" and "in1 c = fb # bs" and "fb \<noteq> 5"
    and "find_in crlf (string_of_bytes (in1 c)) = Some pos"
    and "request_words (take pos (string_of_bytes (in1 c))) = (m, t, v)" and "m \<noteq> ''CONNECT''"
    and "parse_uri t = Some u" and "drop (pos + 2) (in1 c) \<noteq> []"
    and "MixedInbound_handle parse_uri mk con1 [] c = Some (Inr (Accepted a d), c')"
    and "app_router app = Some r" and "wf_router r"
    and "App_handleSession show_ip ms app \<lparr>in_conn = c', in_address = a, in_firstData = d\<rparr> =
      (app', logs, stage.Connecting conn Direct_Outbound os)"
    and "transport (out_address os) = Some (Inr srv)" and "live2 srv"
    and "DirectOutbound_connect transport con2 os = Some (Inr srv')"
    and "wire_steps con1 con2 ms (start_wire conn srv') s"
  shows "\<exists>sent got.
    out2 (wire_conn2 s) = out2 srv @ bytes_of_string (m @ '' '' @ url_path u @ '' '' @ v @ crlf) @ sent \<and>
    drop (pos + 2) (in1 c) = sent @ chunk_of (dir_1 (wire_relay s)) @ in1 (wire_conn1 s) \<and>
    out1 (wire_conn1 s) = out1 c @ got \<and> prefix got (in2 srv)"
proof -
  have peer: "byte_peer con1 in1 out1 live1 pieces1" by (rule duplex_peer.axioms(1) [OF assms(1)])
  from byte_peer.mixed_handle_forward
    [where con = con1 and incoming = in1 and outgoing = out1 and live = live1 and pieces = pieces1 and c = c and pos = pos and m = m and t = t and v = v and mk = mk and users = "[]"
      and parse_uri = parse_uri,
      OF peer assms(3-10)] assms(11) obtain e where
    e: "d = bytes_of_string (m @ '' '' @ url_path u @ '' '' @ v @ crlf) @ e" "drop (pos + 2) (in1 c) = e @ in1 c'"
      "out1 c' = out1 c" "live1 c'"
    by auto
  obtain name where os: "conn = c'" "os = \<lparr>out_address = destination name a, out_firstData = d\<rparr>"
    using connecting_session [OF assms(14,12,13)] by auto
  have srv': "in2 srv' = in2 srv" "out2 srv' = out2 srv @ d" "live2 srv'"
    using direct_connected [OF assms(2,16,15,17)] os(2) by simp_all
  from relayed_streams [OF assms(1,2) e(4) srv'(3) assms(18) [unfolded os(1)]] obtain sent got where
    "in1 c' = sent @ chunk_of (dir_1 (wire_relay s)) @ in1 (wire_conn1 s)" "out2 (wire_conn2 s) = out2 srv' @ sent"
    "out1 (wire_conn1 s) = out1 c' @ got" "in2 srv' = got @ chunk_of (dir_2 (wire_relay s)) @ in2 (wire_conn2 s)"
    by blast
  then show ?thesis
    unfolding srv' e(1-3) by (intro exI [of _ "e @ sent"] exI [of _ got]) (auto simp: prefix_def)
qed

text \<open>A request for \<^verbatim>\<open>h\<close>, relayed before anything more is read.\<close>

definition get_script :: script where
  "get_script = \<lparr>script_in = [bytes_of_string ''GET h HTTP/1.1'' @ crlf_bytes, bytes_of_string ''A: b'' @ crlf_bytes @ crlf_bytes],
     script_out = [], script_eof = True\<rparr>"

lemma get_text:
  "find_in crlf (string_of_bytes (concat (script_in get_script))) = Some 14"
  "request_words (take 14 (string_of_bytes (concat (script_in get_script)))) = (''GET'', ''h'', ''HTTP/1.1'')"
  "drop (14 + 2) (concat (script_in get_script)) \<noteq> []"
  "hd (concat (script_in get_script)) = 0x47"
  by code_simp+

lemma get_stage:
  "App_handleSession (\<lambda>ip. ''ip'') quiet ruled_app
     \<lparr>in_conn = c, in_address = \<lparr>addr_host = Domain ''h'', addr_port = 80\<rparr>, in_firstData = 0x47 # d\<rparr> =
     (ruled_app, route_log (\<lambda>ip. ''ip'') [] \<lparr>addr_host = Domain ''h'', addr_port = 80\<rparr> ''d'',
      stage.Connecting c Direct_Outbound
        \<lparr>out_address = \<lparr>addr_host = Domain ''h'', addr_port = 80\<rparr>, out_firstData = 0x47 # d\<rparr> :: (script, nat) stage)"
proof -
  have "sniffDomain (0x47 # d) = Inr []" by (cases d) (simp_all add: sniffDomain_def)
  then show ?thesis
    by (simp add: App_handleSession_eq [OF _ _ wf_ruled_router] ruled_app_def route_tag_d App_connect_found
        umap_find_def Let_def destination_def)
qed

theorem http_proxy_forwards_witness:
  "\<exists>d c'. MixedInbound_handle host_only (\<lambda>s. None) (TcpConnection script_lib) [] get_script =
      Some (Inr (Accepted \<lparr>addr_host = Domain ''h'', addr_port = 80\<rparr> (bytes_of_string (''GET / HTTP/1.1'' @ crlf) @ d)), c') \<and>
     drop 16 (concat (script_in get_script)) = d @ concat (script_in c')"
proof -
  have up: "script_up get_script" "script_up greeted_server"
    by (simp_all add: get_script_def greeted_server_def script_up_def crlf_bytes_def)
  let ?srv = "greeted_server\<lparr>script_out := []\<rparr>"
  have srv_up: "script_up ?srv" using up(2) by (simp add: script_up_def)
  obtain bs where input: "concat (script_in get_script) = 0x47 # bs"
    using get_text(3,4) by (cases "concat (script_in get_script)") auto
  have url: "host_only ''h'' = Some \<lparr>url_host = ''h'', url_port_number = 0, url_path = ''/''\<rparr>" by (simp add: host_only_def)
  have not_connect: "''GET'' \<noteq> ''CONNECT''" and first: "(0x47 :: u8) \<noteq> 5" by simp_all
  from scripted.tcp_con.mixed_handle_forward [where c = get_script and pos = 14 and parse_uri = host_only, OF up(1) input first get_text(1,2) not_connect url get_text(3), of "\<lambda>s. None" "[]"]
  obtain d c' where run: "MixedInbound_handle host_only (\<lambda>s. None) (TcpConnection script_lib) [] get_script =
      Some (Inr (Accepted \<lparr>addr_host = Domain ''h'', addr_port = 80\<rparr> (bytes_of_string (''GET / HTTP/1.1'' @ crlf) @ d)), c')"
    by (auto simp: with_port_def host_of_def)
  let ?data = "bytes_of_string (''GET / HTTP/1.1'' @ crlf) @ d"
  obtain e where data: "?data = 0x47 # e" by (simp add: byte_of_char_def)
  let ?os = "\<lparr>out_address = \<lparr>addr_host = Domain ''h'', addr_port = 80\<rparr>, out_firstData = ?data\<rparr>"
  have connected: "DirectOutbound_connect (\<lambda>a. Some (Inr ?srv)) (TcpConnection script_lib) ?os = Some (Inr (?srv\<lparr>script_out := ?data\<rparr>))"
    by (simp add: DirectOutbound_connect_def run_on_def TcpConnection_def TcpConnection_write_def script_lib_def)
  have router: "app_router ruled_app = Some ruled_router" by (simp add: ruled_app_def)
  from http_proxy_forwards [where transport = "\<lambda>a. Some (Inr ?srv)", OF
      scripted_duplex.tcp_duplex.duplex_peer_axioms scripted_duplex.tcp_duplex.duplex_peer_axioms
      up(1) input first get_text(1,2) not_connect url get_text(3) run router wf_ruled_router
      get_stage [of c' e, folded data] refl srv_up connected rtranclp.rtrancl_refl]
  have "drop 16 (concat (script_in get_script)) = d @ concat (script_in c')"
    by (auto simp: start_wire_def start_relay_def new_direction_def chunk_of_def)
  with run show ?thesis by blast
qed

lemma vless_request_stream_parses:
  assumes "length uuid = 16" and "wf_socks_host (addr_host (out_address os))" and "vless_request uuid os = Inr req"
  shows "parse_vless (req @ later) = Some (uuid, out_address os, out_firstData os @ later)"
  using assms by (cases "out_address os") (auto simp: vless_request_eq parse_vless_layout [simplified] parse_vless_host_encode)

text \<open>With a VLESS outbound the proxy is transparent too: in every state of the relay, what the VLESS server has
  been sent reads, by the protocol, as a request of the configured user for the session's destination whose payload is
  exactly what the client sent behind its request, up to the chunk in the relay's hands and what is not read yet; and
  the client is sent what follows the server's two bytes of acceptance.\<close>

theorem vless_proxy_is_transparent:
  assumes "duplex_peer con1 in1 out1 live1 pieces1" and "duplex_peer con2 in2 out2 live2 pieces2"
    and "live1 c" and "in1 c = 5 # rest"
    and "MixedInbound_handle parse_uri mk con1 [] c = Some (Inr (Accepted a d), c')"
    and "app_router app = Some r" and "wf_router r"
    and "App_handleSession show_ip ms app \<lparr>in_conn = c', in_address = a, in_firstData = d\<rparr> =
      (app', logs, stage.Connecting conn (Vless_Outbound tr server uuid) os)"
    and "length uuid = 16" and "wf_socks_host (addr_host (out_address os))"
    and "transport server = Some (Inr srv)" and "live2 srv" and "out2 srv = []" and "in2 srv = [0, 0] @ answer"
    and "VlessOutbound_connect transport con2 server uuid os = Some (Inr srv')"
    and "wire_steps con1 con2 ms (start_wire conn srv') s"
  shows "\<exists>methods rsv sent got.
    in1 c = 5 # socks_greeting methods @ socks_request rsv a @ sent @ chunk_of (dir_1 (wire_relay s)) @ in1 (wire_conn1 s) \<and>
    parse_vless (out2 (wire_conn2 s)) = Some (uuid, out_address os, sent) \<and>
    out1 (wire_conn1 s) = out1 c @ [5, 0] @ socks_reply @ got \<and> prefix got answer"
proof -
  obtain name where os: "conn = c'" "os = \<lparr>out_address = destination name a, out_firstData = d\<rparr>"
    using connecting_session [OF assms(8,6,7)] by auto
  have peer: "byte_peer con2 in2 out2 live2 pieces2" by (rule duplex_peer.axioms(1) [OF assms(2)])
  obtain req where req: "vless_request uuid os = Inr req" by (simp add: vless_request_eq)
  from byte_peer.vless_handshake_ok [OF peer assms(12,14) req]
  have srv': "in2 srv' = answer" "out2 srv' = req" "live2 srv'"
    using assms(11,13,15) by (auto simp: VlessOutbound_connect_def)
  from session_through_relay [OF assms(1-5) srv'(3) assms(16) [unfolded os(1)]] obtain methods rsv sent got where
    flow: "in1 c = 5 # socks_greeting methods @ socks_request rsv a @ d @ sent @ chunk_of (dir_1 (wire_relay s)) @ in1 (wire_conn1 s)"
    "out2 (wire_conn2 s) = out2 srv' @ sent" "out1 (wire_conn1 s) = out1 c @ [5, 0] @ socks_reply @ got"
    "in2 srv' = got @ chunk_of (dir_2 (wire_relay s)) @ in2 (wire_conn2 s)"
    by blast
  have "parse_vless (out2 (wire_conn2 s)) = Some (uuid, out_address os, d @ sent)"
    using vless_request_stream_parses [OF assms(9,10) req, of sent] os(2) flow(2) srv'(2) by simp
  then show ?thesis
    using flow(1,3,4) srv'(1)
    by (intro exI [of _ methods] exI [of _ rsv] exI [of _ "d @ sent"] exI [of _ got]) (auto simp: prefix_def)
qed

definition plain_vless_app :: app where
  "plain_vless_app = ruled_app\<lparr>app_outbounds := [(''d'', Some (Vless_Outbound Tcp_Transport
     \<lparr>addr_host = Domain ''v'', addr_port = 443\<rparr> (replicate 16 7)))]\<rparr>"

definition fresh_vless_server :: script where
  "fresh_vless_server = \<lparr>script_in = [[0, 0], [7]], script_out = [], script_eof = True\<rparr>"

definition vless_destination :: address where
  "vless_destination = \<lparr>addr_host = Ip (IpV4 1 2 3 4), addr_port = 80\<rparr>"

definition accepted_vless_server :: script where
  "accepted_vless_server = \<lparr>script_in = [[7]],
     script_out = [0] @ replicate 16 7 @ [0, 1, 0, 80, 1, 1, 2, 3, 4, 9], script_eof = True\<rparr>"

lemma vless_stage:
  "App_handleSession (\<lambda>ip. ''ip'') quiet plain_vless_app
     \<lparr>in_conn = socks_connection, in_address = vless_destination, in_firstData = [9]\<rparr> =
     (plain_vless_app, route_log (\<lambda>ip. ''ip'') [] vless_destination ''d'',
      stage.Connecting socks_connection (Vless_Outbound Tcp_Transport \<lparr>addr_host = Domain ''v'', addr_port = 443\<rparr> (replicate 16 7))
        \<lparr>out_address = vless_destination, out_firstData = [9]\<rparr> :: (script, nat) stage)"
proof -
  have "sniffDomain [9] = Inr []" by (simp add: sniffDomain_def)
  then show ?thesis
    by (simp add: App_handleSession_eq [OF _ _ wf_ruled_router] plain_vless_app_def ruled_app_def route_tag_d App_connect_found
        umap_find_def Let_def destination_def)
qed

theorem vless_proxy_is_transparent_witness:
  "\<exists>methods rsv sent. concat (script_in socks_script) = 5 # socks_greeting methods @ socks_request rsv vless_destination @ sent \<and>
     parse_vless (script_out accepted_vless_server) = Some (replicate 16 7, vless_destination, sent)"
proof -
  have facts: "script_up socks_script" "script_up fresh_vless_server" "app_router plain_vless_app = Some ruled_router"
    "length (replicate 16 (7 :: u8)) = 16" "script_out fresh_vless_server = []"
    "concat (script_in fresh_vless_server) = [0, 0] @ [7]"
    "concat (script_in socks_script) = 5 # [1, 0, 5, 1, 0, 1, 1, 2, 3, 4, 0, 80, 9]"
    "wf_socks_host (addr_host (out_address \<lparr>out_address = vless_destination, out_firstData = [9]\<rparr>))"
    by (simp_all add: socks_script_def fresh_vless_server_def script_up_def plain_vless_app_def ruled_app_def vless_destination_def)
  have connected: "VlessOutbound_connect (\<lambda>a. Some (Inr fresh_vless_server)) (TcpConnection script_lib)
      \<lparr>addr_host = Domain ''v'', addr_port = 443\<rparr> (replicate 16 7)
      \<lparr>out_address = vless_destination, out_firstData = [9]\<rparr> = Some (Inr accepted_vless_server)"
    by code_simp
  from vless_proxy_is_transparent [where transport = "\<lambda>a. Some (Inr fresh_vless_server)", OF
      scripted_duplex.tcp_duplex.duplex_peer_axioms scripted_duplex.tcp_duplex.duplex_peer_axioms
      facts(1,7) socks_client_session [folded vless_destination_def] facts(3) wf_ruled_router vless_stage facts(4,8) refl facts(2,5,6)
      connected rtranclp.rtrancl_refl]
  show ?thesis
    by (auto simp: start_wire_def start_relay_def new_direction_def chunk_of_def socks_connection_def)
qed

end
